(* ===== verification/Prelude.thy ===== *)
theory Prelude
  imports Main "HOL-Library.AList" "HOL-Library.Multiset"
begin

text \<open>
  Shared vocabulary of the development.

  \<^item> Results: a Go function returning \<open>(value, error)\<close> is a value of the sum type
    \<open>'e + 'a\<close>, \<open>Inl\<close> for the error return; \<open>res_bind\<close> is the early-return idiom
    \<open>if err != nil { return ..., err }\<close>. The collection \<open>res_iff\<close> turns
    ``the result is \<open>Inr\<close>'' into facts about the parts.
  \<^item> Maps: a Go map is an association list (\<open>gomap\<close>) with distinct keys. Go's
    \<open>range\<close> over a map visits the entries in an order the runtime picks anew for every
    loop; the functions that range over a map take that order as an argument
    (\<open>order\<close>, indexed by the loop's position in the run) and the theorems assume only that
    it is a rearrangement of the keys (\<open>is_order\<close>).
  \<^item> Generic facts about lists and maps that several components use.
\<close>

section \<open>Proof hint collections\<close>

named_theorems res_iff \<open>when a composed result is a success or a failure\<close>
named_theorems label_simps \<open>label sets written out\<close>

section \<open>Results\<close>

type_synonym ('e, 'a) result = "'e + 'a"

definition res_bind :: "'e + 'a \<Rightarrow> ('a \<Rightarrow> 'e + 'b) \<Rightarrow> 'e + 'b" where
  "res_bind m f = (case m of Inl e \<Rightarrow> Inl e | Inr a \<Rightarrow> f a)"

lemma res_bind_simps [simp]:
  "res_bind (Inl e) f = Inl e"
  "res_bind (Inr a) f = f a"
  by (simp_all add: res_bind_def)

lemma res_bind_Inr [res_iff]: "res_bind m f = Inr b \<longleftrightarrow> (\<exists>a. m = Inr a \<and> f a = Inr b)"
  by (cases m) simp_all

lemma res_bind_Inl [res_iff]:
  "res_bind m f = Inl e \<longleftrightarrow> m = Inl e \<or> (\<exists>a. m = Inr a \<and> f a = Inl e)"
  by (cases m) auto

section \<open>Maps with string keys\<close>

type_synonym ('k, 'v) gomap = "('k \<times> 'v) list"

definition map_keys :: "('k, 'v) gomap \<Rightarrow> 'k list" where
  "map_keys m = map fst m"

definition wf_map :: "('k, 'v) gomap \<Rightarrow> bool" where
  "wf_map m \<longleftrightarrow> distinct (map_keys m)"

text \<open>\<open>m[k]++\<close> on a \<open>map[string]int\<close>: a missing key reads as 0.\<close>

definition map_incr :: "'k \<Rightarrow> ('k, int) gomap \<Rightarrow> ('k, int) gomap" where
  "map_incr k m = AList.update k ((case map_of m k of None \<Rightarrow> 0 | Some n \<Rightarrow> n) + 1) m"

lemma wf_map_Nil [simp]: "wf_map []"
  by (simp add: wf_map_def map_keys_def)

lemma wf_map_update [simp, intro]: "wf_map m \<Longrightarrow> wf_map (AList.update k v m)"
  by (simp add: wf_map_def map_keys_def distinct_update)

lemma wf_map_incr [simp, intro]: "wf_map m \<Longrightarrow> wf_map (map_incr k m)"
  by (simp add: map_incr_def)

lemma set_map_keys: "set (map_keys m) = dom (map_of m)"
  by (simp add: map_keys_def dom_map_of_conv_image_fst)

lemma map_of_incr:
  "map_of (map_incr k m) =
     (map_of m)(k \<mapsto> (case map_of m k of None \<Rightarrow> 0 | Some n \<Rightarrow> n) + 1)"
  by (simp add: map_incr_def update_conv')

text \<open>The order in which the \<open>i\<close>-th \<open>range\<close> loop of a run visits a map's keys.\<close>

type_synonym order = "nat \<Rightarrow> string list \<Rightarrow> string list"

definition is_order :: "order \<Rightarrow> bool" where
  "is_order ord \<longleftrightarrow> (\<forall>i ks. mset (ord i ks) = mset ks)"

text \<open>The entries a \<open>range\<close> loop sees, in the order given for its keys.\<close>

definition range_map :: "(string list \<Rightarrow> string list) \<Rightarrow> (string, 'v) gomap \<Rightarrow> (string \<times> 'v) list" where
  "range_map o1 m =
     List.map_filter (\<lambda>k. map_option (\<lambda>v. (k, v)) (map_of m k)) (o1 (map_keys m))"

lemma is_order_set: "is_order ord \<Longrightarrow> set (ord i ks) = set ks"
  unfolding is_order_def by (metis set_mset_mset)

lemma is_order_distinct: "is_order ord \<Longrightarrow> distinct (ord i ks) = distinct ks"
  unfolding is_order_def by (metis mset_eq_imp_distinct_iff)

lemma map_of_in_set: "wf_map m \<Longrightarrow> (k, v) \<in> set m \<longleftrightarrow> map_of m k = Some v"
  unfolding wf_map_def map_keys_def by (rule map_of_eq_Some_iff [symmetric])

lemma mset_range_map:
  assumes "is_order ord" and "wf_map m"
  shows "mset (range_map (ord i) m) = mset m"
proof -
  let ?f = "\<lambda>k. map_option (\<lambda>v. (k, v)) (map_of m k)"
  have "mset (range_map (ord i) m) = mset (List.map_filter ?f (map_keys m))"
    using assms(1) unfolding range_map_def is_order_def List.map_filter_def
    by (metis (no_types, lifting) mset_filter mset_map)
  moreover have "List.map_filter ?f (map_keys m) = map (the \<circ> ?f) (map_keys m)"
  proof -
    have "filter (\<lambda>k. ?f k \<noteq> None) (map_keys m) = map_keys m"
      by (rule filter_True) (auto simp: set_map_keys)
    then show ?thesis by (simp add: List.map_filter_def)
  qed
  moreover have "map (the \<circ> ?f) (map_keys m) = m"
  proof -
    have "the (?f k) = (k, v)" if "(k, v) \<in> set m" for k v
      using that assms(2) by (simp add: wf_map_def map_keys_def)
    then show ?thesis unfolding map_keys_def by (auto intro: map_idI)
  qed
  ultimately show ?thesis by simp
qed

lemma set_range_map: "is_order ord \<Longrightarrow> wf_map m \<Longrightarrow> set (range_map (ord i) m) = set m"
  by (metis mset_range_map set_mset_mset)

lemma length_range_map: "is_order ord \<Longrightarrow> wf_map m \<Longrightarrow> length (range_map (ord i) m) = length m"
  by (metis mset_range_map size_mset)

section \<open>Lists\<close>

text \<open>Order-preserving removal of repeated elements: the first occurrence stays.\<close>

fun nub_by :: "('a \<Rightarrow> 'k) \<Rightarrow> 'k list \<Rightarrow> 'a list \<Rightarrow> 'a list" where
  "nub_by key seen [] = []"
| "nub_by key seen (x # xs) =
     (if key x \<in> set seen then nub_by key seen xs else x # nub_by key (key x # seen) xs)"

lemma nub_by_subset: "set (nub_by key seen xs) \<subseteq> set xs"
  by (induction xs arbitrary: seen) auto

lemma nub_by_notin: "x \<in> set (nub_by key seen xs) \<Longrightarrow> key x \<notin> set seen"
  by (induction xs arbitrary: seen) (fastforce split: if_splits)+

lemma distinct_nub_by: "distinct (map key (nub_by key seen xs))"
  by (induction xs arbitrary: seen) (auto dest: nub_by_notin)

lemma keys_nub_by: "key ` set (nub_by key seen xs) = key ` set xs - set seen"
  by (induction xs arbitrary: seen) (auto simp: image_iff)

lemma nub_by_distinct_id:
  "distinct (map key xs) \<Longrightarrow> key ` set xs \<inter> set seen = {} \<Longrightarrow> nub_by key seen xs = xs"
  by (induction xs arbitrary: seen) auto

text \<open>Distinct keys of a concatenation: distinct within each part, and a tag tells the parts
  apart.\<close>

lemma distinct_concat_tagged:
  assumes "distinct (map g xs)" and "\<And>x. x \<in> set xs \<Longrightarrow> distinct (map key (f x))"
    and "\<And>x y. x \<in> set xs \<Longrightarrow> y \<in> set (f x) \<Longrightarrow> tag (key y) = g x"
  shows "distinct (map key (concat (map f xs)))"
  using assms
proof (induction xs)
  case (Cons x xs)
  have "key y \<noteq> key z" if "y \<in> set (f x)" "x' \<in> set xs" "z \<in> set (f x')" for y z x'
    using that Cons.prems(1) Cons.prems(3) [of x y] Cons.prems(3) [of x' z]
    by (metis distinct.simps(2) image_eqI list.set_intros list.set_map list.simps(9))
  moreover have "distinct (map key (concat (map f xs)))" using Cons by simp
  moreover have "distinct (map key (f x))" using Cons.prems(2) by simp
  ultimately show ?case by (auto simp: image_iff)
qed simp

lemma find_SomeD: "find P xs = Some x \<Longrightarrow> x \<in> set xs \<and> P x"
  by (induction xs) (auto split: if_splits)

section \<open>Counting with a map\<close>

text \<open>The loop \<open>for ... { m[f(x)]++ }\<close>: a lookup counts the elements with that key, the values
  add up to the number of elements, and only keys that occur are present.\<close>

definition count_by :: "('a \<Rightarrow> 'k) \<Rightarrow> 'a list \<Rightarrow> ('k, int) gomap" where
  "count_by f xs = foldl (\<lambda>m x. map_incr (f x) m) [] xs"

lemma count_by_snoc: "count_by f (xs @ [x]) = map_incr (f x) (count_by f xs)"
  by (simp add: count_by_def)

lemma wf_count_by [simp, intro]: "wf_map (count_by f xs)"
  by (induction xs rule: rev_induct) (auto simp: count_by_snoc count_by_def [of f "[]"])

lemma count_by_lookup:
  "map_of (count_by f xs) k =
     (if k \<in> f ` set xs then Some (int (length (filter (\<lambda>x. f x = k) xs))) else None)"
proof (induction xs rule: rev_induct)
  case (snoc x xs)
  then show ?case
    by (cases "f x = k"; cases "k \<in> f ` set xs")
      (auto simp: count_by_snoc map_of_incr filter_empty_conv dest: image_eqI [OF sym])
qed (simp add: count_by_def)

lemma sum_list_update:
  "wf_map m \<Longrightarrow> sum_list (map snd (AList.update k (v :: int) m)) =
     sum_list (map snd m) - (case map_of m k of None \<Rightarrow> 0 | Some n \<Rightarrow> n) + v"
proof (induction m)
  case (Cons p m)
  then show ?case
    by (cases p) (auto simp: wf_map_def map_keys_def split: option.splits
        dest: map_of_SomeD)
qed simp

lemma count_by_sum: "sum_list (map snd (count_by f xs)) = int (length xs)"
proof (induction xs rule: rev_induct)
  case (snoc x xs)
  then show ?case by (simp add: count_by_snoc map_incr_def sum_list_update)
qed (simp add: count_by_def)

text \<open>The multiset of entries of a counting map: one per key that occurs.\<close>

lemma mset_count_by:
  "mset (count_by f xs) =
     image_mset (\<lambda>k. (k, int (length (filter (\<lambda>x. f x = k) xs)))) (mset_set (f ` set xs))"
proof -
  let ?m = "count_by f xs" and ?g = "\<lambda>k. (k, int (length (filter (\<lambda>x. f x = k) xs)))"
  have wf: "wf_map ?m" by simp
  then have d: "distinct (map fst ?m)" by (simp add: wf_map_def map_keys_def)
  have keys: "set (map fst ?m) = f ` set xs"
    using count_by_lookup [of f xs] by (auto simp: dom_map_of_conv_image_fst [symmetric] split: if_splits)
  have "p = ?g (fst p)" if "p \<in> set ?m" for p
  proof -
    have "map_of ?m (fst p) = Some (snd p)" using that d by (metis map_of_is_SomeI prod.collapse)
    then show ?thesis by (cases p) (auto simp: count_by_lookup split: if_splits)
  qed
  then have "map ?g (map fst ?m) = ?m" by (simp add: map_idI)
  then have "mset ?m = image_mset ?g (mset (map fst ?m))" by (metis mset_map)
  also have "mset (map fst ?m) = mset_set (f ` set xs)"
    using d keys by (metis mset_set_set)
  finally show ?thesis .
qed

text \<open>The identity is an order.\<close>

definition id_order :: order where
  "id_order i ks = ks"

lemma is_order_id [simp, intro]: "is_order id_order"
  by (simp add: is_order_def id_order_def)

end
