(* ===== verification/GoStrings.thy ===== *)
theory GoStrings
  imports Prelude "HOL-Library.Sublist"
begin

text \<open>
  The parts of Go's \<open>strings\<close>, \<open>strconv\<close> and \<open>unicode/utf8\<close> that the program calls.
  A Go string is a sequence of bytes, here a \<^typ>\<open>string\<close> (a \<^typ>\<open>char\<close> is one byte).

  Case mapping and folding act on code points. The program only ever compares the result
  with ASCII literals, and exactly three non-ASCII code points map into ASCII: U+0130
  (lower-cases to \<open>i\<close>), U+212A (lower-cases and folds to \<open>k\<close>) and U+017F (folds to \<open>s\<close>).
  They are treated by their UTF-8 bytes; every other non-ASCII byte is kept, which no
  comparison with an ASCII literal can observe.
\<close>

section \<open>Bytes\<close>

text \<open>Byte values are integers, which the code generator's equations keep in binary.\<close>

abbreviation byte :: "char \<Rightarrow> int" where "byte c \<equiv> of_char c"

definition is_digit :: "char \<Rightarrow> bool" where
  "is_digit c \<longleftrightarrow> 48 \<le> byte c \<and> byte c \<le> 57"

definition digit_char :: "int \<Rightarrow> char" where
  "digit_char n = char_of (48 + n)"

definition digit_val :: "char \<Rightarrow> int" where
  "digit_val c = byte c - 48"

lemma digit_char_props:
  assumes "0 \<le> n" and "n < 10"
  shows "is_digit (digit_char n)" and "digit_val (digit_char n) = n"
  using assms by (simp_all add: is_digit_def digit_char_def digit_val_def take_bit_int_eq_self)

lemma digit_val_bounds: "is_digit c \<Longrightarrow> 0 \<le> digit_val c \<and> digit_val c < 10"
  by (simp add: is_digit_def digit_val_def)

section \<open>strconv.Itoa, strconv.Atoi, strconv.ParseBool\<close>

function nat_digits :: "int \<Rightarrow> string" where
  "nat_digits n =
     (if n < 10 then [digit_char n] else nat_digits (n div 10) @ [digit_char (n mod 10)])"
  by pat_completeness auto
termination
  by (relation "measure nat") auto

declare nat_digits.simps [simp del]

definition digits_val :: "string \<Rightarrow> int" where
  "digits_val ds = foldl (\<lambda>a c. 10 * a + digit_val c) 0 ds"

definition Itoa :: "int \<Rightarrow> string" where
  "Itoa i = (if i < 0 then CHR ''-'' # nat_digits (- i) else nat_digits i)"

definition in_int64 :: "int \<Rightarrow> bool" where
  "in_int64 i \<longleftrightarrow> - (2 ^ 63) \<le> i \<and> i < 2 ^ 63"

text \<open>\<open>Atoi\<close> is \<open>ParseInt(s, 10, 64)\<close>: an optional sign, then at least one digit and nothing
  else, the value in the range of a 64-bit \<open>int\<close>. \<open>None\<close> is its error.\<close>

definition split_sign :: "string \<Rightarrow> bool \<times> string" where
  "split_sign s =
     (case s of [] \<Rightarrow> (False, [])
      | c # r \<Rightarrow> if c = CHR ''-'' then (True, r) else if c = CHR ''+'' then (False, r) else (False, s))"

definition Atoi :: "string \<Rightarrow> int option" where
  "Atoi s =
     (let (neg, ds) = split_sign s
      in if ds = [] \<or> \<not> list_all is_digit ds then None
         else let v = (if neg then - digits_val ds else digits_val ds)
              in if in_int64 v then Some v else None)"

definition ParseBool :: "string \<Rightarrow> bool option" where
  "ParseBool s =
     (if s \<in> {''1'', ''t'', ''T'', ''TRUE'', ''true'', ''True''} then Some True
      else if s \<in> {''0'', ''f'', ''F'', ''FALSE'', ''false'', ''False''} then Some False
      else None)"

lemma digits_val_snoc: "digits_val (ds @ [c]) = 10 * digits_val ds + digit_val c"
  by (simp add: digits_val_def)

lemma nat_digits_props:
  "0 \<le> n \<Longrightarrow> nat_digits n \<noteq> [] \<and> list_all is_digit (nat_digits n) \<and> digits_val (nat_digits n) = n"
proof (induction n rule: nat_digits.induct)
  case (1 n)
  show ?case
  proof (cases "n < 10")
    case True
    with "1.prems" show ?thesis
      by (simp add: nat_digits.simps [of n] digit_char_props digits_val_def)
  next
    case False
    with 1 show ?thesis
      by (simp add: nat_digits.simps [of n] digit_char_props digits_val_snoc)
  qed
qed

lemma split_sign_digits: "list_all is_digit (c # ds) \<Longrightarrow> split_sign (c # ds) = (False, c # ds)"
  by (auto simp: split_sign_def is_digit_def)

lemma Atoi_Itoa: "in_int64 i \<Longrightarrow> Atoi (Itoa i) = Some i"
proof (cases "i < 0")
  case True
  then show "in_int64 i \<Longrightarrow> ?thesis"
    using nat_digits_props [of "- i"] by (simp add: Itoa_def Atoi_def split_sign_def)
next
  case False
  obtain c ds where *: "nat_digits i = c # ds"
    using False nat_digits_props [of "i"] by (cases "nat_digits i") auto
  then have "split_sign (c # ds) = (False, c # ds)"
    using False nat_digits_props [of "i"] by (intro split_sign_digits) simp
  with False * show "in_int64 i \<Longrightarrow> ?thesis"
    using nat_digits_props [of "i"] by (simp add: Itoa_def Atoi_def)
qed

lemma Itoa_inj: "Itoa i = Itoa j \<Longrightarrow> i = j"
proof -
  have neg: "0 \<le> n \<Longrightarrow> nat_digits n \<noteq> CHR ''-'' # ds" for n ds
    using nat_digits_props [of n] by (auto simp: is_digit_def)
  have inj: "nat_digits m = nat_digits n \<Longrightarrow> 0 \<le> m \<Longrightarrow> 0 \<le> n \<Longrightarrow> m = n" for m n
    using nat_digits_props by metis
  assume "Itoa i = Itoa j"
  then show "i = j"
    using neg [of i] neg [of j] inj [of i j] inj [of "- i" "- j"]
    by (auto simp: Itoa_def split: if_splits dest: sym)
qed

lemma Itoa_eq_iff [simp]: "Itoa i = Itoa j \<longleftrightarrow> i = j"
  by (auto dest: Itoa_inj)

lemma Atoi_in_int64: "Atoi s = Some i \<Longrightarrow> in_int64 i"
  by (auto simp: Atoi_def Let_def split: prod.splits if_splits)

section \<open>Searching, trimming, joining\<close>

fun Contains :: "string \<Rightarrow> string \<Rightarrow> bool" where
  "Contains [] sub = (sub = [])"
| "Contains (c # cs) sub = (prefix sub (c # cs) \<or> Contains cs sub)"

lemma Contains_iff: "Contains s sub \<longleftrightarrow> (\<exists>ps ss. s = ps @ sub @ ss)"
proof (induction s)
  case Nil
  then show ?case by simp
next
  case (Cons c cs)
  then show ?case by (auto simp: prefix_def Cons_eq_append_conv)
qed

definition IndexByte :: "string \<Rightarrow> char \<Rightarrow> nat option" where
  "IndexByte s c = (if c \<in> set s then Some (length (takeWhile (\<lambda>x. x \<noteq> c) s)) else None)"

lemma IndexByte_Some:
  "IndexByte s c = Some i \<longleftrightarrow> i < length s \<and> s ! i = c \<and> c \<notin> set (take i s)"
proof
  assume "IndexByte s c = Some i"
  then have c: "c \<in> set s" and i: "i = length (takeWhile (\<lambda>x. x \<noteq> c) s)"
    by (auto simp: IndexByte_def split: if_splits)
  from c have "i < length s" unfolding i by (induction s) auto
  moreover have "s ! i = c" using nth_length_takeWhile calculation i by blast
  moreover have "take i s = takeWhile (\<lambda>x. x \<noteq> c) s"
    unfolding i by (metis takeWhile_eq_take)
  ultimately show "i < length s \<and> s ! i = c \<and> c \<notin> set (take i s)"
    by (auto dest: set_takeWhileD)
next
  assume a: "i < length s \<and> s ! i = c \<and> c \<notin> set (take i s)"
  then have "s = take i s @ c # drop (Suc i) s" by (metis id_take_nth_drop)
  moreover have "takeWhile (\<lambda>x. x \<noteq> c) (take i s @ c # drop (Suc i) s) = take i s"
    using a by (subst takeWhile_append2) auto
  ultimately show "IndexByte s c = Some i"
    using a by (auto simp: IndexByte_def min_def)
qed

text \<open>\<open>Trim(s, cutset)\<close> for a one-byte cutset.\<close>

definition Trim :: "char \<Rightarrow> string \<Rightarrow> string" where
  "Trim c s = rev (dropWhile (\<lambda>x. x = c) (rev (dropWhile (\<lambda>x. x = c) s)))"

text \<open>\<open>TrimSpace\<close> removes leading and trailing white space in Unicode's sense; the list holds
  the UTF-8 encodings of \<open>unicode.IsSpace\<close>.\<close>

definition space_seqs :: "string list" where
  "space_seqs =
     [[CHR 0x20], [CHR 0x09], [CHR 0x0A], [CHR 0x0B], [CHR 0x0C], [CHR 0x0D],
      [CHR 0xC2, CHR 0x85], [CHR 0xC2, CHR 0xA0], [CHR 0xE1, CHR 0x9A, CHR 0x80],
      [CHR 0xE2, CHR 0x80, CHR 0x80], [CHR 0xE2, CHR 0x80, CHR 0x81], [CHR 0xE2, CHR 0x80, CHR 0x82],
      [CHR 0xE2, CHR 0x80, CHR 0x83], [CHR 0xE2, CHR 0x80, CHR 0x84], [CHR 0xE2, CHR 0x80, CHR 0x85],
      [CHR 0xE2, CHR 0x80, CHR 0x86], [CHR 0xE2, CHR 0x80, CHR 0x87], [CHR 0xE2, CHR 0x80, CHR 0x88],
      [CHR 0xE2, CHR 0x80, CHR 0x89], [CHR 0xE2, CHR 0x80, CHR 0x8A], [CHR 0xE2, CHR 0x80, CHR 0xA8],
      [CHR 0xE2, CHR 0x80, CHR 0xA9], [CHR 0xE2, CHR 0x80, CHR 0xAF], [CHR 0xE2, CHR 0x81, CHR 0x9F],
      [CHR 0xE3, CHR 0x80, CHR 0x80]]"

function strip_seqs :: "string list \<Rightarrow> string \<Rightarrow> string" where
  "strip_seqs ps s =
     (case find (\<lambda>p. p \<noteq> [] \<and> prefix p s) ps of
        None \<Rightarrow> s
      | Some p \<Rightarrow> strip_seqs ps (drop (length p) s))"
  by pat_completeness auto
termination
  by (relation "measure (\<lambda>(ps, s). length s)") (auto simp: find_Some_iff prefix_def)

declare strip_seqs.simps [simp del]

definition TrimSpace :: "string \<Rightarrow> string" where
  "TrimSpace s = rev (strip_seqs (map rev space_seqs) (rev (strip_seqs space_seqs s)))"

fun Join :: "string list \<Rightarrow> string \<Rightarrow> string" where
  "Join [] sep = []"
| "Join [x] sep = x"
| "Join (x # y # xs) sep = x @ sep @ Join (y # xs) sep"

text \<open>A separator byte that occurs in no part makes \<open>Join\<close> injective on lists of one length.\<close>

lemma append_sep_inj:
  assumes "x @ c # r = y @ c # r'" and "c \<notin> set x" and "c \<notin> set y"
  shows "x = y \<and> r = r'"
  using assms
proof (induction x arbitrary: y)
  case Nil
  then show ?case by (cases y) auto
next
  case (Cons a x)
  then show ?case by (cases y) auto
qed

lemma Join_inj:
  assumes "Join xs [c] = Join ys [c]" and "length xs = length ys"
    and "\<forall>x \<in> set xs \<union> set ys. c \<notin> set x"
  shows "xs = ys"
  using assms(2,1,3)
proof (induction xs ys rule: list_induct2)
  case Nil
  then show ?case by simp
next
  case (Cons x xs y ys)
  show ?case
  proof (cases xs)
    case Nil
    with Cons show ?thesis by simp
  next
    case (Cons x' xs')
    note xs = this
    then obtain y' ys' where ys: "ys = y' # ys'"
      using Cons.hyps by (cases ys) auto
    have "x @ c # Join xs [c] = y @ c # Join ys [c]"
      using Cons.prems(1) xs ys by simp
    then have "x = y \<and> Join xs [c] = Join ys [c]"
      by (rule append_sep_inj) (use Cons.prems(2) in auto)
    with Cons.IH Cons.prems(2) show ?thesis by auto
  qed
qed

section \<open>Case mapping\<close>

definition ascii_lower :: "char \<Rightarrow> char" where
  "ascii_lower c = (if 65 \<le> byte c \<and> byte c \<le> 90 then char_of (byte c + 32) else c)"

fun ToLower :: "string \<Rightarrow> string" where
  "ToLower [] = []"
| "ToLower (c # cs) =
     (if prefix [CHR 0xC4, CHR 0xB0] (c # cs) then CHR ''i'' # ToLower (drop 1 cs)
      else if prefix [CHR 0xE2, CHR 0x84, CHR 0xAA] (c # cs) then CHR ''k'' # ToLower (drop 2 cs)
      else ascii_lower c # ToLower cs)"

fun fold_case :: "string \<Rightarrow> string" where
  "fold_case [] = []"
| "fold_case (c # cs) =
     (if prefix [CHR 0xC5, CHR 0xBF] (c # cs) then CHR ''s'' # fold_case (drop 1 cs)
      else if prefix [CHR 0xE2, CHR 0x84, CHR 0xAA] (c # cs) then CHR ''k'' # fold_case (drop 2 cs)
      else ascii_lower c # fold_case cs)"

text \<open>\<open>EqualFold(s, t)\<close> where one of the two is an ASCII literal.\<close>

definition EqualFold :: "string \<Rightarrow> string \<Rightarrow> bool" where
  "EqualFold s t \<longleftrightarrow> fold_case s = fold_case t"

section \<open>UTF-8: splitting a string into runes\<close>

text \<open>The number of bytes \<open>utf8.DecodeRune\<close> consumes: 1 for ASCII and for every invalid
  byte, else the length of the encoding.\<close>

definition is_cont :: "int \<Rightarrow> int \<Rightarrow> int \<Rightarrow> bool" where
  "is_cont lo hi b \<longleftrightarrow> lo \<le> b \<and> b \<le> hi"

definition second_range :: "int \<Rightarrow> int \<times> int" where
  "second_range b =
     (if b = 224 then (160, 191) else if b = 237 then (128, 159)
      else if b = 240 then (144, 191) else if b = 244 then (128, 143) else (128, 191))"

definition rune_len :: "string \<Rightarrow> nat" where
  "rune_len s =
     (let bs = map byte s; cont = is_cont 128 191
      in case bs of
           b0 # b1 # rest \<Rightarrow>
             (let ok1 = is_cont (fst (second_range b0)) (snd (second_range b0)) b1
              in if 194 \<le> b0 \<and> b0 \<le> 223 \<and> ok1 then 2
                 else case rest of
                   b2 # rest2 \<Rightarrow>
                     (if 224 \<le> b0 \<and> b0 \<le> 239 \<and> ok1 \<and> cont b2 then 3
                      else case rest2 of
                        b3 # _ \<Rightarrow> (if 240 \<le> b0 \<and> b0 \<le> 244 \<and> ok1 \<and> cont b2 \<and> cont b3 then 4 else 1)
                      | [] \<Rightarrow> 1)
                 | [] \<Rightarrow> 1)
         | _ \<Rightarrow> 1)"

lemma rune_len_pos: "0 < rune_len s"
  by (auto simp: rune_len_def Let_def split: list.splits)

function runes :: "string \<Rightarrow> string list" where
  "runes [] = []"
| "runes (c # cs) = take (rune_len (c # cs)) (c # cs) # runes (drop (rune_len (c # cs)) (c # cs))"
  by pat_completeness auto
termination
  by (relation "measure length") (auto simp: rune_len_pos)

lemma concat_runes: "concat (runes s) = s"
  by (induction s rule: runes.induct) auto

end
