(* ===== verification/GoFloat.thy ===== *)
theory GoFloat
  imports GoStrings Complex_Main "HOL-Library.Log_Nat"
begin

text \<open>
  Go's \<open>float64\<close>: IEEE 754 binary64 with its special values, signed zeros and rounding to
  nearest, ties to even. A finite double is its sign and its magnitude as a rational;
  arithmetic computes the exact result and rounds it (\<open>mk\<close>). The theory shows that
  rounding is the identity on doubles and otherwise yields a nearest double, and models
  \<open>strconv.ParseFloat\<close> and the conversions between \<open>float64\<close> and \<open>int\<close>.
\<close>

section \<open>Powers of two and binary logarithm\<close>

definition pow2 :: "int \<Rightarrow> rat" where
  "pow2 e = (if 0 \<le> e then 2 ^ nat e else 1 / 2 ^ nat (- e))"

lemma pow2_powi: "pow2 e = 2 powi e"
  by (simp add: pow2_def power_int_def field_simps)

lemma pow2_pos [simp]: "0 < pow2 e"
  by (simp add: pow2_def)

lemma pow2_nonneg [simp]: "0 \<le> pow2 e"
  by (simp add: less_imp_le)

lemma pow2_nonzero [simp]: "pow2 e \<noteq> 0"
  using pow2_pos [of e] by linarith

lemma pow2_add: "pow2 (a + b) = pow2 a * pow2 b"
  by (simp add: pow2_powi power_int_add)

lemma pow2_nat [simp]: "pow2 (int n) = 2 ^ n"
  by (simp add: pow2_def)

lemma pow2_strict_mono: "a < b \<Longrightarrow> pow2 a < pow2 b"
  by (simp add: pow2_powi power_int_strict_increasing)

lemma pow2_less_iff [simp]: "pow2 a < pow2 b \<longleftrightarrow> a < b"
  using pow2_strict_mono [of a b] pow2_strict_mono [of b a] by (cases a b rule: linorder_cases) auto

lemma pow2_le_iff [simp]: "pow2 a \<le> pow2 b \<longleftrightarrow> a \<le> b"
  by (simp add: not_less [symmetric])

text \<open>The exponent of the leading bit of a positive rational.\<close>

definition ilog2 :: "rat \<Rightarrow> int" where
  "ilog2 x =
     (let (p, q) = quotient_of x; l = bitlen p - bitlen q
      in if pow2 l \<le> x then l else l - 1)"

lemma bitlen_of_int:
  assumes "0 < p"
  shows "pow2 (bitlen p - 1) \<le> of_int p" and "of_int p < pow2 (bitlen p)"
proof -
  have b: "0 < bitlen p"
    using assms compute_bitlen [of p] bitlen_nonneg [of "p div 2"] by simp
  have "2 ^ nat (bitlen p - 1) \<le> p" "p < 2 ^ nat (bitlen p)"
    using bitlen_bounds [OF assms] by auto
  then have "(of_int (2 ^ nat (bitlen p - 1)) :: rat) \<le> of_int p"
    and "(of_int p :: rat) < of_int (2 ^ nat (bitlen p))"
    by (simp_all only: of_int_le_iff of_int_less_iff)
  with b show "pow2 (bitlen p - 1) \<le> of_int p" and "of_int p < pow2 (bitlen p)"
    by (simp_all add: pow2_def)
qed

lemma ilog2_bounds:
  assumes "0 < x"
  shows "pow2 (ilog2 x) \<le> x" and "x < pow2 (ilog2 x + 1)"
proof -
  obtain p q where pq: "quotient_of x = (p, q)" by force
  then have q: "0 < q" by (rule quotient_of_denom_pos)
  have x: "x = of_int p / of_int q" by (rule quotient_of_div [OF pq])
  have p: "0 < p"
  proof (rule ccontr)
    assume "\<not> 0 < p"
    then have "(of_int p :: rat) \<le> 0" by simp
    with q x have "x \<le> 0" by (simp add: divide_nonpos_pos)
    with assms show False by simp
  qed
  let ?l = "bitlen p - bitlen q"
  have up: "x < pow2 (?l + 1)"
  proof -
    have "x < pow2 (bitlen p) / pow2 (bitlen q - 1)"
      unfolding x using bitlen_of_int [OF p] bitlen_of_int [OF q]
      p q by (intro frac_less) simp_all
    also have "\<dots> = pow2 (?l + 1)"
      by (simp add: pow2_powi power_int_diff power_int_add)
    finally show ?thesis .
  qed
  have lo: "pow2 (?l - 1) \<le> x"
  proof -
    have "pow2 (?l - 1) = pow2 (bitlen p - 1) / pow2 (bitlen q)"
      by (simp add: pow2_powi power_int_diff)
    also have "\<dots> \<le> x"
      unfolding x using bitlen_of_int [OF p] bitlen_of_int [OF q] p q
      by (intro frac_le) auto
    finally show ?thesis .
  qed
  show "pow2 (ilog2 x) \<le> x" and "x < pow2 (ilog2 x + 1)"
    using up lo by (auto simp: ilog2_def pq Let_def)
qed

section \<open>Rounding\<close>

text \<open>Nearest integer, ties to even.\<close>

definition round_even :: "rat \<Rightarrow> int" where
  "round_even x =
     (let f = \<lfloor>x\<rfloor>; d = x - of_int f
      in if d < 1 / 2 then f else if 1 / 2 < d then f + 1 else if even f then f else f + 1)"

lemma round_even_nearest: "\<bar>of_int (round_even x) - x\<bar> \<le> \<bar>of_int k - x\<bar>"
proof -
  let ?f = "\<lfloor>x\<rfloor>"
  have f: "of_int ?f \<le> x" "x < of_int ?f + 1" by linarith+
  have "k \<le> ?f \<or> ?f + 1 \<le> k" by linarith
  then have "(of_int k :: rat) \<le> of_int ?f \<or> of_int (?f + 1) \<le> (of_int k :: rat)"
    by (simp only: of_int_le_iff)
  with f show ?thesis by (auto simp: round_even_def Let_def)
qed

lemma round_even_of_int [simp]: "round_even (of_int k) = k"
  by (simp add: round_even_def)

text \<open>The spacing of doubles around \<open>x\<close> is \<open>pow2 (quantum x)\<close>: 53 significant bits, but never
  below the subnormal spacing.\<close>

definition quantum :: "rat \<Rightarrow> int" where
  "quantum x = max (ilog2 x - 52) (-1074)"

definition rnd_mag :: "rat \<Rightarrow> rat" where
  "rnd_mag x =
     (if x \<le> 0 then 0 else of_int (round_even (x / pow2 (quantum x))) * pow2 (quantum x))"

definition is_double :: "rat \<Rightarrow> bool" where
  "is_double y \<longleftrightarrow>
     (\<exists>m e. y = of_int m * pow2 e \<and> 0 \<le> m \<and> m < 2 ^ 53 \<and> -1074 \<le> e)"


lemma round_even_mono_bounds:
  assumes "of_int a \<le> x" and "x \<le> of_int b"
  shows "a \<le> round_even x" and "round_even x \<le> b"
proof -
  have "round_even x = \<lfloor>x\<rfloor> \<or> round_even x = \<lfloor>x\<rfloor> + 1 \<and> of_int \<lfloor>x\<rfloor> < x"
    by (auto simp: round_even_def Let_def; linarith)
  moreover have "a \<le> \<lfloor>x\<rfloor>" using assms(1) by (simp add: le_floor_iff)
  moreover have "\<lfloor>x\<rfloor> \<le> b" using assms(2) by linarith
  moreover have "of_int \<lfloor>x\<rfloor> < x \<Longrightarrow> \<lfloor>x\<rfloor> + 1 \<le> b" using assms(2) by linarith
  ultimately show "a \<le> round_even x" and "round_even x \<le> b" by auto
qed

text \<open>The grid of multiples of \<open>pow2 e\<close>.\<close>

definition on_grid :: "int \<Rightarrow> rat \<Rightarrow> bool" where
  "on_grid e y \<longleftrightarrow> (\<exists>k. y = of_int k * pow2 e)"

lemma on_gridI: "e \<le> f \<Longrightarrow> on_grid e (of_int m * pow2 f)"
proof -
  assume "e \<le> f"
  then have "pow2 f = 2 ^ nat (f - e) * pow2 e"
    using pow2_add [of "f - e" e] by (simp add: pow2_def)
  then have "of_int m * pow2 f = of_int (m * 2 ^ nat (f - e)) * pow2 e" by simp
  then show ?thesis unfolding on_grid_def by blast
qed

lemma rnd_nearest_grid:
  assumes "0 < x" and "on_grid (quantum x) y"
  shows "\<bar>rnd_mag x - x\<bar> \<le> \<bar>y - x\<bar>"
proof -
  let ?u = "pow2 (quantum x)"
  obtain k where k: "y = of_int k * ?u" using assms(2) unfolding on_grid_def by blast
  have "\<bar>of_int (round_even (x / ?u)) - x / ?u\<bar> * ?u \<le> \<bar>of_int k - x / ?u\<bar> * ?u"
    by (rule mult_right_mono [OF round_even_nearest]) simp
  moreover have "\<bar>of_int j - x / ?u\<bar> * ?u = \<bar>of_int j * ?u - x\<bar>" for j
  proof -
    have "\<bar>of_int j - x / ?u\<bar> * ?u = \<bar>(of_int j - x / ?u) * ?u\<bar>"
      by (simp add: abs_mult)
    also have "(of_int j - x / ?u) * ?u = of_int j * ?u - x"
      by (simp add: left_diff_distrib)
    finally show ?thesis .
  qed
  ultimately show ?thesis using assms(1) k by (simp add: rnd_mag_def)
qed

text \<open>A double of the same or a larger binade lies on the grid; a smaller one is further from
  \<open>x\<close> than the power of two at the bottom of \<open>x\<close>'s binade.\<close>

lemma double_on_grid:
  assumes "0 < x" and "is_double y" and "pow2 (ilog2 x) \<le> y \<or> quantum x = -1074"
  shows "on_grid (quantum x) y"
proof -
  obtain m e where y: "y = of_int m * pow2 e" and m: "0 \<le> m" "m < 2 ^ 53" and e: "-1074 \<le> e"
    using assms(2) unfolding is_double_def by blast
  have "quantum x \<le> e"
  proof (cases "quantum x = -1074")
    case True
    with e show ?thesis by simp
  next
    case False
    have "of_int m < (of_int (2 ^ 53) :: rat)" using m(2) by (simp only: of_int_less_iff)
    then have "of_int m < pow2 53" by (simp add: pow2_def)
    then have "y < pow2 53 * pow2 e" unfolding y by (rule mult_strict_right_mono) simp
    with False assms(3) have "pow2 (ilog2 x) < pow2 (53 + e)" by (simp add: pow2_add)
    then have "ilog2 x < 53 + e" by simp
    with False show ?thesis by (simp add: quantum_def max_def split: if_splits)
  qed
  then show ?thesis unfolding y by (rule on_gridI)
qed

theorem rnd_mag_nearest:
  assumes "0 < x" and "is_double y"
  shows "\<bar>rnd_mag x - x\<bar> \<le> \<bar>y - x\<bar>"
proof (cases "pow2 (ilog2 x) \<le> y \<or> quantum x = -1074")
  case True
  then show ?thesis using assms by (intro rnd_nearest_grid double_on_grid)
next
  case False
  then have "quantum x \<le> ilog2 x" by (simp add: quantum_def max_def split: if_splits)
  then have "on_grid (quantum x) (of_int 1 * pow2 (ilog2 x))" by (rule on_gridI)
  then have "\<bar>rnd_mag x - x\<bar> \<le> \<bar>pow2 (ilog2 x) - x\<bar>"
    using rnd_nearest_grid [OF assms(1)] by simp
  also have "\<dots> \<le> \<bar>y - x\<bar>" using False ilog2_bounds [OF assms(1)] by linarith
  finally show ?thesis .
qed

lemma rnd_mag_id: "is_double y \<Longrightarrow> rnd_mag y = y"
proof (cases "0 < y")
  case True
  assume "is_double y"
  from rnd_mag_nearest [OF True this] show ?thesis by simp
next
  case False
  assume "is_double y"
  then obtain m e where "y = of_int m * pow2 e" "0 \<le> m" unfolding is_double_def by blast
  then have "0 \<le> y" by simp
  with False show ?thesis by (simp add: rnd_mag_def)
qed

lemma rnd_mag_nonneg: "0 \<le> rnd_mag x"
proof (cases "x \<le> 0")
  case True
  then show ?thesis by (simp add: rnd_mag_def)
next
  case False
  then have "0 \<le> x / pow2 (quantum x)" by (simp add: divide_nonneg_pos)
  then have "0 \<le> round_even (x / pow2 (quantum x))"
    using round_even_mono_bounds(1) [of 0 "x / pow2 (quantum x)" "\<lceil>x / pow2 (quantum x)\<rceil>"] by simp
  with False show ?thesis by (simp add: rnd_mag_def)
qed

lemma is_double_rnd_mag: "is_double (rnd_mag x)"
proof (cases "x \<le> 0")
  case True
  then have "rnd_mag x = of_int 0 * pow2 0" by (simp add: rnd_mag_def)
  then show ?thesis unfolding is_double_def by (intro exI [of _ 0]) auto
next
  case False
  let ?q = "quantum x" and ?t = "x / pow2 (quantum x)"
  let ?m = "round_even ?t"
  have e: "-1074 \<le> ?q" and l: "ilog2 x + 1 \<le> 53 + ?q" by (simp_all add: quantum_def)
  have "x < pow2 (ilog2 x + 1)" using ilog2_bounds False by simp
  also have "\<dots> \<le> pow2 (53 + ?q)" using l by simp
  finally have "?t \<le> of_int (2 ^ 53)"
    by (simp add: pow2_add pos_divide_le_eq pow2_def [of 53])
  moreover have "of_int 0 \<le> ?t" using False by (simp add: divide_nonneg_pos)
  ultimately have m: "0 \<le> ?m" "?m \<le> 2 ^ 53" by (blast intro: round_even_mono_bounds)+
  have r: "rnd_mag x = of_int ?m * pow2 ?q" using False by (simp add: rnd_mag_def)
  show ?thesis
  proof (cases "?m = 2 ^ 53")
    case True
    then have "rnd_mag x = of_int (2 ^ 52) * pow2 (?q + 1)"
      using r by (simp add: pow2_add pow2_def [of 1])
    with e show ?thesis unfolding is_double_def
      by (intro exI [of _ "2 ^ 52"] exI [of _ "?q + 1"]) auto
  next
    case False
    with m e r show ?thesis unfolding is_double_def
      by (intro exI [of _ ?m] exI [of _ ?q]) auto
  qed
qed


subsection \<open>Evaluating the rounding on integers\<close>

definition div_even :: "int \<Rightarrow> int \<Rightarrow> int" where
  "div_even n d =
     (let f = n div d; r = n mod d
      in if 2 * r < d then f else if d < 2 * r then f + 1 else if even f then f else f + 1)"

lemma round_even_div:
  assumes "0 < d"
  shows "round_even (of_int n / of_int d) = div_even n d"
proof -
  have f: "\<lfloor>(of_int n :: rat) / of_int d\<rfloor> = n div d" by (rule floor_divide_of_int_eq)
  have "(of_int n :: rat) = of_int (n div d * d + n mod d)" by simp
  also have "\<dots> = of_int (n div d) * of_int d + of_int (n mod d)"
    by (simp only: of_int_add of_int_mult)
  finally have "(of_int n :: rat) / of_int d = (of_int (n div d) * of_int d + of_int (n mod d)) / of_int d"
    by simp
  then have r: "(of_int n :: rat) / of_int d - of_int (n div d) = of_int (n mod d) / of_int d"
    using assms by (simp add: add_divide_distrib)
  have "(of_int (n mod d) :: rat) / of_int d < 1 / 2 \<longleftrightarrow> (of_int (2 * (n mod d)) :: rat) < of_int d"
    using assms by (simp add: field_simps)
  moreover have "1 / 2 < (of_int (n mod d) :: rat) / of_int d \<longleftrightarrow> (of_int d :: rat) < of_int (2 * (n mod d))"
    using assms by (simp add: field_simps)
  ultimately show ?thesis
    unfolding round_even_def div_even_def Let_def f r by (simp only: of_int_less_iff)
qed

lemma pow2_code [code]:
  "pow2 e = (if 0 \<le> e then of_int (2 ^ nat e) else Fract 1 (2 ^ nat (- e)))"
  by (simp add: pow2_def Fract_of_int_quotient)

lemma rnd_mag_code [code]:
  "rnd_mag x =
     (if x \<le> 0 then 0
      else let (p, q) = quotient_of x; e = quantum x
           in of_int (div_even (p * 2 ^ nat (- e)) (q * 2 ^ nat e)) * pow2 e)"
proof (cases "x \<le> 0")
  case True
  then show ?thesis by (simp add: rnd_mag_def)
next
  case False
  obtain p q where pq: "quotient_of x = (p, q)" by force
  then have q: "0 < q" and x: "x = of_int p / of_int q"
    by (auto dest: quotient_of_denom_pos quotient_of_div)
  let ?e = "quantum x"
  have "x / pow2 ?e = of_int (p * 2 ^ nat (- ?e)) / of_int (q * 2 ^ nat ?e)"
    by (subst x) (simp add: pow2_def)
  moreover have "0 < q * 2 ^ nat ?e" using q by simp
  ultimately show ?thesis
    using False by (simp add: rnd_mag_def pq Let_def round_even_div del: of_int_mult)
qed

section \<open>Doubles and their arithmetic\<close>

datatype f64 = NaN | Inf bool | Fin bool rat

text \<open>The double nearest to a magnitude with a sign: infinity from \<open>2 ^ 1024\<close> on.\<close>

definition mk :: "bool \<Rightarrow> rat \<Rightarrow> f64" where
  "mk neg x = (let y = rnd_mag x in if 2 ^ 1024 \<le> y then Inf neg else Fin neg y)"

lemma mk_code [code]:
  "mk neg x = (let y = rnd_mag x in if 1024 < bitlen \<lfloor>y\<rfloor> then Inf neg else Fin neg y)"
proof -
  have "1024 < bitlen i \<longleftrightarrow> 2 ^ 1024 \<le> i" if "0 \<le> i" for i
  proof (cases "i = 0")
    case True
    then show ?thesis by simp
  next
    case False
    with that have "0 < i" by simp
    note b = bitlen_of_int [OF this]
    have "(pow2 1024 \<le> of_int i) = (1024 < bitlen i)"
    proof
      assume "pow2 1024 \<le> of_int i"
      then have "pow2 1024 < pow2 (bitlen i)" using b(2) by linarith
      then show "1024 < bitlen i" by simp
    next
      assume "1024 < bitlen i"
      then have "pow2 1024 \<le> pow2 (bitlen i - 1)" by simp
      then show "pow2 1024 \<le> of_int i" using b(1) by linarith
    qed
    moreover have "(pow2 1024 \<le> of_int i) = (2 ^ 1024 \<le> i)"
    proof -
      have "pow2 1024 = of_int (2 ^ 1024)" by (simp add: pow2_def)
      then show ?thesis by (simp only: of_int_le_iff)
    qed
    ultimately show ?thesis by simp
  qed
  moreover have "2 ^ 1024 \<le> rnd_mag x \<longleftrightarrow> 2 ^ 1024 \<le> \<lfloor>rnd_mag x\<rfloor>"
    using le_floor_iff [of "2 ^ 1024" "rnd_mag x"] by simp
  ultimately show ?thesis
    using rnd_mag_nonneg [of x] by (simp add: mk_def Let_def)
qed

fun is_neg :: "f64 \<Rightarrow> bool" where
  "is_neg NaN = False"
| "is_neg (Inf n) = n"
| "is_neg (Fin n m) = n"

definition signed :: "bool \<Rightarrow> rat \<Rightarrow> rat" where
  "signed n m = (if n then - m else m)"

text \<open>Well-formed values: the magnitude of a finite double is a double below \<open>2 ^ 1024\<close>.\<close>

fun wf_f64 :: "f64 \<Rightarrow> bool" where
  "wf_f64 (Fin n m) = (rnd_mag m = m \<and> m < 2 ^ 1024)"
| "wf_f64 _ = True"

fun f64_add :: "f64 \<Rightarrow> f64 \<Rightarrow> f64" where
  "f64_add NaN y = NaN"
| "f64_add x NaN = NaN"
| "f64_add (Inf a) (Inf b) = (if a = b then Inf a else NaN)"
| "f64_add (Inf a) (Fin _ _) = Inf a"
| "f64_add (Fin _ _) (Inf b) = Inf b"
| "f64_add (Fin a x) (Fin b y) =
     (let s = signed a x + signed b y
      in if s = 0 then Fin (a \<and> b) 0 else mk (s < 0) \<bar>s\<bar>)"

fun f64_mul :: "f64 \<Rightarrow> f64 \<Rightarrow> f64" where
  "f64_mul NaN y = NaN"
| "f64_mul x NaN = NaN"
| "f64_mul (Inf a) (Inf b) = Inf (a \<noteq> b)"
| "f64_mul (Inf a) (Fin b y) = (if y = 0 then NaN else Inf (a \<noteq> b))"
| "f64_mul (Fin a x) (Inf b) = (if x = 0 then NaN else Inf (a \<noteq> b))"
| "f64_mul (Fin a x) (Fin b y) = mk (a \<noteq> b) (x * y)"

fun f64_div :: "f64 \<Rightarrow> f64 \<Rightarrow> f64" where
  "f64_div NaN y = NaN"
| "f64_div x NaN = NaN"
| "f64_div (Inf a) (Inf b) = NaN"
| "f64_div (Inf a) (Fin b y) = Inf (a \<noteq> b)"
| "f64_div (Fin a x) (Inf b) = Fin (a \<noteq> b) 0"
| "f64_div (Fin a x) (Fin b y) =
     (if y = 0 then (if x = 0 then NaN else Inf (a \<noteq> b)) else mk (a \<noteq> b) (x / y))"

instantiation f64 :: "{zero, one, plus, times, divide}"
begin

definition zero_f64 :: f64 where "0 = Fin False 0"
definition one_f64 :: f64 where "1 = Fin False 1"
definition plus_f64 :: "f64 \<Rightarrow> f64 \<Rightarrow> f64" where "x + y = f64_add x y"
definition times_f64 :: "f64 \<Rightarrow> f64 \<Rightarrow> f64" where "x * y = f64_mul x y"
definition divide_f64 :: "f64 \<Rightarrow> f64 \<Rightarrow> f64" where "x div y = f64_div x y"

instance ..

end

lemmas f64_arith_defs = zero_f64_def one_f64_def plus_f64_def times_f64_def divide_f64_def

text \<open>\<open>x == 0\<close> and \<open>x > 0\<close> of Go: both are false for NaN, and -0 equals 0.\<close>

fun is_zero :: "f64 \<Rightarrow> bool" where
  "is_zero (Fin _ m) = (m = 0)"
| "is_zero _ = False"

fun is_pos :: "f64 \<Rightarrow> bool" where
  "is_pos (Fin n m) = (\<not> n \<and> 0 < m)"
| "is_pos (Inf n) = (\<not> n)"
| "is_pos NaN = False"

lemma wf_mk: "wf_f64 (mk n x)"
  by (simp add: mk_def Let_def rnd_mag_id is_double_rnd_mag not_le)

lemma wf_f64_div: "wf_f64 (x div y)"
  by (cases x; cases y) (simp_all add: divide_f64_def wf_mk rnd_mag_def)

lemma wf_f64_mul: "wf_f64 (x * y)"
  by (cases x; cases y) (simp_all add: times_f64_def wf_mk)

lemma wf_f64_add: "wf_f64 (x + y)"
  by (cases x; cases y) (simp_all add: plus_f64_def wf_mk Let_def rnd_mag_def)

lemma wf_zero [simp]: "wf_f64 0"
  by (simp add: zero_f64_def rnd_mag_def)

section \<open>Conversions\<close>

text \<open>\<open>float64(i)\<close> rounds; \<open>int(v)\<close> truncates towards zero, and is implementation-defined
  outside the range of \<open>int\<close>: the argument \<open>oob\<close> stands for the platform's choice.\<close>

definition f64_of_int :: "int \<Rightarrow> f64" where
  "f64_of_int i = mk (i < 0) (of_int \<bar>i\<bar>)"

fun int_of_f64 :: "(f64 \<Rightarrow> int) \<Rightarrow> f64 \<Rightarrow> int" where
  "int_of_f64 oob (Fin n m) =
     (let t = (if n then - \<lfloor>m\<rfloor> else \<lfloor>m\<rfloor>) in if in_int64 t then t else oob (Fin n m))"
| "int_of_f64 oob v = oob v"

lemma is_double_of_int: "0 \<le> i \<Longrightarrow> i < 2 ^ 53 \<Longrightarrow> is_double (of_int i)"
  unfolding is_double_def by (intro exI [of _ i] exI [of _ 0]) (simp add: pow2_def)

lemma f64_of_int_exact:
  assumes "\<bar>i\<bar> < 2 ^ 53"
  shows "f64_of_int i = Fin (i < 0) (of_int \<bar>i\<bar>)"
proof -
  have "rnd_mag (of_int \<bar>i\<bar>) = of_int \<bar>i\<bar>"
    using assms by (intro rnd_mag_id is_double_of_int) auto
  moreover have "(of_int \<bar>i\<bar> :: rat) < of_int (2 ^ 53)"
    using assms by (simp only: of_int_less_iff)
  then have "(of_int \<bar>i\<bar> :: rat) < 2 ^ 1024" by simp
  ultimately show ?thesis by (simp add: f64_of_int_def mk_def not_le)
qed


section \<open>strconv.ParseFloat(s, 64)\<close>

text \<open>The mantissa scan: digits (hexadecimal ones too when \<open>hex\<close>), at most one dot, and
  underscores, which are skipped here and checked afterwards. The result is the integer read,
  the number of digits after the dot, whether a digit was seen, and the rest.\<close>

definition lower_bit :: "char \<Rightarrow> int" where
  "lower_bit c = (if 65 \<le> byte c \<and> byte c \<le> 90 then byte c + 32 else byte c)"

definition is_hex_letter :: "char \<Rightarrow> bool" where
  "is_hex_letter c \<longleftrightarrow> 97 \<le> lower_bit c \<and> lower_bit c \<le> 102"

fun scan_mant :: "bool \<Rightarrow> bool \<Rightarrow> int \<Rightarrow> int \<Rightarrow> bool \<Rightarrow> string \<Rightarrow> int \<times> int \<times> bool \<times> string" where
  "scan_mant hex dot m k sd [] = (m, k, sd, [])"
| "scan_mant hex dot m k sd (c # cs) =
     (let base = (if hex then 16 else 10); k' = (if dot then k + 1 else k)
      in if c = CHR ''_'' then scan_mant hex dot m k sd cs
         else if c = CHR ''.'' then
           (if dot then (m, k, sd, c # cs) else scan_mant hex True m k sd cs)
         else if is_digit c then scan_mant hex dot (base * m + digit_val c) k' True cs
         else if hex \<and> is_hex_letter c then
           scan_mant hex dot (base * m + (lower_bit c - 87)) k' True cs
         else (m, k, sd, c # cs))"

fun scan_exp :: "int \<Rightarrow> string \<Rightarrow> int \<times> string" where
  "scan_exp e [] = (e, [])"
| "scan_exp e (c # cs) =
     (if c = CHR ''_'' then scan_exp e cs
      else if is_digit c then scan_exp (if e < 10000 then 10 * e + digit_val c else e) cs
      else (e, c # cs))"

text \<open>\<open>underscoreOK\<close>: underscores only between digits, or between a base prefix and a digit.
  \<open>saw\<close> is the class of the previous character.\<close>

datatype saw = SawStart | SawDigit | SawUnderscore | SawOther

fun underscores_ok :: "bool \<Rightarrow> saw \<Rightarrow> string \<Rightarrow> bool" where
  "underscores_ok hex saw [] = (saw \<noteq> SawUnderscore)"
| "underscores_ok hex saw (c # cs) =
     (if is_digit c \<or> hex \<and> is_hex_letter c then underscores_ok hex SawDigit cs
      else if c = CHR ''_'' then saw = SawDigit \<and> underscores_ok hex SawUnderscore cs
      else saw \<noteq> SawUnderscore \<and> underscores_ok hex SawOther cs)"

definition is_hex_prefix :: "string \<Rightarrow> bool" where
  "is_hex_prefix s = (case s of a # b # _ \<Rightarrow> a = CHR ''0'' \<and> lower_bit b = 120 | _ \<Rightarrow> False)"

text \<open>The exponent part: absent, or the marker, an optional sign and at least one digit. A
  hexadecimal mantissa must have one.\<close>

definition scan_exp_part :: "bool \<Rightarrow> string \<Rightarrow> (int \<times> string) option" where
  "scan_exp_part hex s =
     (case s of
        c # r \<Rightarrow>
          (if lower_bit c = (if hex then 112 else 101) then
             (let (neg, ds) = split_sign r
              in case ds of
                   d # _ \<Rightarrow> if is_digit d then
                       (let (e, rest) = scan_exp 0 ds in Some (if neg then - e else e, rest))
                     else None
                 | [] \<Rightarrow> None)
           else if hex then None else Some (0, s))
      | [] \<Rightarrow> if hex then None else Some (0, []))"

definition parse_number :: "string \<Rightarrow> rat option" where
  "parse_number s =
     (let hex = is_hex_prefix s \<and> 2 < length s;
          (m, k, sd, r) = scan_mant hex False 0 0 False (if hex then drop 2 s else s)
      in if \<not> sd then None
         else case scan_exp_part hex r of
           None \<Rightarrow> None
         | Some (e, rest) \<Rightarrow>
             if rest \<noteq> [] then None
             else if CHR ''_'' \<in> set s
                  \<and> \<not> (if is_hex_prefix s then underscores_ok True SawDigit (drop 2 s)
                      else underscores_ok False SawStart s) then None
             else Some (of_int m * (if hex then pow2 (e - 4 * k)
                                    else if 0 \<le> e - k then 10 ^ nat (e - k) else 1 / 10 ^ nat (k - e))))"

text \<open>The special names are matched without regard to ASCII case; a sign may precede the
  infinities only. Overflow to infinity is an error, which is all the callers look at.\<close>

definition ParseFloat :: "string \<Rightarrow> f64 option" where
  "ParseFloat s =
     (let (neg, r) = split_sign s; l = map ascii_lower r
      in if l = ''inf'' \<or> l = ''infinity'' then Some (Inf neg)
         else if map ascii_lower s = ''nan'' then Some NaN
         else case parse_number r of
           None \<Rightarrow> None
         | Some x \<Rightarrow> (case mk neg x of Inf _ \<Rightarrow> None | v \<Rightarrow> Some v))"

lemma wf_ParseFloat: "ParseFloat s = Some v \<Longrightarrow> wf_f64 v"
  by (auto simp: ParseFloat_def Let_def split: prod.splits option.splits if_splits f64.splits)
    (metis wf_mk)+

end
