(* ===== verification/GoJson.thy ===== *)
theory GoJson
  imports GoFloat
begin

text \<open>
  Go's \<open>encoding/json\<close> as far as the program uses it: the syntax check and reader
  (\<open>json_read\<close>), and \<open>Unmarshal\<close> into the program's struct types, built from one decoder per
  Go type (\<open>dec_int\<close>, \<open>dec_struct\<close>, ...). A decoder takes the value to fill in, as Go's does:
  JSON \<open>null\<close> leaves scalars and structs as they are, fields the object omits keep their zero
  value, unknown fields are skipped, and a member of the wrong JSON type makes the whole
  \<open>Unmarshal\<close> return an error (\<open>None\<close>).

  Numbers and strings keep their source text: custom \<open>UnmarshalJSON\<close> methods receive it. A
  key that occurs twice in one object is decoded twice, later members over earlier ones, as
  in Go; a repeated array is decoded into fresh elements.
\<close>

section \<open>Documents\<close>

datatype json =
    JNull
  | JBool bool
  | JNum string \<comment> \<open>the literal\<close>
  | JStr string \<comment> \<open>the text between the quotes, escapes included\<close>
  | JArr "json list"
  | JObj "(string \<times> json) list"

section \<open>Reading text\<close>

definition is_ws :: "char \<Rightarrow> bool" where
  "is_ws c \<longleftrightarrow> c = CHR 0x20 \<or> c = CHR 0x09 \<or> c = CHR 0x0A \<or> c = CHR 0x0D"

definition skip_ws :: "string \<Rightarrow> string" where
  "skip_ws s = dropWhile is_ws s"

definition is_hex :: "char \<Rightarrow> bool" where
  "is_hex c \<longleftrightarrow> is_digit c \<or> is_hex_letter c"

text \<open>The number grammar: sign, integer part without leading zeros, fraction, exponent.\<close>

definition json_exp_ok :: "string \<Rightarrow> bool" where
  "json_exp_ok s =
     (case s of [] \<Rightarrow> True
      | c # r \<Rightarrow> (c = CHR ''e'' \<or> c = CHR ''E'')
          \<and> (let ds = snd (split_sign r) in ds \<noteq> [] \<and> list_all is_digit ds))"

definition json_frac_ok :: "string \<Rightarrow> bool" where
  "json_frac_ok s =
     (case s of
        c # r \<Rightarrow> (if c = CHR ''.'' then
                    takeWhile is_digit r \<noteq> [] \<and> json_exp_ok (dropWhile is_digit r)
                  else json_exp_ok s)
      | [] \<Rightarrow> True)"

definition json_num_ok :: "string \<Rightarrow> bool" where
  "json_num_ok s =
     (let u = (case s of c # r \<Rightarrow> if c = CHR ''-'' then r else s | [] \<Rightarrow> []);
          ds = takeWhile is_digit u
      in ds \<noteq> [] \<and> (hd ds = CHR ''0'' \<longrightarrow> length ds = 1) \<and> json_frac_ok (dropWhile is_digit u))"

definition is_num_char :: "char \<Rightarrow> bool" where
  "is_num_char c \<longleftrightarrow> is_digit c \<or> c \<in> set ''+-.eE''"

text \<open>The rest of a string literal after its opening quote: the text up to the closing one.\<close>

definition is_escape :: "char \<Rightarrow> bool" where
  "is_escape c \<longleftrightarrow> c \<in> {CHR 0x22, CHR 0x5C, CHR ''/'', CHR ''b'', CHR ''f'', CHR ''n'', CHR ''r'', CHR ''t''}"

fun rd_str :: "string \<Rightarrow> (string \<times> string) option" where
  "rd_str [] = None"
| "rd_str (c # cs) =
     (if c = CHR 0x22 then Some ([], cs)
      else if byte c < 32 then None
      else if c = CHR 0x5C then
        (case cs of
           e # r \<Rightarrow>
             (if is_escape e then map_option (\<lambda>(t, u). (c # e # t, u)) (rd_str r)
              else if e = CHR ''u'' then
                (case r of
                   h1 # h2 # h3 # h4 # q \<Rightarrow>
                     (if is_hex h1 \<and> is_hex h2 \<and> is_hex h3 \<and> is_hex h4
                      then map_option (\<lambda>(t, u). (c # e # h1 # h2 # h3 # h4 # t, u)) (rd_str q)
                      else None)
                 | _ \<Rightarrow> None)
              else None)
         | [] \<Rightarrow> None)
      else map_option (\<lambda>(t, u). (c # t, u)) (rd_str cs))"

text \<open>
  Values. The fuel bounds the number of nested and successive calls; \<open>json_read\<close> starts with
  twice the length of the text plus two, and every call consumes a character or is followed by one that
  does. \<open>depth\<close> counts open arrays and objects, of which Go allows 10000.
\<close>

fun rd_value :: "nat \<Rightarrow> nat \<Rightarrow> string \<Rightarrow> (json \<times> string) option"
  and rd_elems :: "nat \<Rightarrow> nat \<Rightarrow> string \<Rightarrow> (json list \<times> string) option"
  and rd_members :: "nat \<Rightarrow> nat \<Rightarrow> string \<Rightarrow> ((string \<times> json) list \<times> string) option" where
  "rd_value 0 depth s = None"
| "rd_value (Suc n) depth s =
     (case skip_ws s of
        [] \<Rightarrow> None
      | c # cs \<Rightarrow>
          (if c = CHR 0x22 then map_option (\<lambda>(t, u). (JStr t, u)) (rd_str cs)
           else if c = CHR ''['' then
             (if 10000 \<le> depth then None
              else case skip_ws cs of
                d # ds \<Rightarrow> if d = CHR '']'' then Some (JArr [], ds)
                          else map_option (\<lambda>(js, u). (JArr js, u)) (rd_elems n (Suc depth) (d # ds))
              | [] \<Rightarrow> None)
           else if c = CHR ''{'' then
             (if 10000 \<le> depth then None
              else case skip_ws cs of
                d # ds \<Rightarrow> if d = CHR ''}'' then Some (JObj [], ds)
                          else map_option (\<lambda>(ms, u). (JObj ms, u)) (rd_members n (Suc depth) (d # ds))
              | [] \<Rightarrow> None)
           else if take 4 (c # cs) = ''null'' then Some (JNull, drop 3 cs)
           else if take 4 (c # cs) = ''true'' then Some (JBool True, drop 3 cs)
           else if take 5 (c # cs) = ''false'' then Some (JBool False, drop 4 cs)
           else (let lit = takeWhile is_num_char (c # cs)
                 in if json_num_ok lit then Some (JNum lit, dropWhile is_num_char (c # cs)) else None)))"
| "rd_elems 0 depth s = None"
| "rd_elems (Suc n) depth s =
     (case rd_value n depth s of
        None \<Rightarrow> None
      | Some (j, r) \<Rightarrow>
          (case skip_ws r of
             c # cs \<Rightarrow>
               (if c = CHR '']'' then Some ([j], cs)
                else if c = CHR '','' then map_option (\<lambda>(js, u). (j # js, u)) (rd_elems n depth cs)
                else None)
           | [] \<Rightarrow> None))"
| "rd_members 0 depth s = None"
| "rd_members (Suc n) depth s =
     (case skip_ws s of
        q # qs \<Rightarrow>
          (if q \<noteq> CHR 0x22 then None
           else case rd_str qs of
             None \<Rightarrow> None
           | Some (k, r) \<Rightarrow>
               (case skip_ws r of
                  c # cs \<Rightarrow>
                    (if c \<noteq> CHR '':'' then None
                     else case rd_value n depth cs of
                       None \<Rightarrow> None
                     | Some (j, r2) \<Rightarrow>
                         (case skip_ws r2 of
                            d # ds \<Rightarrow>
                              (if d = CHR ''}'' then Some ([(k, j)], ds)
                               else if d = CHR '','' then
                                 map_option (\<lambda>(ms, u). ((k, j) # ms, u)) (rd_members n depth ds)
                               else None)
                          | [] \<Rightarrow> None))
                | [] \<Rightarrow> None))
      | [] \<Rightarrow> None)"

definition json_read :: "string \<Rightarrow> json option" where
  "json_read s =
     (case rd_value (2 * length s + 2) 0 s of
        Some (j, r) \<Rightarrow> if skip_ws r = [] then Some j else None
      | None \<Rightarrow> None)"

section \<open>The value of a string literal\<close>

definition hex_val :: "char \<Rightarrow> int" where
  "hex_val c = (if is_digit c then digit_val c else lower_bit c - 87)"

definition utf8_enc :: "int \<Rightarrow> string" where
  "utf8_enc r =
     (if r < 128 then [char_of r]
      else if r < 2048 then [char_of (192 + r div 64), char_of (128 + r mod 64)]
      else if r < 65536 then
        [char_of (224 + r div 4096), char_of (128 + r div 64 mod 64), char_of (128 + r mod 64)]
      else [char_of (240 + r div 262144), char_of (128 + r div 4096 mod 64),
            char_of (128 + r div 64 mod 64), char_of (128 + r mod 64)])"

definition replacement :: string where
  "replacement = [CHR 0xEF, CHR 0xBF, CHR 0xBD]"

text \<open>The code unit of a \<open>\u\<close> escape at the start of the text.\<close>

definition get_u4 :: "string \<Rightarrow> int option" where
  "get_u4 s =
     (case s of
        b # u # h1 # h2 # h3 # h4 # _ \<Rightarrow>
          (if b = CHR 0x5C \<and> u = CHR ''u'' \<and> is_hex h1 \<and> is_hex h2 \<and> is_hex h3 \<and> is_hex h4
           then Some (4096 * hex_val h1 + 256 * hex_val h2 + 16 * hex_val h3 + hex_val h4) else None)
      | _ \<Rightarrow> None)"

definition escape_val :: "char \<Rightarrow> char" where
  "escape_val e =
     (if e = CHR ''b'' then CHR 0x08 else if e = CHR ''f'' then CHR 0x0C
      else if e = CHR ''n'' then CHR 0x0A else if e = CHR ''r'' then CHR 0x0D
      else if e = CHR ''t'' then CHR 0x09 else e)"

text \<open>One step: the bytes the next item stands for, and how much text it takes.\<close>

definition unquote_step :: "string \<Rightarrow> string \<times> nat" where
  "unquote_step s =
     (case get_u4 s of
        Some r \<Rightarrow>
          (if 55296 \<le> r \<and> r < 57344 then
             (case get_u4 (drop 6 s) of
                Some r1 \<Rightarrow> if r < 56320 \<and> 56320 \<le> r1 \<and> r1 < 57344
                           then (utf8_enc ((r - 55296) * 1024 + (r1 - 56320) + 65536), 12)
                           else (replacement, 6)
              | None \<Rightarrow> (replacement, 6))
           else (utf8_enc r, 6))
      | None \<Rightarrow>
          (if hd s = CHR 0x5C then ([escape_val (hd (tl s))], 2)
           else if byte (hd s) < 128 then ([hd s], 1)
           else if rune_len s = 1 then (replacement, 1)
           else (take (rune_len s) s, rune_len s)))"

lemma unquote_step_pos: "0 < snd (unquote_step s)"
  by (auto simp: unquote_step_def rune_len_pos split: option.splits)

function unquote :: "string \<Rightarrow> string" where
  "unquote [] = []"
| "unquote (c # cs) =
     (let (out, n) = unquote_step (c # cs) in out @ unquote (drop n (c # cs)))"
  by pat_completeness auto
termination
proof (relation "measure length")
  fix c cs x out n
  assume "x = unquote_step (c # cs)" and "(out, n) = x"
  then have "0 < n" using unquote_step_pos [of "c # cs"] by (metis snd_conv)
  then show "(drop n (c # cs), c # cs) \<in> measure length" by simp
qed simp


section \<open>Decoders\<close>

type_synonym 'a decoder = "json \<Rightarrow> 'a \<Rightarrow> 'a option"

fun dec_string :: "string decoder" where
  "dec_string JNull old = Some old"
| "dec_string (JStr t) old = Some (unquote t)"
| "dec_string _ old = None"

fun dec_bool :: "bool decoder" where
  "dec_bool JNull old = Some old"
| "dec_bool (JBool b) old = Some b"
| "dec_bool _ old = None"

text \<open>An \<open>int\<close> takes integer literals in range only; a fraction or an exponent is an error.\<close>

fun dec_int :: "int decoder" where
  "dec_int JNull old = Some old"
| "dec_int (JNum l) old = Atoi l"
| "dec_int _ old = None"

fun dec_float :: "f64 decoder" where
  "dec_float JNull old = Some old"
| "dec_float (JNum l) old = ParseFloat l"
| "dec_float _ old = None"

text \<open>A pointer becomes nil on \<open>null\<close>, else points to the decoded value.\<close>

definition dec_ptr :: "'a decoder \<Rightarrow> 'a \<Rightarrow> 'a option decoder" where
  "dec_ptr d zero j old =
     (if j = JNull then Some None
      else map_option Some (d j (case old of None \<Rightarrow> zero | Some v \<Rightarrow> v)))"

fun traverse :: "('a \<Rightarrow> 'b option) \<Rightarrow> 'a list \<Rightarrow> 'b list option" where
  "traverse f [] = Some []"
| "traverse f (x # xs) =
     (case f x of None \<Rightarrow> None | Some y \<Rightarrow> map_option (\<lambda>ys. y # ys) (traverse f xs))"

fun dec_slice :: "'a decoder \<Rightarrow> 'a \<Rightarrow> 'a list decoder" where
  "dec_slice d zero JNull old = Some []"
| "dec_slice d zero (JArr js) old = traverse (\<lambda>j. d j zero) js"
| "dec_slice d zero _ old = None"

text \<open>Struct members are found by exact name, else by case folding.\<close>

type_synonym 'r fields = "(string \<times> 'r decoder) list"

definition find_field :: "'r fields \<Rightarrow> string \<Rightarrow> 'r decoder option" where
  "find_field fs key =
     (case map_of fs key of
        Some d \<Rightarrow> Some d
      | None \<Rightarrow> map_option snd (find (\<lambda>(n, d). EqualFold key n) fs))"

fun dec_members :: "'r fields \<Rightarrow> (string \<times> json) list \<Rightarrow> 'r \<Rightarrow> 'r option" where
  "dec_members fs [] r = Some r"
| "dec_members fs ((k, j) # ms) r =
     (case find_field fs (unquote k) of
        None \<Rightarrow> dec_members fs ms r
      | Some d \<Rightarrow> (case d j r of None \<Rightarrow> None | Some r' \<Rightarrow> dec_members fs ms r'))"

fun dec_struct :: "'r fields \<Rightarrow> 'r decoder" where
  "dec_struct fs JNull old = Some old"
| "dec_struct fs (JObj ms) old = dec_members fs ms old"
| "dec_struct fs _ old = None"

text \<open>One field: its name, its reader and its updater, its type's decoder.\<close>

definition fld :: "string \<Rightarrow> ('r \<Rightarrow> 'a) \<Rightarrow> (('a \<Rightarrow> 'a) \<Rightarrow> 'r \<Rightarrow> 'r) \<Rightarrow> 'a decoder \<Rightarrow> string \<times> 'r decoder" where
  "fld name get upd d = (name, \<lambda>j r. map_option (\<lambda>v. upd (\<lambda>_. v) r) (d j (get r)))"

definition Unmarshal :: "'a decoder \<Rightarrow> 'a \<Rightarrow> string \<Rightarrow> 'a option" where
  "Unmarshal d zero b = (case json_read b of None \<Rightarrow> None | Some j \<Rightarrow> d j zero)"

lemma traverse_Some: "traverse f xs = Some ys \<longleftrightarrow> map f xs = map Some ys"
proof (induction xs arbitrary: ys)
  case Nil
  then show ?case by auto
next
  case (Cons x xs)
  show ?case by (cases ys) (auto simp: Cons split: option.splits)
qed

lemma traverse_length: "traverse f xs = Some ys \<Longrightarrow> length ys = length xs"
  by (metis length_map traverse_Some)

lemma find_field_in: "find_field fs key = Some d \<Longrightarrow> \<exists>n. (n, d) \<in> set fs"
proof (cases "map_of fs key")
  case None
  assume "find_field fs key = Some d"
  with None obtain x where "find (\<lambda>(n, d). EqualFold key n) fs = Some (x, d)"
    by (auto simp: find_field_def)
  then show ?thesis by (metis (no_types, lifting) find_Some_iff nth_mem)
next
  case (Some e)
  assume "find_field fs key = Some d"
  with Some show ?thesis by (auto simp: find_field_def dest: map_of_SomeD)
qed

text \<open>A property of the struct survives decoding when every field decoder keeps it.\<close>

lemma dec_members_inv:
  assumes "\<And>n d j r r'. (n, d) \<in> set fs \<Longrightarrow> d j r = Some r' \<Longrightarrow> P r \<Longrightarrow> P r'"
    and "dec_members fs ms r = Some r'" and "P r"
  shows "P r'"
  using assms
proof (induction fs ms r rule: dec_members.induct)
  case (2 fs k j ms r)
  show ?case
  proof (cases "find_field fs (unquote k)")
    case None
    with 2 show ?thesis by simp
  next
    case (Some d)
    with "2.prems"(2) obtain r1 where r1: "d j r = Some r1" and rest: "dec_members fs ms r1 = Some r'"
      by (auto split: option.splits)
    obtain n where "(n, d) \<in> set fs" using find_field_in [OF Some] by blast
    then have "P r1" using r1 "2.prems"(3) by (rule "2.prems"(1))
    with "2.IH"(2) [OF Some r1] "2.prems"(1) rest show ?thesis by blast
  qed
qed simp

end
