(* ===== verification/GoTime.thy ===== *)
theory GoTime
  imports GoFloat
begin

text \<open>
  The two readers of Go's \<open>time\<close> package the program uses: \<open>ParseDuration\<close>, with the overflow
  checks of its unsigned 64-bit accumulator and its floating-point fractions, and
  \<open>Parse("2006-01-02", s)\<close> followed by \<open>Unix()\<close>. Durations are nanoseconds (\<^typ>\<open>int\<close>).
\<close>

section \<open>Durations\<close>

text \<open>\<open>leadingInt\<close> and \<open>leadingFraction\<close>.\<close>

fun leading_int :: "int \<Rightarrow> string \<Rightarrow> (int \<times> string) option" where
  "leading_int x [] = Some (x, [])"
| "leading_int x (c # cs) =
     (if \<not> is_digit c then Some (x, c # cs)
      else if 2 ^ 63 div 10 < x then None
      else let y = 10 * x + digit_val c in if 2 ^ 63 < y then None else leading_int y cs)"

fun leading_fraction :: "bool \<Rightarrow> int \<Rightarrow> f64 \<Rightarrow> string \<Rightarrow> int \<times> f64 \<times> string" where
  "leading_fraction ov x scale [] = (x, scale, [])"
| "leading_fraction ov x scale (c # cs) =
     (if \<not> is_digit c then (x, scale, c # cs)
      else if ov then leading_fraction True x scale cs
      else if (2 ^ 63 - 1) div 10 < x then leading_fraction True x scale cs
      else let y = 10 * x + digit_val c
           in if 2 ^ 63 < y then leading_fraction True x scale cs
              else leading_fraction False y (scale * f64_of_int 10) cs)"

definition unit_ns :: "string \<Rightarrow> int option" where
  "unit_ns u =
     (if u = ''ns'' then Some 1
      else if u = ''us'' \<or> u = [CHR 0xC2, CHR 0xB5, CHR ''s''] \<or> u = [CHR 0xCE, CHR 0xBC, CHR ''s'']
        then Some 1000
      else if u = ''ms'' then Some 1000000
      else if u = ''s'' then Some 1000000000
      else if u = ''m'' then Some 60000000000
      else if u = ''h'' then Some 3600000000000
      else None)"

definition is_unit_char :: "char \<Rightarrow> bool" where
  "is_unit_char c \<longleftrightarrow> c \<noteq> CHR ''.'' \<and> \<not> is_digit c"

text \<open>One \<open>number unit\<close> item: its nanoseconds and the rest of the text.\<close>

definition duration_item :: "string \<Rightarrow> (int \<times> string) option" where
  "duration_item s =
     (if s = [] \<or> is_unit_char (hd s) then None
      else case leading_int 0 s of
        None \<Rightarrow> None
      | Some (v, r) \<Rightarrow>
          (let pre = (length r \<noteq> length s);
               (f, scale, r2) = (case r of c # r1 \<Rightarrow> if c = CHR ''.'' then leading_fraction False 0 1 r1
                                                  else (0, 1, r)
                                 | [] \<Rightarrow> (0, 1, r));
               post = (r \<noteq> [] \<and> hd r = CHR ''.'' \<and> length r2 \<noteq> length (tl r));
               u = takeWhile is_unit_char r2
           in if \<not> pre \<and> \<not> post then None
              else case unit_ns u of
                None \<Rightarrow> None
              | Some un \<Rightarrow>
                  if 2 ^ 63 div un < v then None
                  else let w = (if 0 < f then
                                  v * un + int_of_f64 (\<lambda>_. 0) (f64_of_int f * (f64_of_int un div scale))
                                else v * un)
                       in if 2 ^ 63 < w then None else Some (w, dropWhile is_unit_char r2)))"

lemma length_leading_int: "leading_int x s = Some (y, r) \<Longrightarrow> length r \<le> length s"
  by (induction x s rule: leading_int.induct) (auto simp: Let_def split: if_splits)

lemma length_leading_fraction: "leading_fraction ov x sc s = (y, sc', r) \<Longrightarrow> length r \<le> length s"
proof (induction ov x sc s rule: leading_fraction.induct)
  case (2 ov x scale c cs)
  then show ?case by (auto simp: Let_def split: if_splits)
qed simp

lemma unit_ns_Nil [simp]: "unit_ns [] = None"
  by (simp add: unit_ns_def)

lemma length_duration_item:
  assumes "duration_item s = Some (w, r)"
  shows "length r < length s"
proof -
  from assms obtain v r1 where 1: "leading_int 0 s = Some (v, r1)"
    by (auto simp: duration_item_def split: option.splits if_splits)
  define t where "t = (case r1 of c # r2 \<Rightarrow> if c = CHR ''.'' then leading_fraction False 0 1 r2
                                            else (0, 1, r1) | [] \<Rightarrow> (0, 1, r1))"
  obtain f sc r2 where t: "t = (f, sc, r2)" by (cases t) auto
  have "length r2 \<le> length r1"
    using t unfolding t_def
    by (auto split: list.splits if_splits dest!: length_leading_fraction)
  moreover from assms 1 t have "unit_ns (takeWhile is_unit_char r2) \<noteq> None"
    and r: "r = dropWhile is_unit_char r2"
    by (auto simp: duration_item_def Let_def t_def [symmetric] split: option.splits if_splits)
  then have "takeWhile is_unit_char r2 \<noteq> []" by auto
  then have "length (dropWhile is_unit_char r2) < length r2"
    by (cases r2) (auto simp: length_dropWhile_le le_imp_less_Suc split: if_splits)
  ultimately show ?thesis using length_leading_int [OF 1] r by simp
qed

function duration_loop :: "int \<Rightarrow> string \<Rightarrow> int option" where
  "duration_loop d s =
     (if s = [] then Some d
      else case duration_item s of
        None \<Rightarrow> None
      | Some (v, r) \<Rightarrow>
          (let d' = (d + v) mod 2 ^ 64 in if 2 ^ 63 < d' then None else duration_loop d' r))"
  by pat_completeness auto
termination
  by (relation "measure (\<lambda>(d, s). length s)") (auto dest: length_duration_item)

declare duration_loop.simps [simp del]

definition ParseDuration :: "string \<Rightarrow> int option" where
  "ParseDuration s =
     (let (neg, r) = split_sign s
      in if r = ''0'' then Some 0
         else if r = [] then None
         else case duration_loop 0 r of
           None \<Rightarrow> None
         | Some d \<Rightarrow> if neg then Some (- d) else if 2 ^ 63 - 1 < d then None else Some d)"

lemma duration_loop_bounds: "duration_loop d s = Some e \<Longrightarrow> 0 \<le> d \<Longrightarrow> d \<le> 2 ^ 63 \<Longrightarrow> 0 \<le> e \<and> e \<le> 2 ^ 63"
proof (induction d s rule: duration_loop.induct)
  case (1 d s)
  show ?case
  proof (cases "s = []")
    case True
    with "1.prems" duration_loop.simps [of d "[]"] show ?thesis by simp
  next
    case False
    with "1.prems"(1) obtain v r where vr: "duration_item s = Some (v, r)"
      and *: "(d + v) mod 2 ^ 64 \<le> 2 ^ 63" "duration_loop ((d + v) mod 2 ^ 64) r = Some e"
      by (auto simp: duration_loop.simps [of d s] Let_def not_less split: option.splits if_splits)
    show ?thesis using "1.IH" [OF False vr _ refl] * by (simp add: not_less)
  qed
qed

text \<open>A parsed duration fits the 64-bit type.\<close>

lemma ParseDuration_in_int64: "ParseDuration s = Some d \<Longrightarrow> in_int64 d"
  by (auto simp: ParseDuration_def Let_def in_int64_def dest!: duration_loop_bounds
      split: prod.splits option.splits if_splits)

section \<open>Dates\<close>

definition is_leap :: "int \<Rightarrow> bool" where
  "is_leap y \<longleftrightarrow> 4 dvd y \<and> (\<not> 100 dvd y \<or> 400 dvd y)"

definition month_lengths :: "int \<Rightarrow> int list" where
  "month_lengths y = [31, if is_leap y then 29 else 28, 31, 30, 31, 30, 31, 31, 30, 31, 30, 31]"

text \<open>Days from 1 January of year 1 to 1 January of year \<open>y\<close>, and the Unix time of midnight UTC.\<close>

definition days_before_year :: "int \<Rightarrow> int" where
  "days_before_year y = 365 * (y - 1) + (y - 1) div 4 - (y - 1) div 100 + (y - 1) div 400"

definition date_unix :: "int \<Rightarrow> int \<Rightarrow> int \<Rightarrow> int" where
  "date_unix y m d =
     86400 * (days_before_year y + sum_list (take (nat (m - 1)) (month_lengths y)) + (d - 1)
              - days_before_year 1970)"

definition valid_date :: "int \<Rightarrow> int \<Rightarrow> int \<Rightarrow> bool" where
  "valid_date y m d \<longleftrightarrow>
     1 \<le> m \<and> m \<le> 12 \<and> 1 \<le> d \<and> d \<le> month_lengths y ! nat (m - 1)"

text \<open>\<open>time.Parse("2006-01-02", s)\<close>: four, two and two digits with hyphens, a real date.\<close>

definition ParseDate :: "string \<Rightarrow> int option" where
  "ParseDate s =
     (if length s = 10 \<and> s ! 4 = CHR ''-'' \<and> s ! 7 = CHR ''-''
         \<and> list_all is_digit (take 4 s @ take 2 (drop 5 s) @ drop 8 s)
      then (let y = digits_val (take 4 s); m = digits_val (take 2 (drop 5 s)); d = digits_val (drop 8 s)
            in if valid_date y m d then Some (date_unix y m d) else None)
      else None)"

end
