(* ===== verification/Onefs.thy ===== *)
theory Onefs
  imports GoJson GoTime
begin

text \<open>
  \<open>internal/models/onefs.go\<close>: the OneFS response types and their parsers. A Go struct is a
  record whose fields carry a short prefix of the type's name; the anonymous structs a parser
  decodes into are the records and decoders named \<open>raw...\<close>, nested anonymous structs flattened
  into the enclosing record. Each parser is \<open>parse_with\<close> of its decoder and the conversion loop
  of its body. \<open>int(v)\<close> of a float outside the range of \<open>int\<close> is the platform's (\<open>oob\<close>).
\<close>

section \<open>Data\<close>

record Sensor =
  sn_Name :: string
  sn_Value :: f64

record sensorGroup =
  sg_Name :: string
  sg_Values :: "Sensor list"

record ClusterInfo =
  ci_Name :: string
  ci_GUID :: string
  ci_Release :: string

record Node =
  nd_ID :: int
  nd_LNN :: int
  nd_Readonly :: bool
  nd_Smartfail :: bool
  nd_DrivesByState :: "(string, int) gomap"
  nd_PowerSupplies :: int
  nd_PowerSupplyFailures :: int
  nd_Temperatures :: "Sensor list"
  nd_Fans :: "Sensor list"
  nd_Product :: string
  nd_Series :: string
  nd_HWGen :: string

record Quota =
  qt_ID :: string
  qt_Path :: string
  qt_Type :: string
  qt_UsageBytes :: f64
  qt_PhysicalBytes :: f64
  qt_AppLogicalBytes :: f64
  qt_ReductionRatio :: f64
  qt_HardBytes :: f64
  qt_SoftBytes :: f64
  qt_AdvisoryBytes :: f64

record Counts =
  ct_NFSExports :: int
  ct_SMBShares :: int
  ct_Snapshots :: int

record SnapshotSummary =
  ss_UsedBytes :: f64

record SyncPolicy =
  sp_Name :: string
  sp_Enabled :: bool
  sp_LastJobState :: string

record DedupeSummary =
  dd_LogicalSavedBytes :: f64
  dd_DeduplicatedBytes :: f64

record License =
  lc_Name :: string
  lc_Status :: string
  lc_ExpirationUnix :: int

record StoragePool =
  po_Name :: string
  po_Type :: string
  po_TotalBytes :: f64
  po_UsedBytes :: f64
  po_AvailBytes :: f64
  po_SSDTotalBytes :: f64
  po_SSDUsedBytes :: f64
  po_SSDAvailBytes :: f64
  po_HDDTotalBytes :: f64
  po_HDDUsedBytes :: f64
  po_HDDAvailBytes :: f64

record Inventory =
  iv_Cluster :: ClusterInfo
  iv_Nodes :: "Node list"
  iv_Quotas :: "Quota list"
  iv_Counts :: Counts
  iv_Snapshot :: SnapshotSummary
  iv_SyncPolicies :: "SyncPolicy list"
  iv_Events :: "(string, int) gomap"
  iv_Dedupe :: DedupeSummary
  iv_Licenses :: "License list"
  iv_StoragePools :: "StoragePool list"

record DriveStat =
  dr_Node :: int
  dr_Bay :: string
  dr_Type :: string
  dr_OpsPerSec :: f64
  dr_BusyPercent :: f64

record ClientStat =
  cl_Node :: int
  cl_Protocol :: string
  cl_Class :: string
  cl_OpsPerSec :: f64
  cl_InBps :: f64
  cl_OutBps :: f64

record Workload =
  wl_Node :: int
  wl_Zone :: string
  wl_Protocol :: string
  wl_Username :: string
  wl_SystemName :: string
  wl_JobType :: string
  wl_Ops :: f64
  wl_BytesIn :: f64
  wl_BytesOut :: f64
  wl_CPUMicros :: f64

record StatPoint =
  pt_Key :: string
  pt_DevID :: int
  pt_Value :: f64

record ProtoStat =
  pr_Node :: int
  pr_Protocol :: string
  pr_Operation :: string
  pr_OperationRate :: f64
  pr_LatencyAvg :: f64
  pr_StageAvg :: "(string, f64) gomap"

record Statistics =
  st_Current :: "StatPoint list"
  st_Proto :: "ProtoStat list"
  st_Drives :: "DriveStat list"
  st_Clients :: "ClientStat list"
  st_Workloads :: "Workload list"

definition ProtocolStages :: "string list" where
  "ProtocolStages =
     [''auth'', ''export'', ''fha_blocking'', ''fiber_block_quota'', ''kernel'', ''spark_dispatch'',
      ''total_elapsed'']"

definition VirtualHardware :: "Node \<Rightarrow> bool" where
  "VirtualHardware n \<longleftrightarrow>
     EqualFold (nd_Series n) ''virtual_series'' \<or> Contains (ToLower (nd_HWGen n)) ''vmware''"

definition ReportsHardwareSensors :: "Node \<Rightarrow> bool" where
  "ReportsHardwareSensors n \<longleftrightarrow>
     0 < nd_PowerSupplies n \<or> nd_Temperatures n \<noteq> [] \<or> nd_Fans n \<noteq> []"

text \<open>The parsers fail with the error of \<open>json.Unmarshal\<close> only.\<close>

datatype parse_error = JsonError

definition parse_with :: "'r decoder \<Rightarrow> 'r \<Rightarrow> ('r \<Rightarrow> 'a) \<Rightarrow> string \<Rightarrow> parse_error + 'a" where
  "parse_with d zero f b =
     (case Unmarshal d zero b of None \<Rightarrow> Inl JsonError | Some raw \<Rightarrow> Inr (f raw))"

lemma parse_with_Inr [res_iff]:
  "parse_with d zero f b = Inr y \<longleftrightarrow> (\<exists>raw. Unmarshal d zero b = Some raw \<and> y = f raw)"
  by (auto simp: parse_with_def split: option.splits)

definition deref :: "f64 option \<Rightarrow> f64" where
  "deref p = (case p of None \<Rightarrow> 0 | Some v \<Rightarrow> v)"

section \<open>Lenient decoders\<close>

text \<open>The source text of a value. Objects and arrays are not kept as text; what stands for
  them is, like their text, no number.\<close>

fun raw_text :: "json \<Rightarrow> string" where
  "raw_text JNull = ''null''"
| "raw_text (JBool b) = (if b then ''true'' else ''false'')"
| "raw_text (JNum l) = l"
| "raw_text (JStr t) = CHR 0x22 # t @ [CHR 0x22]"
| "raw_text (JArr js) = ''[]''"
| "raw_text (JObj ms) = ''{}''"

definition flexFloat :: "f64 decoder" where
  "flexFloat j old =
     (let s = Trim (CHR 0x22) (raw_text j)
      in if s = [] \<or> s = ''null'' then Some old
         else case ParseFloat s of None \<Rightarrow> Some old | Some v \<Rightarrow> Some v)"

definition dec_sensor :: "Sensor decoder" where
  "dec_sensor = dec_struct
     [fld ''name'' sn_Name sn_Name_update dec_string, fld ''value'' sn_Value sn_Value_update flexFloat]"

definition zero_sensor :: Sensor where
  "zero_sensor = \<lparr>sn_Name = [], sn_Value = 0\<rparr>"

definition dec_sensorGroup :: "sensorGroup decoder" where
  "dec_sensorGroup = dec_struct
     [fld ''name'' sg_Name sg_Name_update dec_string,
      fld ''values'' sg_Values sg_Values_update (dec_slice dec_sensor zero_sensor)]"

definition zero_sensorGroup :: sensorGroup where
  "zero_sensorGroup = \<lparr>sg_Name = [], sg_Values = []\<rparr>"

text \<open>Wrapped in an object, or a bare array, else left as it is.\<close>

definition sensorGroups :: "sensorGroup list decoder" where
  "sensorGroups j old =
     (case dec_struct [fld ''sensors'' id id (dec_slice dec_sensorGroup zero_sensorGroup)] j [] of
        Some gs \<Rightarrow> Some gs
      | None \<Rightarrow>
          (case dec_slice dec_sensorGroup zero_sensorGroup j [] of
             Some gs \<Rightarrow> Some gs
           | None \<Rightarrow> Some old))"

section \<open>Cluster configuration and nodes\<close>

definition ParseClusterConfig :: "string \<Rightarrow> parse_error + ClusterInfo" where
  "ParseClusterConfig = parse_with
     (dec_struct
        [fld ''name'' ci_Name ci_Name_update dec_string,
         fld ''guid'' ci_GUID ci_GUID_update dec_string,
         (''onefs_version'', dec_struct [fld ''release'' ci_Release ci_Release_update dec_string])])
     \<lparr>ci_Name = [], ci_GUID = [], ci_Release = []\<rparr> id"

record rawDrive =
  rd_UIState :: string
  rd_Present :: "bool option"

record rawNode =
  rn_ID :: int
  rn_LNN :: int
  rn_Enabled :: bool
  rn_Smartfailed :: bool
  rn_Drives :: "rawDrive list"
  rn_Count :: int
  rn_Failures :: int
  rn_Product :: string
  rn_Series :: string
  rn_HWGen :: string
  rn_Sensors :: "sensorGroup list"

definition dec_rawDrive :: "rawDrive decoder" where
  "dec_rawDrive = dec_struct
     [fld ''ui_state'' rd_UIState rd_UIState_update dec_string,
      fld ''present'' rd_Present rd_Present_update (dec_ptr dec_bool False)]"

definition zero_rawDrive :: rawDrive where
  "zero_rawDrive = \<lparr>rd_UIState = [], rd_Present = None\<rparr>"

definition node_fields :: "rawNode fields" where
  "node_fields =
     [fld ''id'' rn_ID rn_ID_update dec_int,
      fld ''lnn'' rn_LNN rn_LNN_update dec_int,
      (''state'', dec_struct
         [(''readonly'', dec_struct [fld ''enabled'' rn_Enabled rn_Enabled_update dec_bool]),
          (''smartfail'', dec_struct [fld ''smartfailed'' rn_Smartfailed rn_Smartfailed_update dec_bool])]),
      fld ''drives'' rn_Drives rn_Drives_update (dec_slice dec_rawDrive zero_rawDrive),
      (''status'', dec_struct
         [(''powersupplies'', dec_struct
             [fld ''count'' rn_Count rn_Count_update dec_int,
              fld ''failures'' rn_Failures rn_Failures_update dec_int])]),
      (''hardware'', dec_struct
         [fld ''product'' rn_Product rn_Product_update dec_string,
          fld ''series'' rn_Series rn_Series_update dec_string,
          fld ''hwgen'' rn_HWGen rn_HWGen_update dec_string]),
      fld ''sensors'' rn_Sensors rn_Sensors_update sensorGroups]"

definition dec_rawNode :: "rawNode decoder" where
  "dec_rawNode = dec_struct node_fields"

definition zero_rawNode :: rawNode where
  "zero_rawNode = \<lparr>rn_ID = 0, rn_LNN = 0, rn_Enabled = False, rn_Smartfailed = False,
     rn_Drives = [], rn_Count = 0, rn_Failures = 0, rn_Product = [], rn_Series = [], rn_HWGen = [],
     rn_Sensors = []\<rparr>"

text \<open>The loop over a node's drives: an absent bay is skipped, a drive without a state counts
  as \<open>UNKNOWN\<close>.\<close>

definition drive_state :: "rawDrive \<Rightarrow> string" where
  "drive_state d = (if rd_UIState d = [] then ''UNKNOWN'' else rd_UIState d)"

definition drive_present :: "rawDrive \<Rightarrow> bool" where
  "drive_present d \<longleftrightarrow> rd_Present d \<noteq> Some False"

fun count_drives :: "(string, int) gomap \<Rightarrow> rawDrive list \<Rightarrow> (string, int) gomap" where
  "count_drives m [] = m"
| "count_drives m (d # ds) =
     (if drive_present d then count_drives (map_incr (drive_state d) m) ds else count_drives m ds)"

text \<open>The loop over a node's sensor groups: temperatures, fans, anything else dropped.\<close>

fun split_sensors :: "Sensor list \<Rightarrow> Sensor list \<Rightarrow> sensorGroup list \<Rightarrow> Sensor list \<times> Sensor list" where
  "split_sensors temps fans [] = (temps, fans)"
| "split_sensors temps fans (grp # grps) =
     (let g = ToLower (sg_Name grp)
      in if Contains g ''temp'' then split_sensors (temps @ sg_Values grp) fans grps
         else if Contains g ''fan'' then split_sensors temps (fans @ sg_Values grp) grps
         else split_sensors temps fans grps)"

definition node_of :: "rawNode \<Rightarrow> Node" where
  "node_of n =
     (let (temps, fans) = split_sensors [] [] (rn_Sensors n)
      in \<lparr>nd_ID = rn_ID n, nd_LNN = rn_LNN n,
          nd_Readonly = rn_Enabled n,
          nd_Smartfail = rn_Smartfailed n,
          nd_DrivesByState = count_drives [] (rn_Drives n),
          nd_PowerSupplies = rn_Count n,
          nd_PowerSupplyFailures = rn_Failures n,
          nd_Temperatures = temps,
          nd_Fans = fans,
          nd_Product = rn_Product n,
          nd_Series = rn_Series n,
          nd_HWGen = rn_HWGen n\<rparr>)"

definition dec_nodes :: "rawNode list decoder" where
  "dec_nodes = dec_struct [fld ''nodes'' id id (dec_slice dec_rawNode zero_rawNode)]"

definition ParseNodes :: "string \<Rightarrow> parse_error + Node list" where
  "ParseNodes = parse_with dec_nodes [] (map node_of)"

section \<open>Quotas, snapshots, policies, licenses, pools\<close>

record rawQuota =
  rq_ID :: string
  rq_Path :: string
  rq_Type :: string
  rq_FSLogical :: f64
  rq_FSPhysical :: f64
  rq_AppLogical :: f64
  rq_ReductionRatio :: "f64 option"
  rq_Hard :: "f64 option"
  rq_Soft :: "f64 option"
  rq_Advisory :: "f64 option"

definition dec_rawQuota :: "rawQuota decoder" where
  "dec_rawQuota = dec_struct
     [fld ''id'' rq_ID rq_ID_update dec_string,
      fld ''path'' rq_Path rq_Path_update dec_string,
      fld ''type'' rq_Type rq_Type_update dec_string,
      (''usage'', dec_struct
         [fld ''fslogical'' rq_FSLogical rq_FSLogical_update dec_float,
          fld ''fsphysical'' rq_FSPhysical rq_FSPhysical_update dec_float,
          fld ''applogical'' rq_AppLogical rq_AppLogical_update dec_float]),
      fld ''reduction_ratio'' rq_ReductionRatio rq_ReductionRatio_update (dec_ptr dec_float 0),
      (''thresholds'', dec_struct
         [fld ''hard'' rq_Hard rq_Hard_update (dec_ptr dec_float 0),
          fld ''soft'' rq_Soft rq_Soft_update (dec_ptr dec_float 0),
          fld ''advisory'' rq_Advisory rq_Advisory_update (dec_ptr dec_float 0)])]"

definition zero_rawQuota :: rawQuota where
  "zero_rawQuota = \<lparr>rq_ID = [], rq_Path = [], rq_Type = [], rq_FSLogical = 0, rq_FSPhysical = 0,
     rq_AppLogical = 0, rq_ReductionRatio = None, rq_Hard = None, rq_Soft = None, rq_Advisory = None\<rparr>"

definition quota_of :: "rawQuota \<Rightarrow> Quota" where
  "quota_of q =
     \<lparr>qt_ID = rq_ID q, qt_Path = rq_Path q, qt_Type = rq_Type q,
      qt_UsageBytes = rq_FSLogical q,
      qt_PhysicalBytes = rq_FSPhysical q,
      qt_AppLogicalBytes = rq_AppLogical q,
      qt_ReductionRatio = deref (rq_ReductionRatio q),
      qt_HardBytes = deref (rq_Hard q),
      qt_SoftBytes = deref (rq_Soft q),
      qt_AdvisoryBytes = deref (rq_Advisory q)\<rparr>"

definition ParseQuotas :: "string \<Rightarrow> parse_error + Quota list" where
  "ParseQuotas = parse_with
     (dec_struct [fld ''quotas'' id id (dec_slice dec_rawQuota zero_rawQuota)]) [] (map quota_of)"

record rawSummary =
  rs_ActiveSize :: "f64 option"
  rs_Size :: "f64 option"

definition ParseSnapshotSummary :: "string \<Rightarrow> parse_error + SnapshotSummary" where
  "ParseSnapshotSummary = parse_with
     (dec_struct [(''summary'', dec_struct
        [fld ''active_size'' rs_ActiveSize rs_ActiveSize_update (dec_ptr dec_float 0),
         fld ''size'' rs_Size rs_Size_update (dec_ptr dec_float 0)])])
     \<lparr>rs_ActiveSize = None, rs_Size = None\<rparr>
     (\<lambda>raw. \<lparr>ss_UsedBytes =
        (case rs_ActiveSize raw of
           Some v \<Rightarrow> v
         | None \<Rightarrow> (case rs_Size raw of Some v \<Rightarrow> v | None \<Rightarrow> 0))\<rparr>)"

definition ParseSyncPolicies :: "string \<Rightarrow> parse_error + SyncPolicy list" where
  "ParseSyncPolicies = parse_with
     (dec_struct [fld ''policies'' id id (dec_slice
        (dec_struct
           [fld ''name'' sp_Name sp_Name_update dec_string,
            fld ''enabled'' sp_Enabled sp_Enabled_update dec_bool,
            fld ''last_job_state'' sp_LastJobState sp_LastJobState_update dec_string])
        \<lparr>sp_Name = [], sp_Enabled = False, sp_LastJobState = []\<rparr>)]) [] id"

record rawLicense =
  rl_Name :: string
  rl_Status :: string
  rl_Expiration :: string

definition license_expiration :: "string \<Rightarrow> int" where
  "license_expiration e =
     (let s = TrimSpace e
      in if s \<noteq> [] then (case ParseDate s of Some t \<Rightarrow> t | None \<Rightarrow> 0) else 0)"

definition ParseLicenses :: "string \<Rightarrow> parse_error + License list" where
  "ParseLicenses = parse_with
     (dec_struct [fld ''licenses'' id id (dec_slice
        (dec_struct
           [fld ''name'' rl_Name rl_Name_update dec_string,
            fld ''status'' rl_Status rl_Status_update dec_string,
            fld ''expiration'' rl_Expiration rl_Expiration_update dec_string])
        \<lparr>rl_Name = [], rl_Status = [], rl_Expiration = []\<rparr>)]) []
     (map (\<lambda>l. \<lparr>lc_Name = rl_Name l, lc_Status = rl_Status l,
                lc_ExpirationUnix = license_expiration (rl_Expiration l)\<rparr>))"

text \<open>The pool's usage block decodes straight into the pool's fields, through \<open>flexFloat\<close>.\<close>

definition dec_pool :: "StoragePool decoder" where
  "dec_pool = dec_struct
     [fld ''name'' po_Name po_Name_update dec_string,
      fld ''type'' po_Type po_Type_update dec_string,
      (''usage'', dec_struct
         [fld ''total_bytes'' po_TotalBytes po_TotalBytes_update flexFloat,
          fld ''used_bytes'' po_UsedBytes po_UsedBytes_update flexFloat,
          fld ''avail_bytes'' po_AvailBytes po_AvailBytes_update flexFloat,
          fld ''total_ssd_bytes'' po_SSDTotalBytes po_SSDTotalBytes_update flexFloat,
          fld ''used_ssd_bytes'' po_SSDUsedBytes po_SSDUsedBytes_update flexFloat,
          fld ''avail_ssd_bytes'' po_SSDAvailBytes po_SSDAvailBytes_update flexFloat,
          fld ''total_hdd_bytes'' po_HDDTotalBytes po_HDDTotalBytes_update flexFloat,
          fld ''used_hdd_bytes'' po_HDDUsedBytes po_HDDUsedBytes_update flexFloat,
          fld ''avail_hdd_bytes'' po_HDDAvailBytes po_HDDAvailBytes_update flexFloat])]"

definition zero_pool :: StoragePool where
  "zero_pool = \<lparr>po_Name = [], po_Type = [], po_TotalBytes = 0, po_UsedBytes = 0, po_AvailBytes = 0,
     po_SSDTotalBytes = 0, po_SSDUsedBytes = 0, po_SSDAvailBytes = 0, po_HDDTotalBytes = 0,
     po_HDDUsedBytes = 0, po_HDDAvailBytes = 0\<rparr>"

definition ParseStoragePools :: "string \<Rightarrow> parse_error + StoragePool list" where
  "ParseStoragePools = parse_with
     (dec_struct [fld ''storagepools'' id id (dec_slice dec_pool zero_pool)]) [] id"

section \<open>Events and statistics\<close>

record rawEvent =
  re_Severity :: string
  re_Resolved :: bool

definition event_severity :: "rawEvent \<Rightarrow> string" where
  "event_severity e = (if re_Severity e = [] then ''unknown'' else re_Severity e)"

fun count_events :: "(string, int) gomap \<Rightarrow> rawEvent list \<Rightarrow> (string, int) gomap" where
  "count_events m [] = m"
| "count_events m (e # es) =
     (if re_Resolved e then count_events m es else count_events (map_incr (event_severity e) m) es)"

definition dec_events :: "rawEvent list decoder" where
  "dec_events =
     (dec_struct [fld ''eventgroups'' id id (dec_slice
        (dec_struct
           [fld ''severity'' re_Severity re_Severity_update dec_string,
            fld ''resolved'' re_Resolved re_Resolved_update dec_bool])
        \<lparr>re_Severity = [], re_Resolved = False\<rparr>)])"

definition ParseEventOccurrences :: "string \<Rightarrow> parse_error + (string, int) gomap" where
  "ParseEventOccurrences = parse_with dec_events [] (count_events [])"

text \<open>A statistics row keeps its value undecoded; an absent value is no document at all.\<close>

record rawStat =
  rt_DevID :: int
  rt_Error :: "string option"
  rt_Key :: string
  rt_Value :: "json option"

definition dec_rawStat :: "rawStat decoder" where
  "dec_rawStat = dec_struct
     [fld ''devid'' rt_DevID rt_DevID_update dec_int,
      fld ''error'' rt_Error rt_Error_update (dec_ptr dec_string []),
      fld ''key'' rt_Key rt_Key_update dec_string,
      (''value'', \<lambda>j r. Some (r\<lparr>rt_Value := Some j\<rparr>))]"

fun stat_points :: "rawStat list \<Rightarrow> StatPoint list" where
  "stat_points [] = []"
| "stat_points (s # ss) =
     (if rt_Error s \<noteq> None then stat_points ss
      else case rt_Value s of
        None \<Rightarrow> stat_points ss
      | Some j \<Rightarrow>
          (case dec_float j 0 of
             None \<Rightarrow> stat_points ss
           | Some v \<Rightarrow> \<lparr>pt_Key = rt_Key s, pt_DevID = rt_DevID s, pt_Value = v\<rparr> # stat_points ss))"

definition dec_stats :: "rawStat list decoder" where
  "dec_stats = dec_struct [fld ''stats'' id id (dec_slice dec_rawStat
     \<lparr>rt_DevID = 0, rt_Error = None, rt_Key = [], rt_Value = None\<rparr>)]"

definition ParseStatCurrent :: "string \<Rightarrow> parse_error + StatPoint list" where
  "ParseStatCurrent = parse_with dec_stats [] stat_points"

text \<open>Values of type \<open>any\<close>. Arrays and objects are decoded too (a number out of range inside
  one is an error), but the program never looks into them.\<close>

datatype any = ANil | ABool bool | ANum f64 | AStr string | AComposite

fun any_ok :: "json \<Rightarrow> bool" where
  "any_ok (JNum l) = (ParseFloat l \<noteq> None)"
| "any_ok (JArr js) = list_all any_ok js"
| "any_ok (JObj ms) = list_all (\<lambda>m. any_ok (snd m)) ms"
| "any_ok _ = True"

fun dec_any :: "json \<Rightarrow> any option" where
  "dec_any JNull = Some ANil"
| "dec_any (JBool b) = Some (ABool b)"
| "dec_any (JNum l) = map_option ANum (ParseFloat l)"
| "dec_any (JStr t) = Some (AStr (unquote t))"
| "dec_any j = (if any_ok j then Some AComposite else None)"

type_synonym row = "(string, any) gomap"

fun dec_row_members :: "(string \<times> json) list \<Rightarrow> row \<Rightarrow> row option" where
  "dec_row_members [] m = Some m"
| "dec_row_members ((k, j) # ms) m =
     (case dec_any j of None \<Rightarrow> None | Some v \<Rightarrow> dec_row_members ms (AList.update (unquote k) v m))"

fun dec_row :: "row decoder" where
  "dec_row JNull old = Some []"
| "dec_row (JObj ms) old = dec_row_members ms old"
| "dec_row _ old = None"

definition num :: "row \<Rightarrow> string \<Rightarrow> f64 option" where
  "num r key = (case map_of r key of Some (ANum v) \<Rightarrow> Some v | _ \<Rightarrow> None)"

definition str :: "row \<Rightarrow> string \<Rightarrow> string" where
  "str r key = (case map_of r key of Some (AStr s) \<Rightarrow> s | _ \<Rightarrow> [])"

fun stage_avgs :: "row \<Rightarrow> string list \<Rightarrow> (string, f64) gomap \<Rightarrow> (string, f64) gomap" where
  "stage_avgs r [] m = m"
| "stage_avgs r (stage # stages) m =
     (case num r (stage @ ''_avg'') of
        Some v \<Rightarrow> stage_avgs r stages (AList.update stage v m)
      | None \<Rightarrow> stage_avgs r stages m)"

definition proto_of :: "(f64 \<Rightarrow> int) \<Rightarrow> row \<Rightarrow> ProtoStat" where
  "proto_of oob r =
     \<lparr>pr_Node = (case num r ''node'' of Some v \<Rightarrow> int_of_f64 oob v | None \<Rightarrow> 0),
      pr_Protocol = str r ''protocol'',
      pr_Operation = str r ''operation'',
      pr_OperationRate = deref (num r ''operation_rate''),
      pr_LatencyAvg = deref (num r ''time_avg''),
      pr_StageAvg = stage_avgs r ProtocolStages []\<rparr>"

definition ParseProtocolSummary :: "(f64 \<Rightarrow> int) \<Rightarrow> string \<Rightarrow> parse_error + ProtoStat list" where
  "ParseProtocolSummary oob = parse_with
     (dec_struct [fld ''protocol'' id id (dec_slice dec_row [])]) [] (map (proto_of oob))"

section \<open>Deduplication, drives, clients, workloads, totals\<close>

record rawDedupe =
  ru_SavedLogicalBlocks :: "f64 option"
  ru_LogicalBlocks :: "f64 option"
  ru_BlockSize :: "f64 option"

definition ParseDedupeSummary :: "string \<Rightarrow> parse_error + DedupeSummary" where
  "ParseDedupeSummary = parse_with
     (dec_struct [(''summary'', dec_struct
        [fld ''saved_logical_blocks'' ru_SavedLogicalBlocks ru_SavedLogicalBlocks_update (dec_ptr dec_float 0),
         fld ''logical_blocks'' ru_LogicalBlocks ru_LogicalBlocks_update (dec_ptr dec_float 0),
         fld ''block_size'' ru_BlockSize ru_BlockSize_update (dec_ptr dec_float 0)])])
     \<lparr>ru_SavedLogicalBlocks = None, ru_LogicalBlocks = None, ru_BlockSize = None\<rparr>
     (\<lambda>raw. let bs = deref (ru_BlockSize raw)
            in \<lparr>dd_LogicalSavedBytes = deref (ru_SavedLogicalBlocks raw) * bs,
                dd_DeduplicatedBytes = deref (ru_LogicalBlocks raw) * bs\<rparr>)"

definition splitDriveID :: "string \<Rightarrow> (int \<times> string) option" where
  "splitDriveID s =
     (case IndexByte s (CHR '':'') of
        None \<Rightarrow> None
      | Some i \<Rightarrow>
          if i = 0 \<or> i = length s - 1 then None
          else (case Atoi (take i s) of
                  None \<Rightarrow> None
                | Some n \<Rightarrow> Some (n, drop (i + 1) s)))"

record rawDriveStat =
  rv_DriveID :: string
  rv_Type :: string
  rv_Busy :: f64
  rv_XfersIn :: f64
  rv_XfersOut :: f64

fun drive_stats :: "rawDriveStat list \<Rightarrow> DriveStat list" where
  "drive_stats [] = []"
| "drive_stats (d # ds) =
     (case splitDriveID (rv_DriveID d) of
        None \<Rightarrow> drive_stats ds
      | Some (lnn, bay) \<Rightarrow>
          \<lparr>dr_Node = lnn, dr_Bay = bay, dr_Type = rv_Type d,
           dr_OpsPerSec = rv_XfersIn d + rv_XfersOut d,
           dr_BusyPercent = rv_Busy d\<rparr> # drive_stats ds)"

definition ParseDriveSummary :: "string \<Rightarrow> parse_error + DriveStat list" where
  "ParseDriveSummary = parse_with
     (dec_struct [fld ''drive'' id id (dec_slice
        (dec_struct
           [fld ''drive_id'' rv_DriveID rv_DriveID_update dec_string,
            fld ''type'' rv_Type rv_Type_update dec_string,
            fld ''busy'' rv_Busy rv_Busy_update dec_float,
            fld ''xfers_in'' rv_XfersIn rv_XfersIn_update dec_float,
            fld ''xfers_out'' rv_XfersOut rv_XfersOut_update dec_float])
        \<lparr>rv_DriveID = [], rv_Type = [], rv_Busy = 0, rv_XfersIn = 0, rv_XfersOut = 0\<rparr>)]) [] drive_stats"

definition ParseClientSummary :: "string \<Rightarrow> parse_error + ClientStat list" where
  "ParseClientSummary = parse_with
     (dec_struct [fld ''client'' id id (dec_slice
        (dec_struct
           [fld ''node'' cl_Node cl_Node_update dec_int,
            fld ''protocol'' cl_Protocol cl_Protocol_update dec_string,
            fld ''class'' cl_Class cl_Class_update dec_string,
            fld ''operation_rate'' cl_OpsPerSec cl_OpsPerSec_update dec_float,
            fld ''in'' cl_InBps cl_InBps_update dec_float,
            fld ''out'' cl_OutBps cl_OutBps_update dec_float])
        \<lparr>cl_Node = 0, cl_Protocol = [], cl_Class = [], cl_OpsPerSec = 0, cl_InBps = 0, cl_OutBps = 0\<rparr>)])
     [] id"

record rawWorkload =
  rw_Node :: f64
  rw_Workload :: Workload

definition workload_fld ::
    "string \<Rightarrow> (Workload \<Rightarrow> 'a) \<Rightarrow> (('a \<Rightarrow> 'a) \<Rightarrow> Workload \<Rightarrow> Workload) \<Rightarrow> 'a decoder
     \<Rightarrow> string \<times> rawWorkload decoder" where
  "workload_fld name get upd d = fld name (get \<circ> rw_Workload) (rw_Workload_update \<circ> upd) d"

definition zero_workload :: Workload where
  "zero_workload = \<lparr>wl_Node = 0, wl_Zone = [], wl_Protocol = [], wl_Username = [],
     wl_SystemName = [], wl_JobType = [], wl_Ops = 0, wl_BytesIn = 0, wl_BytesOut = 0, wl_CPUMicros = 0\<rparr>"

definition ParseWorkloadSummary :: "(f64 \<Rightarrow> int) \<Rightarrow> string \<Rightarrow> parse_error + Workload list" where
  "ParseWorkloadSummary oob = parse_with
     (dec_struct [fld ''workload'' id id (dec_slice
        (dec_struct
           [fld ''node'' rw_Node rw_Node_update dec_float,
            workload_fld ''zone_name'' wl_Zone wl_Zone_update dec_string,
            workload_fld ''protocol'' wl_Protocol wl_Protocol_update dec_string,
            workload_fld ''username'' wl_Username wl_Username_update dec_string,
            workload_fld ''system_name'' wl_SystemName wl_SystemName_update dec_string,
            workload_fld ''job_type'' wl_JobType wl_JobType_update dec_string,
            workload_fld ''ops'' wl_Ops wl_Ops_update dec_float,
            workload_fld ''bytes_in'' wl_BytesIn wl_BytesIn_update dec_float,
            workload_fld ''bytes_out'' wl_BytesOut wl_BytesOut_update dec_float,
            workload_fld ''cpu'' wl_CPUMicros wl_CPUMicros_update dec_float])
        \<lparr>rw_Node = 0, rw_Workload = zero_workload\<rparr>)]) []
     (map (\<lambda>w. (rw_Workload w)\<lparr>wl_Node := int_of_f64 oob (rw_Node w)\<rparr>))"

definition ParseTotal :: "string \<Rightarrow> parse_error + int" where
  "ParseTotal = parse_with (dec_struct [fld ''total'' id id dec_int]) 0 id"

section \<open>Best-effort decoding\<close>

text \<open>A decoder decoder_respects a relation on records when related records stay related and fail
  together.\<close>

definition decoder_respects :: "('r \<Rightarrow> 'r \<Rightarrow> bool) \<Rightarrow> 'r decoder \<Rightarrow> bool" where
  "decoder_respects R d \<longleftrightarrow> (\<forall>j r r'. R r r' \<longrightarrow> rel_option R (d j r) (d j r'))"

lemma decoder_respectsD: "decoder_respects R d \<Longrightarrow> R r r' \<Longrightarrow> rel_option R (d j r) (d j r')"
  by (simp add: decoder_respects_def)

lemma respects_fld:
  assumes "\<forall>a b. R a b \<longrightarrow> get a = get b" and "\<forall>a b f. R a b \<longrightarrow> R (upd f a) (upd f b)"
  shows "decoder_respects R (snd (fld name get upd d))"
  unfolding decoder_respects_def fld_def snd_conv
proof (intro allI impI)
  fix j r r' assume "R r r'"
  with assms show "rel_option R (map_option (\<lambda>v. upd (\<lambda>_. v) r) (d j (get r)))
      (map_option (\<lambda>v. upd (\<lambda>_. v) r') (d j (get r')))"
    by (cases "d j (get r')") auto
qed

lemma dec_members_respects:
  assumes "\<forall>p \<in> set fs. decoder_respects R (snd p)" and "R r r'"
  shows "rel_option R (dec_members fs ms r) (dec_members fs ms r')"
  using assms(2)
proof (induction ms arbitrary: r r')
  case (Cons m ms)
  obtain k j where m: "m = (k, j)" by (cases m)
  show ?case
  proof (cases "find_field fs (unquote k)")
    case None
    with Cons m show ?thesis by simp
  next
    case (Some d)
    then have "decoder_respects R d" using find_field_in assms(1) by fastforce
    from decoder_respectsD [OF this Cons.prems] have "rel_option R (d j r) (d j r')" .
    then show ?thesis using Cons.IH Some m by (auto simp: option_rel_Some1 split: option.splits)
  qed
qed simp

lemma respects_struct:
  assumes "\<forall>p \<in> set fs. decoder_respects R (snd p)"
  shows "decoder_respects R (dec_struct fs)"
  unfolding decoder_respects_def
proof (intro allI impI)
  fix j r r' assume "R r r'"
  with dec_members_respects [OF assms] show "rel_option R (dec_struct fs j r) (dec_struct fs j r')"
    by (cases j) simp_all
qed

text \<open>Records that agree on everything but the sensors.\<close>

definition same_but_sensors :: "rawNode \<Rightarrow> rawNode \<Rightarrow> bool" where
  "same_but_sensors a b \<longleftrightarrow> a\<lparr>rn_Sensors := []\<rparr> = b\<lparr>rn_Sensors := []\<rparr>"

lemma sensorGroups_total: "\<exists>gs. sensorGroups j old = Some gs"
  by (auto simp: sensorGroups_def split: option.split)

lemma sensors_field_respects:
  "decoder_respects same_but_sensors (snd (fld ''sensors'' rn_Sensors rn_Sensors_update sensorGroups))"
  unfolding decoder_respects_def fld_def snd_conv
proof (intro allI impI)
  fix j r r' assume "same_but_sensors r r'"
  moreover obtain g g' where "sensorGroups j (rn_Sensors r) = Some g" "sensorGroups j (rn_Sensors r') = Some g'"
    using sensorGroups_total by blast
  ultimately show "rel_option same_but_sensors
      (map_option (\<lambda>v. r\<lparr>rn_Sensors := v\<rparr>) (sensorGroups j (rn_Sensors r)))
      (map_option (\<lambda>v. r'\<lparr>rn_Sensors := v\<rparr>) (sensorGroups j (rn_Sensors r')))"
    by (simp add: same_but_sensors_def)
qed

lemma same_but_sensors_iff:
  "same_but_sensors a b \<longleftrightarrow>
     rn_ID a = rn_ID b \<and> rn_LNN a = rn_LNN b \<and> rn_Enabled a = rn_Enabled b
     \<and> rn_Smartfailed a = rn_Smartfailed b \<and> rn_Drives a = rn_Drives b \<and> rn_Count a = rn_Count b
     \<and> rn_Failures a = rn_Failures b \<and> rn_Product a = rn_Product b \<and> rn_Series a = rn_Series b
     \<and> rn_HWGen a = rn_HWGen b"
  unfolding same_but_sensors_def by (cases a; cases b) simp

lemma node_fields_respect: "\<forall>p \<in> set node_fields. decoder_respects same_but_sensors (snd p)"
  by (simp add: node_fields_def respects_struct respects_fld sensors_field_respects same_but_sensors_iff)

lemma dec_members_append:
  "dec_members fs (ms @ ms') r = Option.bind (dec_members fs ms r) (dec_members fs ms')"
  by (induction fs ms r rule: dec_members.induct) (auto split: option.split)

lemma find_sensors: "find_field node_fields (unquote ''sensors'') =
    Some (snd (fld ''sensors'' rn_Sensors rn_Sensors_update sensorGroups))"
proof -
  have "unquote ''sensors'' = ''sensors''" by code_simp
  then show ?thesis by (simp add: find_field_def node_fields_def fld_def)
qed

text \<open>Skipping or decoding a \<open>sensors\<close> member leaves the other fields alike.\<close>

lemma sensors_member:
  "rel_option same_but_sensors (dec_members node_fields (pre @ (''sensors'', j) # post) r)
     (dec_members node_fields (pre @ post) r)"
proof -
  have step: "\<exists>r'. dec_members node_fields [(''sensors'', j)] r = Some r' \<and> same_but_sensors r' r" for r
    using sensorGroups_total [of j "rn_Sensors r"]
    by (auto simp: find_sensors fld_def same_but_sensors_def simp del: unquote.simps)
  have "rel_option same_but_sensors (dec_members node_fields ((''sensors'', j) # post) r)
      (dec_members node_fields post r)" for r
  proof -
    obtain r' where r': "dec_members node_fields [(''sensors'', j)] r = Some r'" "same_but_sensors r' r"
      using step by blast
    have "dec_members node_fields ((''sensors'', j) # post) r = dec_members node_fields post r'"
      using dec_members_append [of node_fields "[(''sensors'', j)]" post r] r'(1) by simp
    then show ?thesis using dec_members_respects [OF node_fields_respect r'(2)] by simp
  qed
  then show ?thesis by (cases "dec_members node_fields pre r") (simp_all add: dec_members_append)
qed

lemma node_of_same:
  "same_but_sensors a b \<Longrightarrow>
     (node_of a)\<lparr>nd_Temperatures := [], nd_Fans := []\<rparr> = (node_of b)\<lparr>nd_Temperatures := [], nd_Fans := []\<rparr>"
  by (simp add: node_of_def same_but_sensors_iff split: prod.split)

text \<open>C27: A node's \<open>sensors\<close> block is best effort: whatever JSON value it holds, and wherever it
  stands among the node's members, decoding the node succeeds or fails exactly as it does without
  the block, and the resulting node differs in nothing but its temperature and fan readings.\<close>

theorem sensors_best_effort:
  "let strip = (\<lambda>r. (node_of r)\<lparr>nd_Temperatures := [], nd_Fans := []\<rparr>)
   in map_option strip (dec_rawNode (JObj (pre @ (''sensors'', j) # post)) zero_rawNode) =
      map_option strip (dec_rawNode (JObj (pre @ post)) zero_rawNode)"
proof -
  have "rel_option same_but_sensors (dec_members node_fields (pre @ (''sensors'', j) # post) zero_rawNode)
     (dec_members node_fields (pre @ post) zero_rawNode)" by (rule sensors_member)
  then show ?thesis
    by (cases "dec_members node_fields (pre @ post) zero_rawNode")
      (auto simp: dec_rawNode_def option_rel_Some2 node_of_same)
qed

text \<open>How sensor groups become readings: the temperatures are the values of the groups whose
  name contains \<open>temp\<close> in any case, the fans those of the remaining groups whose name contains
  \<open>fan\<close>, both in the order of the reply, and every other group is dropped.\<close>

lemma sensors_split:
  "split_sensors [] [] gs =
     (concat (map sg_Values (filter (\<lambda>g. Contains (ToLower (sg_Name g)) ''temp'') gs)),
      concat (map sg_Values (filter (\<lambda>g. \<not> Contains (ToLower (sg_Name g)) ''temp''
        \<and> Contains (ToLower (sg_Name g)) ''fan'') gs)))"
proof -
  have "split_sensors ts fs gs =
     (ts @ concat (map sg_Values (filter (\<lambda>g. Contains (ToLower (sg_Name g)) ''temp'') gs)),
      fs @ concat (map sg_Values (filter (\<lambda>g. \<not> Contains (ToLower (sg_Name g)) ''temp''
        \<and> Contains (ToLower (sg_Name g)) ''fan'') gs)))" for ts fs
    by (induction ts fs gs rule: split_sensors.induct) (simp_all add: Let_def)
  from this [of "[]" "[]"] show ?thesis by simp
qed

section \<open>Numbers and identifiers\<close>

lemma Trim_quoted: "c \<notin> set l \<Longrightarrow> Trim c l = l" "c \<notin> set l \<Longrightarrow> Trim c (c # l @ [c]) = l"
proof -
  have drop: "dropWhile (\<lambda>x. x = c) xs = xs" if "c \<notin> set xs" for xs
    using that by (cases xs) auto
  show "c \<notin> set l \<Longrightarrow> Trim c l = l" by (simp add: Trim_def drop)
  assume c: "c \<notin> set l"
  then have "dropWhile (\<lambda>x. x = c) (rev (l @ [c])) = rev l" using drop [of "rev l"] by simp
  moreover have "dropWhile (\<lambda>x. x = c) (c # l @ [c]) = (if l = [] then [] else l @ [c])"
    using c drop [of "l @ [c]"] by (cases l) auto
  ultimately show "Trim c (c # l @ [c]) = l" by (simp add: Trim_def)
qed

text \<open>A number the API quotes decodes like the bare number, an absent, \<open>null\<close> or unusable
  value leaves the field as it was, and the decoder never fails.\<close>

lemma flexFloat_quoted:
  "if CHR 0x22 \<in> set l then \<exists>v. flexFloat j old = Some v
   else flexFloat (JStr l) old = flexFloat (JNum l) old
     \<and> flexFloat (JNum l) old = Some (case ParseFloat l of None \<Rightarrow> old | Some v \<Rightarrow> v)
     \<and> flexFloat JNull old = Some old \<and> flexFloat (JStr []) old = Some old"
proof -
  have "ParseFloat [] = None" "ParseFloat ''null'' = None" by code_simp+
  moreover have "Trim (CHR 0x22) ''null'' = ''null''" by code_simp
  moreover have "Trim (CHR 0x22) [CHR 0x22, CHR 0x22] = []" by code_simp
  ultimately show ?thesis
    using Trim_quoted [of "CHR 0x22" l]
    by (auto simp: flexFloat_def Let_def split: option.split)
qed

text \<open>Drive identifiers: \<open>splitDriveID\<close> accepts exactly the texts made of a node
  number that \<open>Atoi\<close> reads, a colon and a non-empty bay, and splits them at the first colon.\<close>

lemma splitDriveID_iff:
  "splitDriveID s = Some (n, bay) \<longleftrightarrow>
     (\<exists>a. s = a @ '':'' @ bay \<and> CHR '':'' \<notin> set a \<and> bay \<noteq> [] \<and> Atoi a = Some n)"
proof
  assume "splitDriveID s = Some (n, bay)"
  then obtain i where i: "IndexByte s (CHR '':'') = Some i" "i \<noteq> 0" "i \<noteq> length s - 1"
      "Atoi (take i s) = Some n" "bay = drop (i + 1) s"
    by (auto simp: splitDriveID_def split: option.splits if_splits)
  from i(1) have at: "i < length s" "s ! i = CHR '':''" "CHR '':'' \<notin> set (take i s)"
    by (simp_all add: IndexByte_Some)
  then have "s = take i s @ '':'' @ bay" using i(5) id_take_nth_drop [of i s] by simp
  moreover have "bay \<noteq> []" using i(3,5) at(1) by simp
  ultimately show "\<exists>a. s = a @ '':'' @ bay \<and> CHR '':'' \<notin> set a \<and> bay \<noteq> [] \<and> Atoi a = Some n"
    using at(3) i(4) by blast
next
  assume "\<exists>a. s = a @ '':'' @ bay \<and> CHR '':'' \<notin> set a \<and> bay \<noteq> [] \<and> Atoi a = Some n"
  then obtain a where a: "s = a @ '':'' @ bay" "CHR '':'' \<notin> set a" "bay \<noteq> []" "Atoi a = Some n" by blast
  have "IndexByte s (CHR '':'') = Some (length a)" using a(1,2) by (simp add: IndexByte_Some)
  moreover have "a \<noteq> []"
  proof
    assume "a = []"
    moreover have "Atoi [] = None" by code_simp
    ultimately show False using a(4) by simp
  qed
  ultimately show "splitDriveID s = Some (n, bay)" using a by (simp add: splitDriveID_def)
qed

text \<open>Statistics rows: a row gives a reading exactly when it carries no error and its value is
  a number in range, or the literal \<open>null\<close>, which reads as 0; the rows without a value and those
  with a text, a boolean, an array or an object give none. Readings keep the order of the rows.\<close>

lemma stat_points_exact:
  "stat_points rows = List.map_filter (\<lambda>s.
     (case (rt_Error s, rt_Value s) of
        (None, Some (JNum l)) \<Rightarrow>
          map_option (\<lambda>v. \<lparr>pt_Key = rt_Key s, pt_DevID = rt_DevID s, pt_Value = v\<rparr>) (ParseFloat l)
      | (None, Some JNull) \<Rightarrow> Some \<lparr>pt_Key = rt_Key s, pt_DevID = rt_DevID s, pt_Value = 0\<rparr>
      | _ \<Rightarrow> None)) rows"
  by (induction rows) (auto simp: List.map_filter_def split: option.split json.split)

end
