(* ===== verification/Metrics.thy ===== *)
theory Metrics
  imports Onefs
begin

text \<open>
  \<open>internal/powerscale/metrics.go\<close> and \<open>statkeys.go\<close>: labels, samples, the canonical label sets,
  and the curated table of statistics keys (\<open>statisticsKeys.json\<close>, which \<open>init\<close> reads into
  \<open>statKeySpecs\<close> and indexes into \<open>statKeyByKey\<close>).
\<close>

section \<open>Labels and samples\<close>

record Label =
  lb_Name :: string
  lb_Value :: string

record Sample =
  sm_Name :: string
  sm_Labels :: "Label list"
  sm_Value :: f64

definition label :: "string \<Rightarrow> string \<Rightarrow> Label" where
  "label n v = \<lparr>lb_Name = n, lb_Value = v\<rparr>"

definition sample :: "string \<Rightarrow> Label list \<Rightarrow> f64 \<Rightarrow> Sample" where
  "sample n ls v = \<lparr>sm_Name = n, sm_Labels = ls, sm_Value = v\<rparr>"

definition baseLabels :: "string \<Rightarrow> string \<Rightarrow> Label list" where
  "baseLabels clusterName clusterID = [label ''cluster'' clusterName, label ''cluster_id'' clusterID]"

definition nodeLabels :: "string \<Rightarrow> string \<Rightarrow> string \<Rightarrow> Label list" where
  "nodeLabels clusterName clusterID nodeLNN =
     baseLabels clusterName clusterID @ [label ''node'' nodeLNN]"

definition hardwareInfoLabels ::
    "string \<Rightarrow> string \<Rightarrow> string \<Rightarrow> string \<Rightarrow> string \<Rightarrow> string \<Rightarrow> Label list" where
  "hardwareInfoLabels clusterName clusterID nodeLNN product series hwgen =
     [label ''cluster'' clusterName, label ''cluster_id'' clusterID, label ''node'' nodeLNN,
      label ''product'' product, label ''series'' series, label ''hwgen'' hwgen]"

definition quotaLabels :: "string \<Rightarrow> string \<Rightarrow> string \<Rightarrow> string \<Rightarrow> string \<Rightarrow> Label list" where
  "quotaLabels clusterName clusterID quotaID path quotaType =
     baseLabels clusterName clusterID
     @ [label ''quota_id'' quotaID, label ''quota_path'' path, label ''quota_type'' quotaType]"

definition protocolLabels :: "string \<Rightarrow> string \<Rightarrow> string \<Rightarrow> string \<Rightarrow> string \<Rightarrow> Label list" where
  "protocolLabels clusterName clusterID nodeLNN proto op =
     baseLabels clusterName clusterID
     @ [label ''node'' nodeLNN, label ''protocol'' proto, label ''op'' op]"

definition driveLabels :: "string \<Rightarrow> string \<Rightarrow> string \<Rightarrow> string \<Rightarrow> Label list" where
  "driveLabels clusterName clusterID nodeLNN state =
     baseLabels clusterName clusterID @ [label ''node'' nodeLNN, label ''state'' state]"

definition policyLabels :: "string \<Rightarrow> string \<Rightarrow> string \<Rightarrow> Label list" where
  "policyLabels clusterName clusterID policy =
     baseLabels clusterName clusterID @ [label ''policy'' policy]"

definition severityLabels :: "string \<Rightarrow> string \<Rightarrow> string \<Rightarrow> Label list" where
  "severityLabels clusterName clusterID severity =
     baseLabels clusterName clusterID @ [label ''severity'' severity]"

definition licenseLabels :: "string \<Rightarrow> string \<Rightarrow> string \<Rightarrow> Label list" where
  "licenseLabels clusterName clusterID name =
     baseLabels clusterName clusterID @ [label ''name'' name]"

definition licenseActiveLabels :: "string \<Rightarrow> string \<Rightarrow> string \<Rightarrow> string \<Rightarrow> Label list" where
  "licenseActiveLabels clusterName clusterID name status =
     baseLabels clusterName clusterID @ [label ''name'' name, label ''status'' status]"

definition storagePoolLabels :: "string \<Rightarrow> string \<Rightarrow> string \<Rightarrow> string \<Rightarrow> Label list" where
  "storagePoolLabels clusterName clusterID pool poolType =
     baseLabels clusterName clusterID @ [label ''pool'' pool, label ''type'' poolType]"

definition workloadLabels ::
    "string \<Rightarrow> string \<Rightarrow> string \<Rightarrow> string \<Rightarrow> string \<Rightarrow> string \<Rightarrow> string \<Rightarrow> string \<Rightarrow> Label list" where
  "workloadLabels clusterName clusterID node zone protocol username systemName jobType =
     baseLabels clusterName clusterID
     @ [label ''node'' node, label ''zone'' zone, label ''protocol'' protocol,
        label ''username'' username, label ''system_name'' systemName, label ''job_type'' jobType]"

definition driveStatLabels :: "string \<Rightarrow> string \<Rightarrow> string \<Rightarrow> string \<Rightarrow> string \<Rightarrow> Label list" where
  "driveStatLabels clusterName clusterID nodeLNN bay driveType =
     baseLabels clusterName clusterID
     @ [label ''node'' nodeLNN, label ''bay'' bay, label ''type'' driveType]"

definition clientLabels :: "string \<Rightarrow> string \<Rightarrow> string \<Rightarrow> string \<Rightarrow> string \<Rightarrow> Label list" where
  "clientLabels clusterName clusterID nodeLNN proto class =
     baseLabels clusterName clusterID
     @ [label ''node'' nodeLNN, label ''protocol'' proto, label ''class'' class]"

definition sensorLabels :: "string \<Rightarrow> string \<Rightarrow> string \<Rightarrow> string \<Rightarrow> Label list" where
  "sensorLabels clusterName clusterID nodeLNN sensor =
     baseLabels clusterName clusterID @ [label ''node'' nodeLNN, label ''sensor'' sensor]"

lemmas label_set_defs [label_simps] =
  baseLabels_def nodeLabels_def hardwareInfoLabels_def quotaLabels_def protocolLabels_def
  driveLabels_def policyLabels_def severityLabels_def licenseLabels_def licenseActiveLabels_def
  storagePoolLabels_def workloadLabels_def driveStatLabels_def clientLabels_def sensorLabels_def

lemma label_sel [simp]:
  "lb_Name (label n v) = n" "lb_Value (label n v) = v"
  by (simp_all add: label_def)

lemma sample_sel [simp]:
  "sm_Name (sample n ls v) = n" "sm_Labels (sample n ls v) = ls" "sm_Value (sample n ls v) = v"
  by (simp_all add: sample_def)

lemma label_eq_iff [simp]: "label n v = label n' v' \<longleftrightarrow> n = n' \<and> v = v'"
  by (simp add: label_def)

section \<open>The statistics-key table\<close>


record StatKeySpec =
  sk_Key :: string
  sk_Metric :: string
  sk_Scope :: string
  sk_Divisor :: f64

text \<open>\<open>scale\<close>: an unset divisor passes the value through.\<close>

definition scale :: "StatKeySpec \<Rightarrow> f64 \<Rightarrow> f64" where
  "scale s v = (if is_zero (sk_Divisor s) then v else v div sk_Divisor s)"

definition spec :: "string \<Rightarrow> string \<Rightarrow> string \<Rightarrow> int \<Rightarrow> StatKeySpec" where
  "spec k m s d = \<lparr>sk_Key = k, sk_Metric = m, sk_Scope = s, sk_Divisor = Fin False (of_int d)\<rparr>"

definition statKeySpecs :: "StatKeySpec list" where
  "statKeySpecs =
    [spec ''cluster.cpu.sys.avg'' ''powerscale_cluster_cpu_sys_percent'' ''cluster'' 10,
     spec ''cluster.cpu.user.avg'' ''powerscale_cluster_cpu_user_percent'' ''cluster'' 10,
     spec ''cluster.cpu.idle.avg'' ''powerscale_cluster_cpu_idle_percent'' ''cluster'' 10,
     spec ''ifs.bytes.total'' ''powerscale_cluster_total_capacity_bytes'' ''cluster'' 0,
     spec ''ifs.bytes.used'' ''powerscale_cluster_used_capacity_bytes'' ''cluster'' 0,
     spec ''ifs.bytes.avail'' ''powerscale_cluster_available_capacity_bytes'' ''cluster'' 0,
     spec ''ifs.bytes.free'' ''powerscale_cluster_free_capacity_bytes'' ''cluster'' 0,
     spec ''cluster.disk.xfers.rate'' ''powerscale_cluster_disk_operations_per_second'' ''cluster'' 0,
     spec ''cluster.net.ext.bytes.in.rate'' ''powerscale_cluster_net_in_bytes_per_second'' ''cluster'' 0,
     spec ''cluster.net.ext.bytes.out.rate'' ''powerscale_cluster_net_out_bytes_per_second'' ''cluster'' 0,
     spec ''node.cpu.idle.avg'' ''powerscale_node_cpu_idle_percent'' ''node'' 10,
     spec ''node.cpu.sys.avg'' ''powerscale_node_cpu_sys_percent'' ''node'' 10,
     spec ''node.cpu.user.avg'' ''powerscale_node_cpu_user_percent'' ''node'' 10,
     spec ''node.memory.used'' ''powerscale_node_memory_used_bytes'' ''node'' 0,
     spec ''node.disk.xfers.rate.sum'' ''powerscale_node_disk_operations_per_second'' ''node'' 0,
     spec ''node.ifs.bytes.used'' ''powerscale_node_used_capacity_bytes'' ''node'' 0,
     spec ''node.ifs.cache.l1.data.read.hit'' ''powerscale_node_cache_l1_read_hit_bytes_per_second'' ''node'' 0,
     spec ''node.ifs.cache.l1.data.read.miss'' ''powerscale_node_cache_l1_read_miss_bytes_per_second'' ''node'' 0,
     spec ''node.ifs.cache.l2.data.read.hit'' ''powerscale_node_cache_l2_read_hit_bytes_per_second'' ''node'' 0,
     spec ''node.ifs.cache.l2.data.read.miss'' ''powerscale_node_cache_l2_read_miss_bytes_per_second'' ''node'' 0,
     spec ''node.ifs.cache.l3.data.read.hit'' ''powerscale_node_cache_l3_read_hit_bytes_per_second'' ''node'' 0,
     spec ''node.ifs.cache.l3.data.read.miss'' ''powerscale_node_cache_l3_read_miss_bytes_per_second'' ''node'' 0]"

text \<open>\<open>init\<close>: later rows of one key replace earlier ones.\<close>

definition index_specs :: "StatKeySpec list \<Rightarrow> (string, StatKeySpec) gomap" where
  "index_specs specs = foldl (\<lambda>m s. AList.update (sk_Key s) s m) [] specs"

definition statKeyByKey :: "(string, StatKeySpec) gomap" where
  "statKeyByKey = index_specs statKeySpecs"

fun query_keys :: "string list \<Rightarrow> StatKeySpec list \<Rightarrow> string list" where
  "query_keys seen [] = []"
| "query_keys seen (s # ss) =
     (if sk_Key s \<in> set seen then query_keys seen ss
      else sk_Key s # query_keys (sk_Key s # seen) ss)"

definition QueryKeys :: "string list" where
  "QueryKeys = query_keys [] statKeySpecs"

lemma query_keys_nub: "query_keys seen ss = map sk_Key (nub_by sk_Key seen ss)"
  by (induction seen ss rule: query_keys.induct) auto

lemma map_of_foldl_update:
  "map_of (foldl (\<lambda>m s. AList.update (f s) s m) m xs) k =
     (case find (\<lambda>s. f s = k) (rev xs) of Some s \<Rightarrow> Some s | None \<Rightarrow> map_of m k)"
  by (induction xs rule: rev_induct) (auto simp: update_conv')

lemma map_of_index_specs:
  "map_of (index_specs specs) k = find (\<lambda>s. sk_Key s = k) (rev specs)"
  by (simp add: index_specs_def map_of_foldl_update split: option.split)

lemma index_specs_in: "map_of (index_specs specs) k = Some s \<Longrightarrow> s \<in> set specs \<and> sk_Key s = k"
  by (auto simp: map_of_index_specs find_Some_iff in_set_conv_nth) (metis length_rev nth_mem set_rev in_set_conv_nth)

end
