(* ===== verification/Derivations.thy ===== *)
theory Derivations
  imports Metrics
begin

text \<open>
  \<open>internal/powerscale/derivations.go\<close>: from one cluster's inventory and statistics to its
  samples. Nil-able pointers are options. The loops over \<open>DrivesByState\<close> and \<open>Events\<close> visit the
  map's keys in the run's order (\<open>ord\<close>); everything else keeps the order of its list.

  The second half states the contract the exporters rely on: every metric name has one fixed
  list of label names (\<open>metric_schema\<close>), and every sample built conforms to it.
\<close>

section \<open>The sample builders\<close>

definition b2f :: "bool \<Rightarrow> f64" where
  "b2f b = (if b then 1 else 0)"

definition microsPerSecond :: f64 where
  "microsPerSecond = Fin False 1000000"

fun stat_loop :: "string \<Rightarrow> string \<Rightarrow> (int, int) gomap \<Rightarrow> StatPoint list \<Rightarrow> Sample list" where
  "stat_loop cn ci lnns [] = []"
| "stat_loop cn ci lnns (p # ps) =
     (case map_of statKeyByKey (pt_Key p) of
        None \<Rightarrow> stat_loop cn ci lnns ps
      | Some s \<Rightarrow>
          (if sk_Scope s = ''node'' then
             (case map_of lnns (pt_DevID p) of
                None \<Rightarrow> stat_loop cn ci lnns ps
              | Some lnn \<Rightarrow>
                  sample (sk_Metric s) (nodeLabels cn ci (Itoa lnn)) (scale s (pt_Value p))
                  # stat_loop cn ci lnns ps)
           else
             sample (sk_Metric s) (baseLabels cn ci) (scale s (pt_Value p))
             # stat_loop cn ci lnns ps))"

definition statSamples :: "string \<Rightarrow> string \<Rightarrow> Statistics option \<Rightarrow> (int, int) gomap \<Rightarrow> Sample list" where
  "statSamples cn ci st lnns =
     (case st of None \<Rightarrow> [] | Some st \<Rightarrow> stat_loop cn ci lnns (st_Current st))"

definition quota_samples1 :: "string \<Rightarrow> string \<Rightarrow> Quota \<Rightarrow> Sample list" where
  "quota_samples1 cn ci q =
     (let labels = quotaLabels cn ci (qt_ID q) (qt_Path q) (qt_Type q)
      in [sample ''powerscale_quota_usage_bytes'' labels (qt_UsageBytes q),
          sample ''powerscale_quota_application_usage_bytes'' labels (qt_AppLogicalBytes q)]
         @ (if is_pos (qt_PhysicalBytes q)
            then [sample ''powerscale_quota_physical_usage_bytes'' labels (qt_PhysicalBytes q)] else [])
         @ (if is_pos (qt_ReductionRatio q)
            then [sample ''powerscale_quota_reduction_ratio'' labels (qt_ReductionRatio q)] else [])
         @ (if is_pos (qt_HardBytes q)
            then [sample ''powerscale_quota_hard_threshold_bytes'' labels (qt_HardBytes q)] else [])
         @ (if is_pos (qt_SoftBytes q)
            then [sample ''powerscale_quota_soft_threshold_bytes'' labels (qt_SoftBytes q)] else [])
         @ (if is_pos (qt_AdvisoryBytes q)
            then [sample ''powerscale_quota_advisory_threshold_bytes'' labels (qt_AdvisoryBytes q)] else []))"

definition quotaSamples :: "string \<Rightarrow> string \<Rightarrow> Quota list \<Rightarrow> Sample list" where
  "quotaSamples cn ci quotas = concat (map (quota_samples1 cn ci) quotas)"

fun nodeHealthSamples :: "order \<Rightarrow> nat \<Rightarrow> string \<Rightarrow> string \<Rightarrow> Node list \<Rightarrow> Sample list" where
  "nodeHealthSamples ord i cn ci [] = []"
| "nodeHealthSamples ord i cn ci (n # ns) =
     (let lnn = Itoa (nd_LNN n); base = nodeLabels cn ci lnn
      in [sample ''powerscale_node_readonly'' base (b2f (nd_Readonly n)),
          sample ''powerscale_node_smartfail'' base (b2f (nd_Smartfail n))]
         @ map (\<lambda>(state, count). sample ''powerscale_node_drives'' (driveLabels cn ci lnn state) (f64_of_int count))
               (range_map (ord i) (nd_DrivesByState n)))
     @ nodeHealthSamples ord (Suc i) cn ci ns"

definition hardwareInfoSample :: "string \<Rightarrow> string \<Rightarrow> string \<Rightarrow> Node \<Rightarrow> Sample option" where
  "hardwareInfoSample cn ci lnn n =
     (if nd_Product n = [] \<and> nd_Series n = [] \<and> nd_HWGen n = [] then None
      else Some (sample ''powerscale_node_hardware_info''
             (hardwareInfoLabels cn ci lnn (nd_Product n) (nd_Series n) (nd_HWGen n)) 1))"

definition hardware_samples1 :: "string \<Rightarrow> string \<Rightarrow> Node \<Rightarrow> Sample list" where
  "hardware_samples1 cn ci n =
     (let lnn = Itoa (nd_LNN n); base = nodeLabels cn ci lnn
      in (case hardwareInfoSample cn ci lnn n of Some s \<Rightarrow> [s] | None \<Rightarrow> [])
         @ (if 0 < nd_PowerSupplies n
            then [sample ''powerscale_node_power_supplies'' base (f64_of_int (nd_PowerSupplies n)),
                  sample ''powerscale_node_power_supply_failures'' base (f64_of_int (nd_PowerSupplyFailures n))]
            else [])
         @ map (\<lambda>t. sample ''powerscale_node_temperature_celsius'' (sensorLabels cn ci lnn (sn_Name t)) (sn_Value t))
               (nd_Temperatures n)
         @ map (\<lambda>f. sample ''powerscale_node_fan_speed_rpm'' (sensorLabels cn ci lnn (sn_Name f)) (sn_Value f))
               (nd_Fans n))"

definition hardwareSamples :: "string \<Rightarrow> string \<Rightarrow> Node list \<Rightarrow> Sample list" where
  "hardwareSamples cn ci nodes = concat (map (hardware_samples1 cn ci) nodes)"

definition snapshotSamples :: "string \<Rightarrow> string \<Rightarrow> SnapshotSummary \<Rightarrow> Sample list" where
  "snapshotSamples cn ci s = [sample ''powerscale_snapshot_used_bytes'' (baseLabels cn ci) (ss_UsedBytes s)]"

definition syncFailureStates :: "string list" where
  "syncFailureStates = [''failed'', ''needs_attention'', ''unknown'']"

definition syncSamples :: "string \<Rightarrow> string \<Rightarrow> SyncPolicy list \<Rightarrow> Sample list" where
  "syncSamples cn ci policies = concat (map (\<lambda>p.
     (let labels = policyLabels cn ci (sp_Name p)
      in [sample ''powerscale_synciq_policy_enabled'' labels (b2f (sp_Enabled p)),
          sample ''powerscale_synciq_last_run_failed'' labels
            (b2f (sp_LastJobState p \<in> set syncFailureStates))])) policies)"

definition licenseActive :: "string \<Rightarrow> bool" where
  "licenseActive status \<longleftrightarrow>
     ToLower (TrimSpace status) \<in> {''licensed'', ''activated'', ''evaluation''}"

definition licenseSamples :: "string \<Rightarrow> string \<Rightarrow> License list \<Rightarrow> Sample list" where
  "licenseSamples cn ci licenses = concat (map (\<lambda>l.
     [sample ''powerscale_license_expiration_timestamp_seconds''
        (licenseLabels cn ci (lc_Name l)) (f64_of_int (lc_ExpirationUnix l)),
      sample ''powerscale_license_active''
        (licenseActiveLabels cn ci (lc_Name l) (lc_Status l)) (b2f (licenseActive (lc_Status l)))]) licenses)"

definition storagePoolSamples :: "string \<Rightarrow> string \<Rightarrow> StoragePool list \<Rightarrow> Sample list" where
  "storagePoolSamples cn ci pools = concat (map (\<lambda>p.
     (let labels = storagePoolLabels cn ci (po_Name p) (po_Type p)
      in [sample ''powerscale_storagepool_total_capacity_bytes'' labels (po_TotalBytes p),
          sample ''powerscale_storagepool_used_capacity_bytes'' labels (po_UsedBytes p),
          sample ''powerscale_storagepool_available_capacity_bytes'' labels (po_AvailBytes p),
          sample ''powerscale_storagepool_ssd_total_capacity_bytes'' labels (po_SSDTotalBytes p),
          sample ''powerscale_storagepool_ssd_used_capacity_bytes'' labels (po_SSDUsedBytes p),
          sample ''powerscale_storagepool_ssd_available_capacity_bytes'' labels (po_SSDAvailBytes p),
          sample ''powerscale_storagepool_hdd_total_capacity_bytes'' labels (po_HDDTotalBytes p),
          sample ''powerscale_storagepool_hdd_used_capacity_bytes'' labels (po_HDDUsedBytes p),
          sample ''powerscale_storagepool_hdd_available_capacity_bytes'' labels (po_HDDAvailBytes p)])) pools)"

definition eventSamples :: "(string list \<Rightarrow> string list) \<Rightarrow> string \<Rightarrow> string \<Rightarrow> (string, int) gomap \<Rightarrow> Sample list" where
  "eventSamples o1 cn ci events =
     map (\<lambda>(severity, count). sample ''powerscale_active_events'' (severityLabels cn ci severity) (f64_of_int count))
         (range_map o1 events)"

definition dedupeSamples :: "string \<Rightarrow> string \<Rightarrow> DedupeSummary \<Rightarrow> Sample list" where
  "dedupeSamples cn ci d =
     (let base = baseLabels cn ci
      in [sample ''powerscale_dedupe_logical_saved_bytes'' base (dd_LogicalSavedBytes d),
          sample ''powerscale_dedupe_deduplicated_bytes'' base (dd_DeduplicatedBytes d)])"

definition driveSamples :: "string \<Rightarrow> string \<Rightarrow> Statistics option \<Rightarrow> Sample list" where
  "driveSamples cn ci st = (case st of None \<Rightarrow> [] | Some st \<Rightarrow> concat (map (\<lambda>d.
     (let labels = driveStatLabels cn ci (Itoa (dr_Node d)) (dr_Bay d) (dr_Type d)
      in [sample ''powerscale_drive_operations_per_second'' labels (dr_OpsPerSec d),
          sample ''powerscale_drive_busy_percent'' labels (dr_BusyPercent d)])) (st_Drives st)))"

definition clientSamples :: "string \<Rightarrow> string \<Rightarrow> Statistics option \<Rightarrow> Sample list" where
  "clientSamples cn ci st = (case st of None \<Rightarrow> [] | Some st \<Rightarrow> concat (map (\<lambda>c.
     (let labels = clientLabels cn ci (Itoa (cl_Node c)) (cl_Protocol c) (cl_Class c)
      in [sample ''powerscale_client_operations_per_second'' labels (cl_OpsPerSec c),
          sample ''powerscale_client_in_bytes_per_second'' labels (cl_InBps c),
          sample ''powerscale_client_out_bytes_per_second'' labels (cl_OutBps c)])) (st_Clients st)))"

definition workloadSamples :: "string \<Rightarrow> string \<Rightarrow> Statistics option \<Rightarrow> Sample list" where
  "workloadSamples cn ci st = (case st of None \<Rightarrow> [] | Some st \<Rightarrow> concat (map (\<lambda>w.
     (let labels = workloadLabels cn ci (Itoa (wl_Node w)) (wl_Zone w) (wl_Protocol w) (wl_Username w)
                     (wl_SystemName w) (wl_JobType w)
      in [sample ''powerscale_workload_operations_per_second'' labels (wl_Ops w),
          sample ''powerscale_workload_in_bytes_per_second'' labels (wl_BytesIn w),
          sample ''powerscale_workload_out_bytes_per_second'' labels (wl_BytesOut w),
          sample ''powerscale_workload_cpu_seconds_per_second'' labels (wl_CPUMicros w div microsPerSecond)]))
     (st_Workloads st)))"

definition countSamples :: "string \<Rightarrow> string \<Rightarrow> Counts \<Rightarrow> Sample list" where
  "countSamples cn ci c =
     (let base = baseLabels cn ci
      in [sample ''powerscale_nfs_exports'' base (f64_of_int (ct_NFSExports c)),
          sample ''powerscale_smb_shares'' base (f64_of_int (ct_SMBShares c)),
          sample ''powerscale_snapshots'' base (f64_of_int (ct_Snapshots c))])"

definition proto_samples1 :: "string \<Rightarrow> string \<Rightarrow> ProtoStat \<Rightarrow> Sample list" where
  "proto_samples1 cn ci p =
     (let labels = protocolLabels cn ci (Itoa (pr_Node p)) (pr_Protocol p) (pr_Operation p)
      in [sample ''powerscale_protocol_operations_per_second'' labels (pr_OperationRate p),
          sample ''powerscale_protocol_latency_seconds'' labels (pr_LatencyAvg p div microsPerSecond)]
         @ concat (map (\<lambda>stage.
             (case map_of (pr_StageAvg p) stage of
                Some v \<Rightarrow> [sample ''powerscale_protocol_latency_stage_seconds''
                              (labels @ [label ''stage'' stage]) (v div microsPerSecond)]
              | None \<Rightarrow> [])) ProtocolStages))"

definition protoSamples :: "string \<Rightarrow> string \<Rightarrow> Statistics option \<Rightarrow> Sample list" where
  "protoSamples cn ci st =
     (case st of None \<Rightarrow> [] | Some st \<Rightarrow> concat (map (proto_samples1 cn ci) (st_Proto st)))"

definition lnn_by_dev_id :: "Node list \<Rightarrow> (int, int) gomap" where
  "lnn_by_dev_id nodes = foldl (\<lambda>m n. AList.update (nd_ID n) (nd_LNN n) m) [] nodes"

text \<open>The run's first loop over a map is the first node's drives; the events come after the
  last node.\<close>

definition BuildSamples :: "order \<Rightarrow> string \<Rightarrow> Inventory option \<Rightarrow> Statistics option \<Rightarrow> Sample list" where
  "BuildSamples ord cn ivt st =
     (case ivt of None \<Rightarrow> []
      | Some iv \<Rightarrow>
         (let ci = ci_GUID (iv_Cluster iv); lnns = lnn_by_dev_id (iv_Nodes iv)
          in statSamples cn ci st lnns
             @ quotaSamples cn ci (iv_Quotas iv)
             @ countSamples cn ci (iv_Counts iv)
             @ protoSamples cn ci st
             @ nodeHealthSamples ord 0 cn ci (iv_Nodes iv)
             @ hardwareSamples cn ci (iv_Nodes iv)
             @ snapshotSamples cn ci (iv_Snapshot iv)
             @ syncSamples cn ci (iv_SyncPolicies iv)
             @ eventSamples (ord (length (iv_Nodes iv))) cn ci (iv_Events iv)
             @ dedupeSamples cn ci (iv_Dedupe iv)
             @ licenseSamples cn ci (iv_Licenses iv)
             @ storagePoolSamples cn ci (iv_StoragePools iv)
             @ driveSamples cn ci st
             @ clientSamples cn ci st
             @ workloadSamples cn ci st))"

section \<open>The schema of the exported metrics\<close>

definition base_names :: "string list" where
  "base_names = [''cluster'', ''cluster_id'']"

text \<open>Every metric the builders name literally, with its label names.\<close>

definition static_schema :: "(string \<times> string list) list" where
  "static_schema =
     map (\<lambda>m. (m, base_names @ [''quota_id'', ''quota_path'', ''quota_type'']))
       [''powerscale_quota_usage_bytes'', ''powerscale_quota_application_usage_bytes'',
        ''powerscale_quota_physical_usage_bytes'', ''powerscale_quota_reduction_ratio'',
        ''powerscale_quota_hard_threshold_bytes'', ''powerscale_quota_soft_threshold_bytes'',
        ''powerscale_quota_advisory_threshold_bytes'']
     @ map (\<lambda>m. (m, base_names))
       [''powerscale_nfs_exports'', ''powerscale_smb_shares'', ''powerscale_snapshots'',
        ''powerscale_snapshot_used_bytes'', ''powerscale_dedupe_logical_saved_bytes'',
        ''powerscale_dedupe_deduplicated_bytes'']
     @ map (\<lambda>m. (m, base_names @ [''node'']))
       [''powerscale_node_readonly'', ''powerscale_node_smartfail'', ''powerscale_node_power_supplies'',
        ''powerscale_node_power_supply_failures'']
     @ [(''powerscale_node_drives'', base_names @ [''node'', ''state'']),
        (''powerscale_node_hardware_info'', base_names @ [''node'', ''product'', ''series'', ''hwgen'']),
        (''powerscale_node_temperature_celsius'', base_names @ [''node'', ''sensor'']),
        (''powerscale_node_fan_speed_rpm'', base_names @ [''node'', ''sensor'']),
        (''powerscale_synciq_policy_enabled'', base_names @ [''policy'']),
        (''powerscale_synciq_last_run_failed'', base_names @ [''policy'']),
        (''powerscale_license_expiration_timestamp_seconds'', base_names @ [''name'']),
        (''powerscale_license_active'', base_names @ [''name'', ''status'']),
        (''powerscale_active_events'', base_names @ [''severity'']),
        (''powerscale_protocol_operations_per_second'', base_names @ [''node'', ''protocol'', ''op'']),
        (''powerscale_protocol_latency_seconds'', base_names @ [''node'', ''protocol'', ''op'']),
        (''powerscale_protocol_latency_stage_seconds'', base_names @ [''node'', ''protocol'', ''op'', ''stage'']),
        (''powerscale_drive_operations_per_second'', base_names @ [''node'', ''bay'', ''type'']),
        (''powerscale_drive_busy_percent'', base_names @ [''node'', ''bay'', ''type''])]
     @ map (\<lambda>m. (m, base_names @ [''pool'', ''type'']))
       [''powerscale_storagepool_total_capacity_bytes'', ''powerscale_storagepool_used_capacity_bytes'',
        ''powerscale_storagepool_available_capacity_bytes'', ''powerscale_storagepool_ssd_total_capacity_bytes'',
        ''powerscale_storagepool_ssd_used_capacity_bytes'', ''powerscale_storagepool_ssd_available_capacity_bytes'',
        ''powerscale_storagepool_hdd_total_capacity_bytes'', ''powerscale_storagepool_hdd_used_capacity_bytes'',
        ''powerscale_storagepool_hdd_available_capacity_bytes'']
     @ map (\<lambda>m. (m, base_names @ [''node'', ''protocol'', ''class'']))
       [''powerscale_client_operations_per_second'', ''powerscale_client_in_bytes_per_second'',
        ''powerscale_client_out_bytes_per_second'']
     @ map (\<lambda>m. (m, base_names @ [''node'', ''zone'', ''protocol'', ''username'', ''system_name'', ''job_type'']))
       [''powerscale_workload_operations_per_second'', ''powerscale_workload_in_bytes_per_second'',
        ''powerscale_workload_out_bytes_per_second'', ''powerscale_workload_cpu_seconds_per_second'']"

text \<open>The metrics of the statistics table: their scope decides.\<close>

definition spec_schema :: "StatKeySpec \<Rightarrow> string \<times> string list" where
  "spec_schema s =
     (sk_Metric s, if sk_Scope s = ''node'' then base_names @ [''node''] else base_names)"

definition metric_schema :: "(string \<times> string list) list" where
  "metric_schema = static_schema @ map spec_schema statKeySpecs"

definition conforms :: "Sample \<Rightarrow> bool" where
  "conforms s \<longleftrightarrow> map_of metric_schema (sm_Name s) = Some (map lb_Name (sm_Labels s))"

lemma distinct_metric_names: "distinct (map fst metric_schema)"
  by code_simp

lemma conformsI: "(sm_Name s, map lb_Name (sm_Labels s)) \<in> set metric_schema \<Longrightarrow> conforms s"
  unfolding conforms_def using distinct_metric_names by simp

text \<open>A conforming literal sample is found in the schema by evaluation.\<close>

lemmas schema_eval = conformsI metric_schema_def static_schema_def base_names_def label_simps

lemma conforms_spec:
  assumes "map_of statKeyByKey k = Some s"
  shows "conforms (sample (sk_Metric s)
           (if sk_Scope s = ''node'' then nodeLabels cn ci lnn else baseLabels cn ci) v)"
proof (rule conformsI)
  have "s \<in> set statKeySpecs" using assms unfolding statKeyByKey_def by (blast dest: index_specs_in)
  then have "spec_schema s \<in> set metric_schema" by (simp add: metric_schema_def)
  then show "(sm_Name (sample (sk_Metric s)
        (if sk_Scope s = ''node'' then nodeLabels cn ci lnn else baseLabels cn ci) v),
      map lb_Name (sm_Labels (sample (sk_Metric s)
        (if sk_Scope s = ''node'' then nodeLabels cn ci lnn else baseLabels cn ci) v)))
     \<in> set metric_schema"
    by (auto simp: spec_schema_def base_names_def label_simps)
qed

lemma stat_conforms: "list_all conforms (statSamples cn ci st lnns)"
proof (cases st)
  case (Some s)
  have "list_all conforms (stat_loop cn ci lnns ps)" for ps
  proof (induction ps)
    case (Cons p ps)
    then show ?case
      using conforms_spec [where cn = cn and ci = ci]
      by (fastforce split: option.splits if_splits)
  qed simp
  with Some show ?thesis by (simp add: statSamples_def)
qed (simp add: statSamples_def)

lemma quota_conforms: "list_all conforms (quotaSamples cn ci qs)"
  by (auto simp add: quotaSamples_def quota_samples1_def list_all_iff Let_def schema_eval)

lemma node_health_conforms: "list_all conforms (nodeHealthSamples ord i cn ci ns)"
  by (induction ord i cn ci ns rule: nodeHealthSamples.induct)
    (auto simp add: Let_def list_all_iff schema_eval)

lemma hardware_conforms: "list_all conforms (hardwareSamples cn ci ns)"
  by (auto simp add: hardwareSamples_def hardware_samples1_def hardwareInfoSample_def list_all_iff Let_def
      schema_eval split: if_splits)

lemma snapshot_conforms: "list_all conforms (snapshotSamples cn ci s)"
  by (auto simp: snapshotSamples_def schema_eval)

lemma sync_conforms: "list_all conforms (syncSamples cn ci ps)"
  by (auto simp: syncSamples_def list_all_iff Let_def schema_eval)

lemma event_conforms: "list_all conforms (eventSamples o1 cn ci es)"
  by (auto simp: eventSamples_def list_all_iff schema_eval split: prod.split)

lemma dedupe_conforms: "list_all conforms (dedupeSamples cn ci d)"
  by (auto simp: dedupeSamples_def Let_def schema_eval)

lemma license_conforms: "list_all conforms (licenseSamples cn ci ls)"
  by (auto simp: licenseSamples_def list_all_iff schema_eval)

lemma pool_conforms: "list_all conforms (storagePoolSamples cn ci ps)"
  by (auto simp: storagePoolSamples_def list_all_iff Let_def schema_eval)

lemma drive_conforms: "list_all conforms (driveSamples cn ci st)"
  by (cases st) (auto simp: driveSamples_def list_all_iff Let_def schema_eval)

lemma client_conforms: "list_all conforms (clientSamples cn ci st)"
  by (cases st) (auto simp: clientSamples_def list_all_iff Let_def schema_eval)

lemma workload_conforms: "list_all conforms (workloadSamples cn ci st)"
  by (cases st) (auto simp: workloadSamples_def list_all_iff Let_def schema_eval)

lemma count_conforms: "list_all conforms (countSamples cn ci c)"
  by (auto simp: countSamples_def Let_def schema_eval)

lemma proto_conforms: "list_all conforms (protoSamples cn ci st)"
  by (cases st) (auto simp: protoSamples_def proto_samples1_def list_all_iff Let_def schema_eval)

lemmas builders_conform =
  stat_conforms quota_conforms node_health_conforms hardware_conforms snapshot_conforms
  sync_conforms event_conforms dedupe_conforms license_conforms pool_conforms drive_conforms
  client_conforms workload_conforms count_conforms proto_conforms

lemma samples_conform: "list_all conforms (BuildSamples ord cn ivt st)"
  by (simp add: BuildSamples_def builders_conform Let_def split: option.split)

section \<open>Every sample names its cluster\<close>

definition of_cluster :: "string \<Rightarrow> string \<Rightarrow> Sample \<Rightarrow> bool" where
  "of_cluster cn ci s \<longleftrightarrow> take 2 (sm_Labels s) = baseLabels cn ci"

lemma stat_of_cluster: "list_all (of_cluster cn ci) (statSamples cn ci st lnns)"
proof (cases st)
  case (Some s)
  have "list_all (of_cluster cn ci) (stat_loop cn ci lnns ps)" for ps
    by (induction ps) (auto simp: of_cluster_def label_simps split: option.splits)
  with Some show ?thesis by (simp add: statSamples_def)
qed (simp add: statSamples_def)

lemma node_health_of_cluster: "list_all (of_cluster cn ci) (nodeHealthSamples ord i cn ci ns)"
  by (induction ord i cn ci ns rule: nodeHealthSamples.induct)
    (auto simp add: Let_def list_all_iff of_cluster_def label_simps)

lemma hardware_of_cluster: "list_all (of_cluster cn ci) (hardwareSamples cn ci ns)"
  by (auto simp add: hardwareSamples_def hardware_samples1_def hardwareInfoSample_def list_all_iff Let_def
      of_cluster_def label_simps)

lemma quota_of_cluster: "list_all (of_cluster cn ci) (quotaSamples cn ci qs)"
  by (auto simp add: quotaSamples_def quota_samples1_def list_all_iff Let_def of_cluster_def label_simps)

lemma inventory_of_cluster:
  "list_all (of_cluster cn ci) (snapshotSamples cn ci s)"
  "list_all (of_cluster cn ci) (syncSamples cn ci ps)"
  "list_all (of_cluster cn ci) (eventSamples o1 cn ci es)"
  "list_all (of_cluster cn ci) (dedupeSamples cn ci d)"
  "list_all (of_cluster cn ci) (licenseSamples cn ci ls)"
  "list_all (of_cluster cn ci) (storagePoolSamples cn ci pools)"
  "list_all (of_cluster cn ci) (countSamples cn ci c)"
  by (auto simp add: snapshotSamples_def syncSamples_def eventSamples_def dedupeSamples_def
      licenseSamples_def storagePoolSamples_def countSamples_def list_all_iff Let_def of_cluster_def
      label_simps split: prod.split)

lemma statistics_of_cluster:
  "list_all (of_cluster cn ci) (driveSamples cn ci st)"
  "list_all (of_cluster cn ci) (clientSamples cn ci st)"
  "list_all (of_cluster cn ci) (workloadSamples cn ci st)"
  "list_all (of_cluster cn ci) (protoSamples cn ci st)"
  by (cases st; auto simp: driveSamples_def clientSamples_def workloadSamples_def protoSamples_def
      proto_samples1_def list_all_iff Let_def of_cluster_def label_simps split: option.splits)+

lemmas builders_of_cluster =
  stat_of_cluster node_health_of_cluster hardware_of_cluster quota_of_cluster inventory_of_cluster
  statistics_of_cluster

text \<open>C3: Every sample built for a cluster has one of the metric names of the schema with exactly
  that name's label names, in their order, and its first two labels are the configured cluster
  name and the cluster's GUID, for every inventory, all statistics and every map order; without
  an inventory there is no sample.\<close>

theorem BuildSamples_schema:
  "list_all (\<lambda>s. conforms s
      \<and> (\<exists>iv. ivt = Some iv \<and> take 2 (sm_Labels s) = baseLabels cn (ci_GUID (iv_Cluster iv))))
    (BuildSamples ord cn ivt st)"
proof (cases ivt)
  case (Some iv)
  have "list_all (of_cluster cn (ci_GUID (iv_Cluster iv))) (BuildSamples ord cn ivt st)"
    by (simp add: Some BuildSamples_def builders_of_cluster Let_def)
  with samples_conform [of ord cn ivt st] show ?thesis
    by (simp add: Some list_all_iff of_cluster_def)
qed (simp add: BuildSamples_def)

section \<open>Statistics keys\<close>

lemma lnn_by_dev_id_lookup:
  "map_of (lnn_by_dev_id nodes) d = map_option nd_LNN (find (\<lambda>n. nd_ID n = d) (rev nodes))"
  by (induction nodes rule: rev_induct) (auto simp: lnn_by_dev_id_def update_conv')

text \<open>The table has one row per key, so the index is the table.\<close>

lemma distinct_stat_keys: "distinct (map sk_Key statKeySpecs)"
  by code_simp

lemma statKeyByKey_iff: "map_of statKeyByKey k = Some s \<longleftrightarrow> s \<in> set statKeySpecs \<and> sk_Key s = k"
proof
  assume "s \<in> set statKeySpecs \<and> sk_Key s = k"
  then have s: "s \<in> set (rev statKeySpecs)" "sk_Key s = k" by simp_all
  then obtain s' where s': "find (\<lambda>s. sk_Key s = k) (rev statKeySpecs) = Some s'"
    by (metis (mono_tags, lifting) find_None_iff option.exhaust)
  then have "s' \<in> set (rev statKeySpecs)" "sk_Key s' = k" by (auto dest: find_SomeD)
  then have "s' = s" using s distinct_stat_keys by (auto simp: distinct_map inj_on_def)
  with s' show "map_of statKeyByKey k = Some s" by (simp add: statKeyByKey_def map_of_index_specs)
qed (auto simp: statKeyByKey_def dest: index_specs_in)

definition stat_sample :: "string \<Rightarrow> string \<Rightarrow> Node list \<Rightarrow> StatKeySpec \<Rightarrow> StatPoint \<Rightarrow> Sample option" where
  "stat_sample cn ci nodes s p =
     (if sk_Scope s = ''node'' then
        map_option (\<lambda>n. sample (sk_Metric s) (nodeLabels cn ci (Itoa (nd_LNN n))) (scale s (pt_Value p)))
          (find (\<lambda>n. nd_ID n = pt_DevID p) (rev nodes))
      else Some (sample (sk_Metric s) (baseLabels cn ci) (scale s (pt_Value p))))"

lemma stat_loop_Cons:
  "stat_loop cn ci (lnn_by_dev_id nodes) (p # ps) =
     (case Option.bind (map_of statKeyByKey (pt_Key p)) (\<lambda>s. stat_sample cn ci nodes s p) of
        None \<Rightarrow> [] | Some x \<Rightarrow> [x]) @ stat_loop cn ci (lnn_by_dev_id nodes) ps"
  by (simp add: stat_sample_def lnn_by_dev_id_lookup split: option.split)

lemma stat_loop_mem:
  "x \<in> set (stat_loop cn ci (lnn_by_dev_id nodes) ps) \<longleftrightarrow>
     (\<exists>p \<in> set ps. \<exists>s \<in> set statKeySpecs. sk_Key s = pt_Key p \<and> stat_sample cn ci nodes s p = Some x)"
proof (induction ps)
  case (Cons p ps)
  have "x \<in> set (case Option.bind (map_of statKeyByKey (pt_Key p)) (\<lambda>s. stat_sample cn ci nodes s p) of
        None \<Rightarrow> [] | Some x \<Rightarrow> [x]) \<longleftrightarrow>
      (\<exists>s \<in> set statKeySpecs. sk_Key s = pt_Key p \<and> stat_sample cn ci nodes s p = Some x)"
  proof (cases "map_of statKeyByKey (pt_Key p)")
    case None
    then have "s \<in> set statKeySpecs \<Longrightarrow> sk_Key s \<noteq> pt_Key p" for s
      using statKeyByKey_iff [of "pt_Key p" s] by auto
    then have "\<not> (\<exists>s \<in> set statKeySpecs. sk_Key s = pt_Key p \<and> stat_sample cn ci nodes s p = Some x)"
      by blast
    moreover have "x \<notin> set (case Option.bind (map_of statKeyByKey (pt_Key p)) (\<lambda>s. stat_sample cn ci nodes s p) of
        None \<Rightarrow> [] | Some x \<Rightarrow> [x])" using None by simp
    ultimately show ?thesis by blast
  next
    case (Some s)
    then have "(\<exists>s' \<in> set statKeySpecs. sk_Key s' = pt_Key p \<and> stat_sample cn ci nodes s' p = Some x) \<longleftrightarrow>
        stat_sample cn ci nodes s p = Some x"
      using statKeyByKey_iff [of "pt_Key p"] by (metis option.inject)
    with Some show ?thesis by (cases "stat_sample cn ci nodes s p") auto
  qed
  with Cons show ?case unfolding stat_loop_Cons set_append Un_iff by simp
qed simp

text \<open>C25: The statistics samples of a cluster are exactly the readings of curated keys: each
  reading whose key has a row in the table gives that row's metric with the scaled value, a
  cluster-scope key under the cluster labels, a node-scope key under the label of the node (the
  inventory's last) with the reading's device id; a node-scope reading whose device id no node has
  gives nothing. And the keys the exporter asks the API for are exactly the keys of the table.\<close>

theorem statSamples_exact:
  "set (statSamples cn ci (Some st) (lnn_by_dev_id nodes)) =
     {x. \<exists>p \<in> set (st_Current st). \<exists>s \<in> set statKeySpecs.
        sk_Key s = pt_Key p \<and> stat_sample cn ci nodes s p = Some x}
   \<and> distinct QueryKeys \<and> set QueryKeys = sk_Key ` set statKeySpecs"
proof -
  have "set (statSamples cn ci (Some st) (lnn_by_dev_id nodes)) =
     {x. \<exists>p \<in> set (st_Current st). \<exists>s \<in> set statKeySpecs.
        sk_Key s = pt_Key p \<and> stat_sample cn ci nodes s p = Some x}"
    by (rule set_eqI) (simp only: statSamples_def option.case stat_loop_mem mem_Collect_eq)
  moreover have "QueryKeys = map sk_Key statKeySpecs"
    unfolding QueryKeys_def query_keys_nub using distinct_stat_keys by (simp add: nub_by_distinct_id)
  ultimately show ?thesis using distinct_stat_keys by (metis list.set_map)
qed

text \<open>Scaling rounds once: the value exported for a key in permille is the double nearest to a
  tenth of the reading.\<close>

lemma scale_divisor: "s \<in> set statKeySpecs \<Longrightarrow> sk_Divisor s = Fin False 0 \<or> sk_Divisor s = Fin False 10"
  by (auto simp: statKeySpecs_def spec_def)

lemma percent_divisor:
  "list_all (\<lambda>s. (sk_Divisor s = Fin False 10) = (drop (length (sk_Metric s) - 8) (sk_Metric s) = ''_percent''))
     statKeySpecs"
  by code_simp

lemma rnd_mag_below:
  assumes "0 < x" and "rnd_mag x = x" and "x < 2 ^ 1024"
  shows "rnd_mag (x / 10) < 2 ^ 1024"
proof -
  have "is_double x" using assms(2) is_double_rnd_mag [of x] by simp
  then have "\<bar>rnd_mag (x / 10) - x / 10\<bar> \<le> \<bar>x - x / 10\<bar>"
    using rnd_mag_nearest [of "x / 10" x] assms(1) by simp
  then have "rnd_mag (x / 10) \<le> x" using assms(1) by linarith
  with assms(3) show ?thesis by simp
qed

text \<open>C34: Scaling: a row without divisor exports the reading unchanged; a row with one (the rows
  of the \<open>_percent\<close> metrics, and only those) exports, for every finite reading, a finite double
  of the same sign that no other double beats as an approximation of a tenth of the reading.\<close>

theorem scale_nearest:
  assumes "s \<in> set statKeySpecs" and "wf_f64 (Fin n x)" and "0 \<le> x" and "is_double y"
  shows "if drop (length (sk_Metric s) - 8) (sk_Metric s) = ''_percent''
    then (\<exists>q. scale s (Fin n x) = Fin n q \<and> is_double q \<and> \<bar>q - x / 10\<bar> \<le> \<bar>y - x / 10\<bar>)
    else scale s (Fin n x) = Fin n x"
proof (cases "sk_Divisor s = Fin False 10")
  case True
  have wf: "rnd_mag x = x" "x < 2 ^ 1024" using assms(2) by simp_all
  have "rnd_mag (x / 10) < 2 ^ 1024"
  proof (cases "x = 0")
    case False
    with wf assms(3) show ?thesis by (intro rnd_mag_below) simp_all
  qed (simp add: rnd_mag_def)
  then have "scale s (Fin n x) = Fin n (rnd_mag (x / 10))"
    by (simp add: scale_def True is_zero.simps divide_f64_def mk_def Let_def)
  moreover have "\<bar>rnd_mag (x / 10) - x / 10\<bar> \<le> \<bar>y - x / 10\<bar>"
  proof (cases "x = 0")
    case False
    with assms(3,4) show ?thesis by (intro rnd_mag_nearest) simp_all
  qed (simp add: rnd_mag_def)
  moreover have "drop (length (sk_Metric s) - 8) (sk_Metric s) = ''_percent''"
    using percent_divisor assms(1) True by (simp add: list_all_iff)
  ultimately show ?thesis using is_double_rnd_mag by auto
next
  case False
  then have "sk_Divisor s = Fin False 0" using scale_divisor [OF assms(1)] by blast
  then have "scale s (Fin n x) = Fin n x" by (simp add: scale_def)
  moreover have "drop (length (sk_Metric s) - 8) (sk_Metric s) \<noteq> ''_percent''"
    using percent_divisor assms(1) False by (simp add: list_all_iff)
  ultimately show ?thesis by simp
qed

theorem scale_nearest_witness:
  "\<exists>q. scale (hd statKeySpecs) (Fin False 41) = Fin False q \<and> is_double q
     \<and> \<bar>q - 41 / 10\<bar> \<le> \<bar>4 - 41 / 10\<bar>"
proof -
  have "hd statKeySpecs \<in> set statKeySpecs" by (simp add: statKeySpecs_def)
  moreover have "wf_f64 (Fin False 41)" by code_simp
  moreover have "is_double 4"
    unfolding is_double_def by (rule exI [of _ 1], rule exI [of _ 2]) (simp add: pow2_def)
  moreover have "drop (length (sk_Metric (hd statKeySpecs)) - 8) (sk_Metric (hd statKeySpecs)) = ''_percent''"
    by code_simp
  ultimately show ?thesis using scale_nearest [of "hd statKeySpecs" False 41 4] by simp
qed

section \<open>Drives, events and quotas, from the raw reply to the samples\<close>

lemma count_drives_filter: "count_drives m ds = foldl (\<lambda>m d. map_incr (drive_state d) m) m (filter drive_present ds)"
  by (induction m ds rule: count_drives.induct) auto

lemma count_drives_by: "count_drives [] ds = count_by drive_state (filter drive_present ds)"
  by (simp add: count_by_def count_drives_filter)

lemma count_events_by:
  "count_events [] es = count_by event_severity (filter (\<lambda>e. \<not> re_Resolved e) es)"
proof -
  have "count_events m es = foldl (\<lambda>m e. map_incr (event_severity e) m) m (filter (\<lambda>e. \<not> re_Resolved e) es)" for m
    by (induction m es rule: count_events.induct) auto
  then show ?thesis by (simp add: count_by_def)
qed

lemma node_of_sel [simp]:
  "nd_LNN (node_of n) = rn_LNN n" "nd_DrivesByState (node_of n) = count_drives [] (rn_Drives n)"
  by (simp_all add: node_of_def split: prod.split)

text \<open>C26: Drive health of a node, from the raw reply to the samples: one
  \<open>powerscale_node_drives\<close> series per state that some present drive is in, with the number of
  present drives in that state (a drive without a state counts as \<open>UNKNOWN\<close>, a bay reported absent
  does not count), in whatever order the runtime visits the map.\<close>

theorem node_drives_counted:
  assumes "is_order ord"
  shows "mset (filter (\<lambda>s. sm_Name s = ''powerscale_node_drives'')
            (nodeHealthSamples ord i cn ci [node_of n])) =
    image_mset (\<lambda>st. sample ''powerscale_node_drives'' (driveLabels cn ci (Itoa (rn_LNN n)) st)
        (f64_of_int (int (length (filter (\<lambda>d. drive_present d \<and> drive_state d = st) (rn_Drives n))))))
      (mset_set (drive_state ` set (filter drive_present (rn_Drives n))))"
proof -
  let ?ds = "filter drive_present (rn_Drives n)"
  let ?g = "\<lambda>(st, c). sample ''powerscale_node_drives'' (driveLabels cn ci (Itoa (rn_LNN n)) st) (f64_of_int c)"
  have "filter (\<lambda>s. sm_Name s = ''powerscale_node_drives'') (nodeHealthSamples ord i cn ci [node_of n]) =
      map ?g (range_map (ord i) (count_by drive_state ?ds))"
    by (auto simp: Let_def count_drives_by split: prod.split intro!: filter_True)
  then have "mset (filter (\<lambda>s. sm_Name s = ''powerscale_node_drives'')
      (nodeHealthSamples ord i cn ci [node_of n])) = image_mset ?g (mset (count_by drive_state ?ds))"
    by (simp add: mset_range_map [OF assms])
  also have "\<dots> = image_mset (\<lambda>st. ?g (st, int (length (filter (\<lambda>d. drive_state d = st) ?ds))))
      (mset_set (drive_state ` set ?ds))"
    by (simp add: mset_count_by image_mset.compositionality comp_def)
  finally show ?thesis by (simp add: conj_commute)
qed

theorem node_drives_counted_witness:
  "mset (filter (\<lambda>s. sm_Name s = ''powerscale_node_drives'')
      (nodeHealthSamples id_order 0 ''c'' ''g'' [node_of (zero_rawNode\<lparr>rn_LNN := 3, rn_Drives :=
        [\<lparr>rd_UIState = ''HEALTHY'', rd_Present = None\<rparr>, \<lparr>rd_UIState = [], rd_Present = Some True\<rparr>,
         \<lparr>rd_UIState = ''HEALTHY'', rd_Present = Some True\<rparr>, \<lparr>rd_UIState = ''HEALTHY'', rd_Present = Some False\<rparr>]\<rparr>)])) =
    {# sample ''powerscale_node_drives'' (driveLabels ''c'' ''g'' ''3'' ''UNKNOWN'') (f64_of_int 1),
       sample ''powerscale_node_drives'' (driveLabels ''c'' ''g'' ''3'' ''HEALTHY'') (f64_of_int 2) #}"
proof -
  have "Itoa 3 = ''3''" by code_simp
  then show ?thesis
    by (subst node_drives_counted [OF is_order_id])
      (simp add: zero_rawNode_def drive_present_def drive_state_def)
qed

text \<open>Active events: one \<open>powerscale_active_events\<close> series per severity that some unresolved
  event group has (\<open>unknown\<close> for an empty one), with the number of those groups; resolved groups
  never count.\<close>

lemma active_events_counted:
  assumes "is_order ord"
  shows "mset (eventSamples (ord i) cn ci (count_events [] es)) =
    image_mset (\<lambda>sev. sample ''powerscale_active_events'' (severityLabels cn ci sev)
        (f64_of_int (int (length (filter (\<lambda>e. \<not> re_Resolved e \<and> event_severity e = sev) es)))))
      (mset_set (event_severity ` set (filter (\<lambda>e. \<not> re_Resolved e) es)))"
proof -
  let ?es = "filter (\<lambda>e. \<not> re_Resolved e) es"
  let ?g = "\<lambda>(sev, c). sample ''powerscale_active_events'' (severityLabels cn ci sev) (f64_of_int c)"
  have "mset (eventSamples (ord i) cn ci (count_events [] es)) =
      image_mset ?g (mset (count_by event_severity ?es))"
    by (simp add: eventSamples_def count_events_by mset_range_map [OF assms])
  also have "\<dots> = image_mset (\<lambda>sev. ?g (sev, int (length (filter (\<lambda>e. event_severity e = sev) ?es))))
      (mset_set (event_severity ` set ?es))"
    by (simp add: mset_count_by image_mset.compositionality comp_def)
  finally show ?thesis by (simp add: conj_commute)
qed

text \<open>A quota threshold is a series exactly when the API reports a positive threshold: an
  absent or \<open>null\<close> threshold, zero and a negative number give none, so no quota without a limit
  looks like one with limit 0.\<close>

lemma quota_thresholds:
  "let ss = quotaSamples cn ci [quota_of r]; ls = quotaLabels cn ci (rq_ID r) (rq_Path r) (rq_Type r);
       series = (\<lambda>m v. (case v of Some x \<Rightarrow> if is_pos x then [sample m ls x] else [] | None \<Rightarrow> []))
   in filter (\<lambda>s. sm_Name s = ''powerscale_quota_hard_threshold_bytes'') ss =
        series ''powerscale_quota_hard_threshold_bytes'' (rq_Hard r)
    \<and> filter (\<lambda>s. sm_Name s = ''powerscale_quota_soft_threshold_bytes'') ss =
        series ''powerscale_quota_soft_threshold_bytes'' (rq_Soft r)
    \<and> filter (\<lambda>s. sm_Name s = ''powerscale_quota_advisory_threshold_bytes'') ss =
        series ''powerscale_quota_advisory_threshold_bytes'' (rq_Advisory r)"
  by (auto simp add: Let_def quotaSamples_def quota_samples1_def quota_of_def deref_def zero_f64_def
      split: option.split)

end
