(* ===== verification/Config.thy ===== *)
theory Config
  imports GoTime GoFloat
begin

text \<open>
  \<open>internal/models/config.go\<close>: the application configuration, its defaults, its validation and
  the getters the rest of the program uses.

  The Go methods mutate the receiver; here they return the new value. Every \<open>fmt.Errorf\<close> and
  \<open>errors.New\<close> is a constructor of \<open>config_error\<close> with the values the message quotes. Durations
  are nanoseconds. The configuration decoded from YAML is an input of this model.
\<close>

section \<open>The configuration\<close>

record EnvBool =
  eb_raw :: string
  eb_val :: bool

record ClusterConfig =
  cc_Name :: string
  cc_Endpoint :: string
  cc_Port :: int
  cc_Username :: string
  cc_Password :: string
  cc_PasswordFile :: string
  cc_InsecureSkipVerify :: EnvBool

record OTelExportConfig =
  oc_Enabled :: bool
  oc_Endpoint :: string
  oc_Insecure :: bool
  oc_Interval :: string
  oc_SamplingRate :: f64

record ServerSection =
  sv_Host :: string
  sv_Port :: string
  sv_URI :: string
  sv_LogName :: string

record CollectionSection =
  co_Interval :: string
  co_Timeout :: string

record OpenTelemetrySection =
  op_Metrics :: OTelExportConfig
  op_Tracing :: OTelExportConfig

record Config =
  cf_Server :: ServerSection
  cf_Collection :: CollectionSection
  cf_OpenTelemetry :: OpenTelemetrySection
  cf_Clusters :: "ClusterConfig list"

datatype config_error =
    MissingServerHost | InvalidServerPort string | MissingServerURI
  | InvalidInterval string | InvalidTimeout string
  | NoClusters | ClusterNameRequired nat | DuplicateCluster string
  | EndpointRequired string | ClusterPort string int | UsernameRequired string | PasswordRequired string
  | OTelEndpointRequired string | OTelEndpoint string string | OTelPort string string
  | OTelInterval string | SamplingRate f64
  | NotABoolean string
  | UnsetVariables "string list" | EmptyReference string | UnreadablePasswordFile string
  | ConfigNotFound string | ConfigUnreadable string | ConfigUndecodable string
  | InCluster string string config_error

section \<open>EnvBool and small methods\<close>

definition NewEnvBool :: "bool \<Rightarrow> EnvBool" where
  "NewEnvBool v = \<lparr>eb_raw = [], eb_val = v\<rparr>"

definition Bool :: "EnvBool \<Rightarrow> bool" where
  "Bool b = eb_val b"

definition Resolve :: "(string \<Rightarrow> config_error + string) \<Rightarrow> EnvBool \<Rightarrow> config_error + EnvBool" where
  "Resolve expand b =
     (if eb_raw b = [] then Inr b
      else res_bind (expand (eb_raw b)) (\<lambda>s0.
        let s = TrimSpace s0
        in if s = [] then Inr (b\<lparr>eb_val := False\<rparr>)
           else case ParseBool s of
                  None \<Rightarrow> Inl (NotABoolean s)
                | Some v \<Rightarrow> Inr (b\<lparr>eb_val := v\<rparr>)))"

text \<open>What the YAML node decodes to as a boolean and as a string, where it does; an error otherwise.\<close>

definition UnmarshalYAML :: "bool option \<Rightarrow> string option \<Rightarrow> EnvBool \<Rightarrow> EnvBool option" where
  "UnmarshalYAML as_bool as_string b =
     (case as_bool of
        Some v \<Rightarrow> Some (b\<lparr>eb_val := v\<rparr>)
      | None \<Rightarrow> map_option (\<lambda>s. b\<lparr>eb_raw := s\<rparr>) as_string)"

text \<open>A native boolean is never expanded; a text is, and decides the value when it is resolved.\<close>

lemma native_bool_kept:
  "UnmarshalYAML (Some v) as_string (NewEnvBool w) = Some b \<Longrightarrow> Resolve expand b = Inr b \<and> Bool b = v"
  by (auto simp: UnmarshalYAML_def Resolve_def NewEnvBool_def Bool_def)

lemma text_resolved:
  assumes "UnmarshalYAML None (Some s) (NewEnvBool False) = Some b" and "s \<noteq> []" and "expand s = Inr t"
  shows "case Resolve expand b of
      Inl e \<Rightarrow> e = NotABoolean (TrimSpace t) \<and> TrimSpace t \<noteq> [] \<and> ParseBool (TrimSpace t) = None
    | Inr b' \<Rightarrow> ParseBool (TrimSpace t) = Some (Bool b') \<or> TrimSpace t = [] \<and> \<not> Bool b'"
  using assms by (auto simp: UnmarshalYAML_def Resolve_def NewEnvBool_def Bool_def Let_def split: option.splits)

definition BaseURL :: "ClusterConfig \<Rightarrow> string" where
  "BaseURL c = ''https://'' @ cc_Endpoint c @ '':'' @ Itoa (cc_Port c)"

definition MaskPassword :: "ClusterConfig \<Rightarrow> string" where
  "MaskPassword c = (if cc_Password c = [] then [] else ''****'')"

section \<open>Defaults\<close>

definition or_default :: "string \<Rightarrow> string \<Rightarrow> string" where
  "or_default d s = (if s = [] then d else s)"

definition cluster_defaults :: "ClusterConfig \<Rightarrow> ClusterConfig" where
  "cluster_defaults cl = (if cc_Port cl = 0 then cl\<lparr>cc_Port := 8080\<rparr> else cl)"

definition SetDefaults :: "Config \<Rightarrow> Config" where
  "SetDefaults c =
     (let srv = (cf_Server c)\<lparr>sv_Host := or_default ''0.0.0.0'' (sv_Host (cf_Server c)),
                              sv_Port := or_default ''9444'' (sv_Port (cf_Server c)),
                              sv_URI := or_default ''/metrics'' (sv_URI (cf_Server c))\<rparr>;
          col = (cf_Collection c)\<lparr>co_Interval := or_default ''10s'' (co_Interval (cf_Collection c)),
                                  co_Timeout := or_default ''8s'' (co_Timeout (cf_Collection c))\<rparr>;
          met = (op_Metrics (cf_OpenTelemetry c))\<lparr>oc_Interval :=
                   or_default (co_Interval col) (oc_Interval (op_Metrics (cf_OpenTelemetry c)))\<rparr>
      in c\<lparr>cf_Server := srv, cf_Collection := col,
           cf_OpenTelemetry := (cf_OpenTelemetry c)\<lparr>op_Metrics := met\<rparr>,
           cf_Clusters := map cluster_defaults (cf_Clusters c)\<rparr>)"

section \<open>Validation\<close>

definition validatePort :: "string \<Rightarrow> bool" where
  "validatePort s = (case Atoi s of None \<Rightarrow> False | Some p \<Rightarrow> \<not> (p < 1 \<or> p > 65535))"

text \<open>The loop searches the last colon from the end.\<close>

fun last_colon :: "nat \<Rightarrow> string \<Rightarrow> nat option" where
  "last_colon 0 s = None"
| "last_colon (Suc i) s = (if s ! i = CHR '':'' then Some i else last_colon i s)"

definition splitHostPort :: "string \<Rightarrow> (string \<times> string) option" where
  "splitHostPort endpoint =
     (case last_colon (length endpoint) endpoint of
        None \<Rightarrow> None
      | Some i \<Rightarrow>
          (let host = take i endpoint; port = drop (i + 1) endpoint
           in if host = [] \<or> port = [] then None else Some (host, port)))"

definition validateServer :: "Config \<Rightarrow> config_error option" where
  "validateServer c =
     (if sv_Host (cf_Server c) = [] then Some MissingServerHost
      else if \<not> validatePort (sv_Port (cf_Server c)) then Some (InvalidServerPort (sv_Port (cf_Server c)))
      else if sv_URI (cf_Server c) = [] then Some MissingServerURI
      else None)"

definition validateCollection :: "Config \<Rightarrow> config_error option" where
  "validateCollection c =
     (if ParseDuration (co_Interval (cf_Collection c)) = None then
        Some (InvalidInterval (co_Interval (cf_Collection c)))
      else if ParseDuration (co_Timeout (cf_Collection c)) = None then
        Some (InvalidTimeout (co_Timeout (cf_Collection c)))
      else None)"

fun validate_clusters :: "nat \<Rightarrow> string list \<Rightarrow> ClusterConfig list \<Rightarrow> config_error option" where
  "validate_clusters i seen [] = None"
| "validate_clusters i seen (cl # cls) =
     (if cc_Name cl = [] then Some (ClusterNameRequired i)
      else if cc_Name cl \<in> set seen then Some (DuplicateCluster (cc_Name cl))
      else if cc_Endpoint cl = [] then Some (EndpointRequired (cc_Name cl))
      else if cc_Port cl < 1 \<or> cc_Port cl > 65535 then Some (ClusterPort (cc_Name cl) (cc_Port cl))
      else if cc_Username cl = [] then Some (UsernameRequired (cc_Name cl))
      else if cc_Password cl = [] \<and> cc_PasswordFile cl = [] then Some (PasswordRequired (cc_Name cl))
      else validate_clusters (i + 1) (cc_Name cl # seen) cls)"

definition validateClusters :: "Config \<Rightarrow> config_error option" where
  "validateClusters c =
     (if cf_Clusters c = [] then Some NoClusters else validate_clusters 0 [] (cf_Clusters c))"

text \<open>\<open>rate < 0.0 || rate > 1.0\<close>: a NaN is neither.\<close>

fun rate_out_of_range :: "f64 \<Rightarrow> bool" where
  "rate_out_of_range NaN = False"
| "rate_out_of_range (Inf neg) = True"
| "rate_out_of_range (Fin neg m) = (if neg then 0 < m else 1 < m)"

definition validateOTel :: "string \<Rightarrow> OTelExportConfig \<Rightarrow> config_error option" where
  "validateOTel name oc =
     (if \<not> oc_Enabled oc then None
      else if oc_Endpoint oc = [] then Some (OTelEndpointRequired name)
      else case splitHostPort (oc_Endpoint oc) of
          None \<Rightarrow> Some (OTelEndpoint name (oc_Endpoint oc))
        | Some (host, port) \<Rightarrow>
            (if host = [] then Some (OTelEndpoint name (oc_Endpoint oc))
             else if \<not> validatePort port then Some (OTelPort name port)
             else if name = ''metrics'' \<and> ParseDuration (oc_Interval oc) = None then
               Some (OTelInterval (oc_Interval oc))
             else if name = ''tracing'' \<and> rate_out_of_range (oc_SamplingRate oc) then
               Some (SamplingRate (oc_SamplingRate oc))
             else None))"

text \<open>The first error of a sequence of checks.\<close>

fun first_error :: "'e option list \<Rightarrow> 'e option" where
  "first_error [] = None"
| "first_error (None # es) = first_error es"
| "first_error (Some e # es) = Some e"

definition Validate :: "Config \<Rightarrow> config_error + Config" where
  "Validate c0 =
     (let c = SetDefaults c0
      in case first_error
             [validateServer c, validateCollection c, validateClusters c,
              validateOTel ''metrics'' (op_Metrics (cf_OpenTelemetry c)),
              validateOTel ''tracing'' (op_Tracing (cf_OpenTelemetry c))] of
           Some e \<Rightarrow> Inl e
         | None \<Rightarrow> Inr c)"

section \<open>Getters\<close>

definition mustDuration :: "string \<Rightarrow> int \<Rightarrow> int" where
  "mustDuration s fallback = (case ParseDuration s of None \<Rightarrow> fallback | Some d \<Rightarrow> d)"

definition GetServerAddress :: "Config \<Rightarrow> string" where
  "GetServerAddress c = sv_Host (cf_Server c) @ '':'' @ sv_Port (cf_Server c)"

definition GetCollectionInterval :: "Config \<Rightarrow> int" where
  "GetCollectionInterval c = mustDuration (co_Interval (cf_Collection c)) 10000000000"

definition GetCollectionTimeout :: "Config \<Rightarrow> int" where
  "GetCollectionTimeout c = mustDuration (co_Timeout (cf_Collection c)) 8000000000"

definition GetMetricsPushInterval :: "Config \<Rightarrow> int" where
  "GetMetricsPushInterval c =
     mustDuration (oc_Interval (op_Metrics (cf_OpenTelemetry c))) (GetCollectionInterval c)"

definition IsOTelMetricsEnabled :: "Config \<Rightarrow> bool" where
  "IsOTelMetricsEnabled c = oc_Enabled (op_Metrics (cf_OpenTelemetry c))"

definition IsOTelTracingEnabled :: "Config \<Rightarrow> bool" where
  "IsOTelTracingEnabled c = oc_Enabled (op_Tracing (cf_OpenTelemetry c))"

section \<open>Endpoints\<close>

lemma last_colon_Some:
  "last_colon n s = Some i \<longleftrightarrow> i < n \<and> s ! i = CHR '':'' \<and> (\<forall>j. i < j \<and> j < n \<longrightarrow> s ! j \<noteq> CHR '':'')"
  by (induction n s rule: last_colon.induct) (auto simp: less_Suc_eq)

text \<open>Splitting an endpoint: exactly the texts with a colon, something before the last colon
  and something after it split, and they split there; so \<open>[::1]:4317\<close> splits before the port.\<close>

lemma splitHostPort_iff:
  "splitHostPort s = Some (h, p) \<longleftrightarrow> s = h @ '':'' @ p \<and> h \<noteq> [] \<and> p \<noteq> [] \<and> CHR '':'' \<notin> set p"
proof
  assume "splitHostPort s = Some (h, p)"
  then obtain i where i: "last_colon (length s) s = Some i" "h = take i s" "p = drop (i + 1) s" "h \<noteq> []" "p \<noteq> []"
    by (auto simp: splitHostPort_def Let_def split: option.splits if_splits)
  then have at: "i < length s" "s ! i = CHR '':''" and last: "\<forall>j. i < j \<and> j < length s \<longrightarrow> s ! j \<noteq> CHR '':''"
    by (simp_all add: last_colon_Some)
  have "s = h @ '':'' @ p" using i at id_take_nth_drop [of i s] by simp
  moreover have "CHR '':'' \<notin> set p"
  proof
    assume "CHR '':'' \<in> set p"
    then obtain k where "k < length p" "p ! k = CHR '':''" by (auto simp: in_set_conv_nth)
    then show False using last i(3) at(1) by (auto dest!: spec [of _ "i + 1 + k"])
  qed
  ultimately show "s = h @ '':'' @ p \<and> h \<noteq> [] \<and> p \<noteq> [] \<and> CHR '':'' \<notin> set p" using i by simp
next
  assume s: "s = h @ '':'' @ p \<and> h \<noteq> [] \<and> p \<noteq> [] \<and> CHR '':'' \<notin> set p"
  have "last_colon (length s) s = Some (length h)"
    unfolding last_colon_Some using s
    by (auto simp: nth_append nth_Cons in_set_conv_nth split: nat.splits)
  with s show "splitHostPort s = Some (h, p)" by (simp add: splitHostPort_def)
qed

section \<open>What a valid configuration is\<close>

definition valid_cluster :: "ClusterConfig \<Rightarrow> bool" where
  "valid_cluster cl \<longleftrightarrow>
     cc_Name cl \<noteq> [] \<and> cc_Endpoint cl \<noteq> [] \<and> 1 \<le> cc_Port cl \<and> cc_Port cl \<le> 65535
     \<and> cc_Username cl \<noteq> [] \<and> (cc_Password cl \<noteq> [] \<or> cc_PasswordFile cl \<noteq> [])"

definition valid_port :: "string \<Rightarrow> bool" where
  "valid_port s \<longleftrightarrow> (\<exists>p. Atoi s = Some p \<and> 1 \<le> p \<and> p \<le> 65535)"

definition valid_endpoint :: "string \<Rightarrow> bool" where
  "valid_endpoint s \<longleftrightarrow> (\<exists>h p. s = h @ '':'' @ p \<and> h \<noteq> [] \<and> CHR '':'' \<notin> set p \<and> valid_port p)"

definition valid_config :: "Config \<Rightarrow> bool" where
  "valid_config c \<longleftrightarrow>
     sv_Host (cf_Server c) \<noteq> [] \<and> valid_port (sv_Port (cf_Server c)) \<and> sv_URI (cf_Server c) \<noteq> []
     \<and> ParseDuration (co_Interval (cf_Collection c)) \<noteq> None
     \<and> ParseDuration (co_Timeout (cf_Collection c)) \<noteq> None
     \<and> cf_Clusters c \<noteq> [] \<and> distinct (map cc_Name (cf_Clusters c)) \<and> list_all valid_cluster (cf_Clusters c)
     \<and> (let m = op_Metrics (cf_OpenTelemetry c)
        in oc_Enabled m \<longrightarrow> valid_endpoint (oc_Endpoint m) \<and> ParseDuration (oc_Interval m) \<noteq> None)
     \<and> (let t = op_Tracing (cf_OpenTelemetry c)
        in oc_Enabled t \<longrightarrow> valid_endpoint (oc_Endpoint t) \<and> \<not> rate_out_of_range (oc_SamplingRate t))"

lemma validatePort_iff: "validatePort s \<longleftrightarrow> valid_port s"
  by (auto simp: validatePort_def valid_port_def split: option.split)

lemma valid_port_nonempty: "valid_port s \<Longrightarrow> s \<noteq> []"
  by (auto simp: valid_port_def Atoi_def split_sign_def)

lemma valid_endpoint_iff:
  "valid_endpoint s \<longleftrightarrow> (\<exists>h p. splitHostPort s = Some (h, p) \<and> valid_port p)"
  unfolding valid_endpoint_def splitHostPort_iff using valid_port_nonempty by blast

lemma splitHostPort_host: "splitHostPort s = Some (h, p) \<Longrightarrow> h \<noteq> [] \<and> s \<noteq> []"
  by (auto simp: splitHostPort_iff)

lemma first_error_None: "first_error es = None \<longleftrightarrow> list_all (\<lambda>e. e = None) es"
  by (induction es rule: first_error.induct) auto

lemma validate_clusters_None:
  "validate_clusters i seen cls = None \<longleftrightarrow>
     list_all valid_cluster cls \<and> distinct (map cc_Name cls) \<and> set seen \<inter> cc_Name ` set cls = {}"
  by (induction i seen cls rule: validate_clusters.induct) (auto simp: valid_cluster_def)

lemma validateOTel_None:
  "validateOTel name oc = None \<longleftrightarrow>
     (oc_Enabled oc \<longrightarrow> valid_endpoint (oc_Endpoint oc)
        \<and> (name = ''metrics'' \<longrightarrow> ParseDuration (oc_Interval oc) \<noteq> None)
        \<and> (name = ''tracing'' \<longrightarrow> \<not> rate_out_of_range (oc_SamplingRate oc)))"
  unfolding valid_endpoint_iff
  by (auto simp: validateOTel_def validatePort_iff split: option.split dest: splitHostPort_host)

lemma validate_parts:
  "validateServer c = None \<longleftrightarrow>
     sv_Host (cf_Server c) \<noteq> [] \<and> valid_port (sv_Port (cf_Server c)) \<and> sv_URI (cf_Server c) \<noteq> []"
  "validateCollection c = None \<longleftrightarrow>
     ParseDuration (co_Interval (cf_Collection c)) \<noteq> None \<and> ParseDuration (co_Timeout (cf_Collection c)) \<noteq> None"
  "validateClusters c = None \<longleftrightarrow>
     cf_Clusters c \<noteq> [] \<and> list_all valid_cluster (cf_Clusters c) \<and> distinct (map cc_Name (cf_Clusters c))"
  by (auto simp: validateServer_def validateCollection_def validateClusters_def validatePort_iff
      validate_clusters_None)

lemma Validate_Inr [res_iff]: "Validate c = Inr c' \<longleftrightarrow> c' = SetDefaults c \<and> valid_config (SetDefaults c)"
proof -
  let ?c = "SetDefaults c"
  have "first_error [validateServer ?c, validateCollection ?c, validateClusters ?c,
      validateOTel ''metrics'' (op_Metrics (cf_OpenTelemetry ?c)),
      validateOTel ''tracing'' (op_Tracing (cf_OpenTelemetry ?c))] = None \<longleftrightarrow> valid_config ?c"
    unfolding first_error_None list.pred_inject validate_parts validateOTel_None valid_config_def Let_def
    by auto
  then show ?thesis unfolding Validate_def Let_def by (auto split: option.split)
qed

lemma SetDefaults_idem: "SetDefaults (SetDefaults c) = SetDefaults c"
  by (simp add: SetDefaults_def Let_def or_default_def cluster_defaults_def)

text \<open>C10: Validation accepts exactly the configurations that are valid once the defaults are
  filled in (listening address, durations that parse, at least one cluster, distinct cluster names,
  complete credentials, ports between 1 and 65535, OpenTelemetry endpoints of the form host:port when enabled),
  and returns them with the defaults filled in; validating the result again changes nothing.\<close>

theorem Validate_iff:
  "(Validate c = Inr c' \<longleftrightarrow> c' = SetDefaults c \<and> valid_config c')
   \<and> Validate (SetDefaults c) = Validate c"
  by (auto simp: res_iff) (simp add: Validate_def SetDefaults_idem)

text \<open>After validation the getters never fall back: interval and timeout are the parsed
  settings, and the push interval is the parsed setting when metric export is enabled.\<close>

lemma getters_after_Validate:
  assumes "Validate c = Inr c'"
  shows "ParseDuration (co_Interval (cf_Collection c')) = Some (GetCollectionInterval c')
    \<and> ParseDuration (co_Timeout (cf_Collection c')) = Some (GetCollectionTimeout c')
    \<and> (IsOTelMetricsEnabled c' \<longrightarrow>
        ParseDuration (oc_Interval (op_Metrics (cf_OpenTelemetry c'))) = Some (GetMetricsPushInterval c'))"
  using assms
  by (auto simp: res_iff valid_config_def Let_def mustDuration_def GetCollectionInterval_def
      GetCollectionTimeout_def GetMetricsPushInterval_def IsOTelMetricsEnabled_def)

text \<open>An ordinary configuration, for the witnesses.\<close>

definition example_cluster :: ClusterConfig where
  "example_cluster = \<lparr>cc_Name = ''lab'', cc_Endpoint = ''10.0.0.1'', cc_Port = 0, cc_Username = ''u'',
     cc_Password = ''p'', cc_PasswordFile = [], cc_InsecureSkipVerify = NewEnvBool False\<rparr>"

definition example_config :: Config where
  "example_config =
     (let off = \<lparr>oc_Enabled = False, oc_Endpoint = [], oc_Insecure = False, oc_Interval = [], oc_SamplingRate = 0\<rparr>
      in \<lparr>cf_Server = \<lparr>sv_Host = [], sv_Port = [], sv_URI = [], sv_LogName = []\<rparr>,
          cf_Collection = \<lparr>co_Interval = [], co_Timeout = []\<rparr>,
          cf_OpenTelemetry = \<lparr>op_Metrics = off\<lparr>oc_Enabled := True, oc_Endpoint := ''[::1]:4317''\<rparr>, op_Tracing = off\<rparr>,
          cf_Clusters = [example_cluster]\<rparr>)"

lemma getters_after_Validate_witness:
  "ParseDuration (co_Interval (cf_Collection (SetDefaults example_config))) = Some 10000000000
   \<and> GetCollectionInterval (SetDefaults example_config) = 10000000000"
proof -
  have "Validate example_config = Inr (SetDefaults example_config)" by code_simp
  note get = getters_after_Validate [OF this]
  have "GetCollectionInterval (SetDefaults example_config) = 10000000000" by code_simp
  with get show ?thesis by simp
qed

text \<open>Validation does not ask for a positive interval: a configuration with the interval
  \<open>0s\<close> or \<open>-5s\<close> is accepted as it is, and the collection loop is given a period that is not
  positive (which \<open>time.NewTicker\<close> answers with a panic).\<close>

lemma Validate_accepts_nonpositive_interval:
  "list_all (\<lambda>s. let c = example_config\<lparr>cf_Collection := \<lparr>co_Interval = s, co_Timeout = []\<rparr>\<rparr>
      in Validate c = Inr (SetDefaults c) \<and> GetCollectionInterval (SetDefaults c) \<le> 0) [''0s'', ''-5s'']"
  by code_simp

end
