(* ===== verification/Client.thy ===== *)
theory Client
  imports Derivations Config
begin

text \<open>
  \<open>internal/powerscale/client.go\<close>: the OneFS client of one cluster, one authenticated session used
  for every request.

  What the program calls outside the repository is the record \<open>Outside\<close>: the gopowerscale
  constructor, its GET and its negotiated version, the status codes its typed errors carry, the
  clock, and whether the dump directory and files can be written. The first argument of the two network
  calls says whether the context is already cancelled; a deadline that expires on the way is the
  network's answer. \<open>'n\<close> is the network's state, \<open>'s\<close> an SDK session, \<open>'e\<close> an SDK error.

  Effects kept: the network's state, the API trace (\<open>--trace\<close>) and the dumped files
  (\<open>--dump-dir\<close>), these under their directory and file component below the dump directory, which is the
  same for the whole process. A write that fails leaves what the system says (\<open>ou_Left\<close>).
  Debug logging is not kept.
\<close>

record ('n, 's, 'e) Outside =
  ou_New :: "bool \<Rightarrow> string \<Rightarrow> string \<Rightarrow> string \<Rightarrow> bool \<Rightarrow> 'n \<Rightarrow> ('e + 's) \<times> 'n"
  ou_Get :: "'s \<Rightarrow> bool \<Rightarrow> string \<Rightarrow> (string \<times> string) list \<Rightarrow> 'n \<Rightarrow> ('e + string) \<times> 'n"
  ou_Version :: "'s \<Rightarrow> int"
  ou_JSONError :: "'e \<Rightarrow> int option"
  ou_HTMLError :: "'e \<Rightarrow> int option"
  ou_Now :: "'n \<Rightarrow> int"
  ou_Mkdir :: "string \<Rightarrow> string \<Rightarrow> bool"
  ou_Write :: "string \<Rightarrow> string \<Rightarrow> bool"
  ou_Left :: "string \<Rightarrow> string \<Rightarrow> string \<Rightarrow> string option"
  ou_Int :: "f64 \<Rightarrow> int"

datatype trace_status = StatusUnknown | StatusCode int | Status2xx

datatype trace_event = Trace (tr_cluster: string) (tr_url: string) (tr_status: trace_status) (tr_body: "string option")

text \<open>The dumped files by cluster directory and name, below the dump directory, which is one for a whole process.\<close>

record 'n World =
  wo_net :: 'n
  wo_trace :: "trace_event list"
  wo_files :: "((string \<times> string) \<times> string) list"

record 's ClusterClient =
  cl_name :: string
  cl_cli :: 's
  cl_baseURL :: string
  cl_dumpDir :: string
  cl_trace :: bool

datatype 'e client_error =
    AuthFailed string 'e
  | GetFailed string string string 'e
  | ParseFailed string string parse_error

section \<open>Helpers\<close>

definition sanitize_rune :: "string \<Rightarrow> char" where
  "sanitize_rune r =
     (case r of
        [c] \<Rightarrow> (if (97 \<le> byte c \<and> byte c \<le> 122) \<or> (65 \<le> byte c \<and> byte c \<le> 90) \<or> is_digit c
                     \<or> c = CHR ''-'' \<or> c = CHR ''.'' then c else CHR ''_'')
      | _ \<Rightarrow> CHR ''_'')"

definition sanitizeFilename :: "string \<Rightarrow> string" where
  "sanitizeFilename s =
     (let out = map sanitize_rune (runes s)
      in if out = [] \<or> Trim (CHR ''.'') out = [] then ''_'' else out)"

definition snippet :: "string \<Rightarrow> string" where
  "snippet b =
     (if length b \<le> 256 then b
      else take 256 b @ ''... ('' @ Itoa (int (length b)) @ '' bytes total)'')"

definition statusFromError :: "('n, 's, 'e) Outside \<Rightarrow> 'e \<Rightarrow> int" where
  "statusFromError ou e =
     (case ou_JSONError ou e of
        Some code \<Rightarrow> code
      | None \<Rightarrow> (case ou_HTMLError ou e of Some code \<Rightarrow> code | None \<Rightarrow> 0))"

definition traceResponse ::
    "('n, 's, 'e) Outside \<Rightarrow> 's ClusterClient \<Rightarrow> string \<Rightarrow> 'e + string \<Rightarrow> 'n World \<Rightarrow> 'n World" where
  "traceResponse ou c path reply w =
     (if \<not> cl_trace c then w
      else
        (let url = cl_baseURL c @ ''/'' @ path
         in case reply of
              Inl e \<Rightarrow>
                (let status = statusFromError ou e
                 in w\<lparr>wo_trace := wo_trace w @
                        [Trace (cl_name c) url (if status \<noteq> 0 then StatusCode status else StatusUnknown) None]\<rparr>)
            | Inr body \<Rightarrow> w\<lparr>wo_trace := wo_trace w @ [Trace (cl_name c) url Status2xx (Some body)]\<rparr>))"

definition dump ::
    "('n, 's, 'e) Outside \<Rightarrow> 's ClusterClient \<Rightarrow> string \<Rightarrow> string \<Rightarrow> 'n World \<Rightarrow> 'n World" where
  "dump ou c path body w =
     (if cl_dumpDir c = [] then w
      else
        (let dir = sanitizeFilename (cl_name c); file = sanitizeFilename path @ ''.json''
         in if \<not> ou_Mkdir ou (cl_dumpDir c) dir then w
            else case (if ou_Write ou dir file then Some body else ou_Left ou dir file body) of
                None \<Rightarrow> w
              | Some text \<Rightarrow> w\<lparr>wo_files := AList.update (dir, file) text (wo_files w)\<rparr>))"

section \<open>Requests\<close>

definition NewClusterClient ::
    "('n, 's, 'e) Outside \<Rightarrow> bool \<Rightarrow> ClusterConfig \<Rightarrow> string \<Rightarrow> bool \<Rightarrow> 'n World
     \<Rightarrow> ('e client_error + 's ClusterClient) \<times> 'n World" where
  "NewClusterClient ou done cfg dumpDir tr w =
     (let (r, n) = ou_New ou done (BaseURL cfg) (cc_Username cfg) (cc_Password cfg)
                     (Bool (cc_InsecureSkipVerify cfg)) (wo_net w);
          w' = w\<lparr>wo_net := n\<rparr>
      in case r of
           Inl e \<Rightarrow> (Inl (AuthFailed (cc_Name cfg) e), w')
         | Inr cli \<Rightarrow>
             (Inr \<lparr>cl_name = cc_Name cfg, cl_cli = cli, cl_baseURL = BaseURL cfg,
                   cl_dumpDir = dumpDir, cl_trace = tr\<rparr>, w'))"

definition getRawParams ::
    "('n, 's, 'e) Outside \<Rightarrow> 's ClusterClient \<Rightarrow> bool \<Rightarrow> string \<Rightarrow> (string \<times> string) list \<Rightarrow> 'n World
     \<Rightarrow> ('e client_error + string) \<times> 'n World" where
  "getRawParams ou c done path params w =
     (let (r, n) = ou_Get ou (cl_cli c) done path params (wo_net w); w1 = w\<lparr>wo_net := n\<rparr>
      in case r of
           Inl e \<Rightarrow> (Inl (GetFailed (cl_name c) (cl_baseURL c) path e), traceResponse ou c path (Inl e) w1)
         | Inr raw \<Rightarrow> (Inr raw, dump ou c path raw (traceResponse ou c path (Inr raw) w1)))"

definition getRaw ::
    "('n, 's, 'e) Outside \<Rightarrow> 's ClusterClient \<Rightarrow> bool \<Rightarrow> string \<Rightarrow> 'n World
     \<Rightarrow> ('e client_error + string) \<times> 'n World" where
  "getRaw ou c done path w = getRawParams ou c done path [] w"

definition APIVersion :: "('n, 's, 'e) Outside \<Rightarrow> 's ClusterClient \<Rightarrow> int" where
  "APIVersion ou c = ou_Version ou (cl_cli c)"

definition pickVersion :: "('n, 's, 'e) Outside \<Rightarrow> 's ClusterClient \<Rightarrow> int \<Rightarrow> int \<Rightarrow> int" where
  "pickVersion ou c newV oldV = (if newV \<le> ou_Version ou (cl_cli c) then newV else oldV)"

text \<open>\<open>if err != nil { return nil, err }\<close> after a call that has effects.\<close>

definition on_ok :: "('e + 'a) \<times> 'w \<Rightarrow> ('a \<Rightarrow> 'w \<Rightarrow> ('e + 'b) \<times> 'w) \<Rightarrow> ('e + 'b) \<times> 'w" where
  "on_ok m f = (case m of (Inl e, w) \<Rightarrow> (Inl e, w) | (Inr a, w) \<Rightarrow> f a w)"

text \<open>The two idioms of the client: a request whose failure fails the call, with the parse error
  named, and one whose failure yields a default.\<close>

definition fetch ::
    "('n, 's, 'e) Outside \<Rightarrow> 's ClusterClient \<Rightarrow> bool \<Rightarrow> string \<Rightarrow> (string \<times> string) list \<Rightarrow> string
     \<Rightarrow> (string \<Rightarrow> parse_error + 'a) \<Rightarrow> 'n World \<Rightarrow> ('e client_error + 'a) \<times> 'n World" where
  "fetch ou c done path params what parse w =
     (case getRawParams ou c done path params w of
        (Inl e, w') \<Rightarrow> (Inl e, w')
      | (Inr b, w') \<Rightarrow>
          ((case parse b of Inl e \<Rightarrow> Inl (ParseFailed (cl_name c) what e) | Inr a \<Rightarrow> Inr a), w'))"

definition best_effort ::
    "('n, 's, 'e) Outside \<Rightarrow> 's ClusterClient \<Rightarrow> bool \<Rightarrow> string
     \<Rightarrow> (string \<Rightarrow> parse_error + 'a) \<Rightarrow> 'a \<Rightarrow> 'n World \<Rightarrow> 'a \<times> 'n World" where
  "best_effort ou c done path parse dflt w =
     (case getRaw ou c done path w of
        (Inl e, w') \<Rightarrow> (dflt, w')
      | (Inr b, w') \<Rightarrow> ((case parse b of Inl e \<Rightarrow> dflt | Inr a \<Rightarrow> a), w'))"

section \<open>Inventory\<close>

definition count_total ::
    "('n, 's, 'e) Outside \<Rightarrow> 's ClusterClient \<Rightarrow> bool \<Rightarrow> string \<Rightarrow> 'n World \<Rightarrow> int \<times> 'n World" where
  "count_total ou c done path w = best_effort ou c done path ParseTotal 0 w"

definition inventoryCounts ::
    "('n, 's, 'e) Outside \<Rightarrow> 's ClusterClient \<Rightarrow> bool \<Rightarrow> 'n World \<Rightarrow> Counts \<times> 'n World" where
  "inventoryCounts ou c done w =
     (let (nfs, w1) = count_total ou c done ''platform/4/protocols/nfs/exports'' w;
          (smb, w2) = count_total ou c done ''platform/1/protocols/smb/shares'' w1;
          (snaps, w3) = count_total ou c done ''platform/1/snapshot/snapshots'' w2
      in (\<lparr>ct_NFSExports = nfs, ct_SMBShares = smb, ct_Snapshots = snaps\<rparr>, w3))"

definition snapshotSummary ::
    "('n, 's, 'e) Outside \<Rightarrow> 's ClusterClient \<Rightarrow> bool \<Rightarrow> 'n World \<Rightarrow> SnapshotSummary \<times> 'n World" where
  "snapshotSummary ou c done w =
     best_effort ou c done ''platform/1/snapshot/snapshots-summary'' ParseSnapshotSummary \<lparr>ss_UsedBytes = 0\<rparr> w"

definition syncPolicies ::
    "('n, 's, 'e) Outside \<Rightarrow> 's ClusterClient \<Rightarrow> bool \<Rightarrow> 'n World \<Rightarrow> SyncPolicy list \<times> 'n World" where
  "syncPolicies ou c done w = best_effort ou c done ''platform/7/sync/policies'' ParseSyncPolicies [] w"

definition activeEvents ::
    "('n, 's, 'e) Outside \<Rightarrow> 's ClusterClient \<Rightarrow> bool \<Rightarrow> 'n World \<Rightarrow> (string, int) gomap \<times> 'n World" where
  "activeEvents ou c done w =
     best_effort ou c done ''platform/3/event/eventgroup-occurrences'' ParseEventOccurrences [] w"

definition dedupeSummary ::
    "('n, 's, 'e) Outside \<Rightarrow> 's ClusterClient \<Rightarrow> bool \<Rightarrow> 'n World \<Rightarrow> DedupeSummary \<times> 'n World" where
  "dedupeSummary ou c done w =
     best_effort ou c done ''platform/1/dedupe/dedupe-summary'' ParseDedupeSummary
       \<lparr>dd_LogicalSavedBytes = 0, dd_DeduplicatedBytes = 0\<rparr> w"

definition licenses ::
    "('n, 's, 'e) Outside \<Rightarrow> 's ClusterClient \<Rightarrow> bool \<Rightarrow> 'n World \<Rightarrow> License list \<times> 'n World" where
  "licenses ou c done w = best_effort ou c done ''platform/5/license/licenses'' ParseLicenses [] w"

definition storagePools ::
    "('n, 's, 'e) Outside \<Rightarrow> 's ClusterClient \<Rightarrow> bool \<Rightarrow> 'n World \<Rightarrow> StoragePool list \<times> 'n World" where
  "storagePools ou c done w =
     best_effort ou c done ''platform/1/storagepool/storagepools'' ParseStoragePools [] w"

text \<open>The fields of the inventory are fetched in the order of the struct literal.\<close>

definition inventory_rest ::
    "('n, 's, 'e) Outside \<Rightarrow> 's ClusterClient \<Rightarrow> bool \<Rightarrow> ClusterInfo \<Rightarrow> Node list \<Rightarrow> Quota list \<Rightarrow> 'n World
     \<Rightarrow> Inventory \<times> 'n World" where
  "inventory_rest ou c done info nodes quotas w =
     (let (counts, w1) = inventoryCounts ou c done w;
          (snap, w2) = snapshotSummary ou c done w1;
          (sync, w3) = syncPolicies ou c done w2;
          (events, w4) = activeEvents ou c done w3;
          (dedupe, w5) = dedupeSummary ou c done w4;
          (lics, w6) = licenses ou c done w5;
          (pools, w7) = storagePools ou c done w6
      in (\<lparr>iv_Cluster = info, iv_Nodes = nodes, iv_Quotas = quotas, iv_Counts = counts,
           iv_Snapshot = snap, iv_SyncPolicies = sync, iv_Events = events, iv_Dedupe = dedupe,
           iv_Licenses = lics, iv_StoragePools = pools\<rparr>, w7))"

definition quota_path :: "('n, 's, 'e) Outside \<Rightarrow> 's ClusterClient \<Rightarrow> string" where
  "quota_path ou c = ''platform/'' @ Itoa (pickVersion ou c 25 8) @ ''/quota/quotas''"

definition GetInventory ::
    "('n, 's, 'e) Outside \<Rightarrow> 's ClusterClient \<Rightarrow> bool \<Rightarrow> 'n World
     \<Rightarrow> ('e client_error + Inventory) \<times> 'n World" where
  "GetInventory ou c done w =
     on_ok (fetch ou c done ''platform/3/cluster/config'' [] ''cluster config'' ParseClusterConfig w) (\<lambda>info w1.
     on_ok (fetch ou c done ''platform/3/cluster/nodes'' [] ''nodes'' ParseNodes w1) (\<lambda>nodes w2.
     on_ok (fetch ou c done (quota_path ou c) [] ''quotas'' ParseQuotas w2) (\<lambda>quotas w3.
       (let (iv, w4) = inventory_rest ou c done info nodes quotas w3 in (Inr iv, w4)))))"

section \<open>Statistics\<close>

definition driveSummary ::
    "('n, 's, 'e) Outside \<Rightarrow> 's ClusterClient \<Rightarrow> bool \<Rightarrow> 'n World \<Rightarrow> DriveStat list \<times> 'n World" where
  "driveSummary ou c done w = best_effort ou c done ''platform/3/statistics/summary/drive'' ParseDriveSummary [] w"

definition clientSummary ::
    "('n, 's, 'e) Outside \<Rightarrow> 's ClusterClient \<Rightarrow> bool \<Rightarrow> 'n World \<Rightarrow> ClientStat list \<times> 'n World" where
  "clientSummary ou c done w = best_effort ou c done ''platform/3/statistics/summary/client'' ParseClientSummary [] w"

definition workloadSummary ::
    "('n, 's, 'e) Outside \<Rightarrow> 's ClusterClient \<Rightarrow> bool \<Rightarrow> 'n World \<Rightarrow> Workload list \<times> 'n World" where
  "workloadSummary ou c done w =
     best_effort ou c done ''platform/4/statistics/summary/workload'' (ParseWorkloadSummary (ou_Int ou)) [] w"

definition statistics_params :: "(string \<times> string) list" where
  "statistics_params = (''devid'', ''all'') # map (Pair ''key'') QueryKeys"

definition protocol_path :: "('n, 's, 'e) Outside \<Rightarrow> 's ClusterClient \<Rightarrow> string" where
  "protocol_path ou c = ''platform/'' @ Itoa (pickVersion ou c 26 3) @ ''/statistics/summary/protocol''"

definition GetStatistics ::
    "('n, 's, 'e) Outside \<Rightarrow> 's ClusterClient \<Rightarrow> bool \<Rightarrow> 'n World
     \<Rightarrow> ('e client_error + Statistics) \<times> 'n World" where
  "GetStatistics ou c done w =
     on_ok (fetch ou c done ''platform/1/statistics/current'' statistics_params ''statistics'' ParseStatCurrent w)
       (\<lambda>current w1.
          (let (proto, w2) = best_effort ou c done (protocol_path ou c) (ParseProtocolSummary (ou_Int ou)) [] w1;
               (drives, w3) = driveSummary ou c done w2;
               (clients, w4) = clientSummary ou c done w3;
               (workloads, w5) = workloadSummary ou c done w4
           in (Inr \<lparr>st_Current = current, st_Proto = proto, st_Drives = drives, st_Clients = clients,
                    st_Workloads = workloads\<rparr>, w5)))"

definition Close :: "'s ClusterClient \<Rightarrow> bool" where
  "Close c = True"

section \<open>File names\<close>

definition safe_char :: "char \<Rightarrow> bool" where
  "safe_char c \<longleftrightarrow>
     (97 \<le> byte c \<and> byte c \<le> 122) \<or> (65 \<le> byte c \<and> byte c \<le> 90) \<or> is_digit c \<or> c \<in> {CHR ''-'', CHR ''.'', CHR ''_''}"

definition safe_component :: "string \<Rightarrow> bool" where
  "safe_component s \<longleftrightarrow> s \<noteq> [] \<and> s \<noteq> ''.'' \<and> s \<noteq> ''..'' \<and> list_all safe_char s"

lemma sanitize_rune_safe: "safe_char (sanitize_rune r)"
  by (auto simp: sanitize_rune_def safe_char_def split: list.splits)

lemma Trim_replicate: "Trim c (replicate n c) = []"
  by (induction n) (auto simp: Trim_def dropWhile_eq_Nil_conv)

lemma sanitize_safe: "safe_component (sanitizeFilename s)"
proof (cases "let out = map sanitize_rune (runes s) in out = [] \<or> Trim (CHR ''.'') out = []")
  case True
  then have "sanitizeFilename s = ''_''" by (simp add: sanitizeFilename_def Let_def)
  then show ?thesis by (simp add: safe_component_def safe_char_def)
next
  case False
  let ?out = "map sanitize_rune (runes s)"
  from False have "?out \<noteq> []" "Trim (CHR ''.'') ?out \<noteq> []" by (simp_all add: Let_def)
  moreover have "Trim (CHR ''.'') ''.'' = []" "Trim (CHR ''.'') ''..'' = []" by code_simp+
  ultimately have "?out \<noteq> []" "?out \<noteq> ''.''" "?out \<noteq> ''..''" by auto
  moreover have "list_all safe_char ?out" by (simp add: list_all_iff sanitize_rune_safe)
  moreover have "sanitizeFilename s = ?out" using False by (simp add: sanitizeFilename_def Let_def)
  ultimately show ?thesis by (simp add: safe_component_def)
qed

text \<open>C31: A dump file name can never leave the dump directory: whatever bytes a cluster name or
  an endpoint path consists of, \<open>sanitizeFilename\<close> returns a single non-empty path component of
  letters, digits, \<open>-\<close>, \<open>.\<close> and \<open>_\<close>, without a separator, that is neither \<open>.\<close> nor \<open>..\<close>.\<close>

theorem sanitizeFilename_safe:
  "safe_component (sanitizeFilename s) \<and> CHR ''/'' \<notin> set (sanitizeFilename s)
   \<and> sanitizeFilename ''platform/1/statistics/current'' = ''platform_1_statistics_current''"
proof -
  have "CHR ''/'' \<notin> set (sanitizeFilename s)"
  proof
    assume "CHR ''/'' \<in> set (sanitizeFilename s)"
    then have "safe_char (CHR ''/'')" using sanitize_safe [of s] by (auto simp: safe_component_def list_all_iff)
    moreover have "\<not> safe_char (CHR ''/'')" by code_simp
    ultimately show False by simp
  qed
  moreover have "sanitizeFilename ''platform/1/statistics/current'' = ''platform_1_statistics_current''"
    by code_simp
  ultimately show ?thesis using sanitize_safe by simp
qed

section \<open>Debugging aids do not interfere\<close>

text \<open>Two runs with the same network state and clients that differ in the debugging aids only.\<close>

definition same_net :: "'n World \<Rightarrow> 'n World \<Rightarrow> bool" where
  "same_net w w' \<longleftrightarrow> wo_net w = wo_net w'"

definition same_session :: "'s ClusterClient \<Rightarrow> 's ClusterClient \<Rightarrow> bool" where
  "same_session c c' \<longleftrightarrow> cl_name c = cl_name c' \<and> cl_cli c = cl_cli c' \<and> cl_baseURL c = cl_baseURL c'"

lemma effects_net [simp]:
  "wo_net (traceResponse ou c path r w) = wo_net w" "wo_net (dump ou c path b w) = wo_net w"
  by (auto simp: traceResponse_def dump_def Let_def split: sum.split option.split)

lemma sim_bind:
  assumes "rel_prod (=) same_net p p'"
    and "\<And>a w w'. same_net w w' \<Longrightarrow> rel_prod (=) same_net (f a w) (f' a w')"
  shows "rel_prod (=) same_net (case p of (a, w) \<Rightarrow> f a w) (case p' of (a, w) \<Rightarrow> f' a w)"
  using assms by (cases p; cases p') auto

lemma getRawParams_sim:
  "same_session c c' \<Longrightarrow> same_net w w' \<Longrightarrow>
     rel_prod (=) same_net (getRawParams ou c done path ps w) (getRawParams ou c' done path ps w')"
  by (auto simp: getRawParams_def same_session_def same_net_def Let_def split: prod.split sum.split)

lemma on_ok_sim:
  assumes "rel_prod (=) same_net p p'"
    and "\<And>a w w'. same_net w w' \<Longrightarrow> rel_prod (=) same_net (f a w) (f' a w')"
  shows "rel_prod (=) same_net (on_ok p f) (on_ok p' f')"
  unfolding on_ok_def using assms by (intro sim_bind) (auto split: sum.split)

lemma fetch_sim:
  "same_session c c' \<Longrightarrow> same_net w w' \<Longrightarrow>
     rel_prod (=) same_net (fetch ou c done path ps what parse w) (fetch ou c' done path ps what parse w')"
  unfolding fetch_def
  by (rule sim_bind [OF getRawParams_sim]) (auto simp: same_session_def split: sum.split)

lemma best_effort_sim:
  "same_session c c' \<Longrightarrow> same_net w w' \<Longrightarrow>
     rel_prod (=) same_net (best_effort ou c done path parse dflt w) (best_effort ou c' done path parse dflt w')"
  unfolding best_effort_def getRaw_def
  by (rule sim_bind [OF getRawParams_sim]) (auto split: sum.split)

lemmas best_effort_defs =
  count_total_def snapshotSummary_def syncPolicies_def activeEvents_def dedupeSummary_def
  licenses_def storagePools_def driveSummary_def clientSummary_def workloadSummary_def

lemma inventory_rest_sim:
  assumes "same_session c c'" and "same_net w w'"
  shows "rel_prod (=) same_net (inventory_rest ou c done i n q w) (inventory_rest ou c' done i n q w')"
  unfolding inventory_rest_def inventoryCounts_def best_effort_defs Let_def
  by (intro sim_bind best_effort_sim assms) (assumption | simp)+

lemma paths_sim:
  "same_session c c' \<Longrightarrow> quota_path ou c = quota_path ou c' \<and> protocol_path ou c = protocol_path ou c'"
  by (simp add: quota_path_def protocol_path_def pickVersion_def same_session_def)

lemma GetInventory_sim:
  assumes "same_session c c'" and "same_net w w'"
  shows "rel_prod (=) same_net (GetInventory ou c done w) (GetInventory ou c' done w')"
  unfolding GetInventory_def Let_def paths_sim [OF assms(1), THEN conjunct1]
  by (intro on_ok_sim sim_bind fetch_sim inventory_rest_sim assms) (assumption | simp)+

lemma GetStatistics_sim:
  assumes "same_session c c'" and "same_net w w'"
  shows "rel_prod (=) same_net (GetStatistics ou c done w) (GetStatistics ou c' done w')"
  unfolding GetStatistics_def Let_def best_effort_defs paths_sim [OF assms(1), THEN conjunct2]
  by (intro on_ok_sim sim_bind fetch_sim best_effort_sim assms) (assumption | simp)+

text \<open>C30: The debugging aids change nothing else: with \<open>--trace\<close> and \<open>--dump-dir\<close> on or off, and
  whatever was traced and dumped before, inventory and statistics return the same result or
  the same error and leave the network in the same state.\<close>

theorem debug_aids_invisible:
  "let c' = c\<lparr>cl_dumpDir := d, cl_trace := t\<rparr>; w' = w\<lparr>wo_trace := tr, wo_files := files\<rparr>
   in fst (GetInventory ou c' done w') = fst (GetInventory ou c done w)
    \<and> wo_net (snd (GetInventory ou c' done w')) = wo_net (snd (GetInventory ou c done w))
    \<and> fst (GetStatistics ou c' done w') = fst (GetStatistics ou c done w)
    \<and> wo_net (snd (GetStatistics ou c' done w')) = wo_net (snd (GetStatistics ou c done w))"
proof -
  have "same_session (c\<lparr>cl_dumpDir := d, cl_trace := t\<rparr>) c" "same_net (w\<lparr>wo_trace := tr, wo_files := files\<rparr>) w"
    by (simp_all add: same_session_def same_net_def)
  from GetInventory_sim [OF this, of ou "done"] GetStatistics_sim [OF this, of ou "done"]
  show ?thesis by (simp add: Let_def rel_prod_sel same_net_def)
qed

section \<open>Effects are confined\<close>

definition own_trace :: "'s ClusterClient \<Rightarrow> trace_event \<Rightarrow> bool" where
  "own_trace c ev \<longleftrightarrow> cl_trace c \<and> tr_cluster ev = cl_name c \<and> (\<exists>p. tr_url ev = cl_baseURL c @ ''/'' @ p)"

definition own_file :: "'s ClusterClient \<Rightarrow> string \<times> string \<Rightarrow> bool" where
  "own_file c k \<longleftrightarrow> cl_dumpDir c \<noteq> [] \<and> fst k = sanitizeFilename (cl_name c)
     \<and> safe_component (fst k) \<and> safe_component (snd k)"

definition confined :: "'s ClusterClient \<Rightarrow> 'n World \<Rightarrow> 'n World \<Rightarrow> bool" where
  "confined c w w' \<longleftrightarrow>
     (\<exists>evs. wo_trace w' = wo_trace w @ evs \<and> list_all (own_trace c) evs)
     \<and> (\<forall>k. map_of (wo_files w') k \<noteq> map_of (wo_files w) k \<longrightarrow> own_file c k)"

lemma confined_refl: "confined c w w"
  by (simp add: confined_def)

lemma confined_trans: "confined c w w' \<Longrightarrow> confined c w' w'' \<Longrightarrow> confined c w w''"
  unfolding confined_def by (metis append.assoc list_all_append)

lemma confined_trace: "confined c w (traceResponse ou c path r w)"
  by (auto simp: confined_def traceResponse_def own_trace_def Let_def split: sum.split)

lemma confined_dump: "confined c w (dump ou c path b w)"
proof -
  have "safe_component (sanitizeFilename path @ ''.json'')"
    using sanitize_safe [of path] by (auto simp: safe_component_def safe_char_def)
  then show ?thesis
    by (auto simp: confined_def dump_def own_file_def Let_def update_conv' sanitize_safe split: option.split)
qed

lemma confined_get: "confined c w (snd (getRawParams ou c done path ps w))"
proof -
  have net: "confined c w (w\<lparr>wo_net := n\<rparr>)" for n by (simp add: confined_def)
  show ?thesis
    unfolding getRawParams_def Let_def
    by (auto split: prod.split sum.split
        intro: confined_trans [OF net] confined_trans [OF confined_trace] confined_trace confined_dump)
qed

lemma confined_bind:
  assumes "confined c w (snd p)" and "\<And>a w'. confined c w w' \<Longrightarrow> confined c w (snd (f a w'))"
  shows "confined c w (snd (case p of (a, w') \<Rightarrow> f a w'))"
  using assms by (cases p) auto

lemma confined_on_ok:
  assumes "confined c w (snd p)" and "\<And>a w'. confined c w w' \<Longrightarrow> confined c w (snd (f a w'))"
  shows "confined c w (snd (on_ok p f))"
  unfolding on_ok_def using assms by (intro confined_bind) (auto split: sum.split)

lemma confined_fetch: "confined c w w0 \<Longrightarrow> confined c w (snd (fetch ou c done path ps what parse w0))"
  unfolding fetch_def by (rule confined_bind, erule confined_trans, rule confined_get)
    (auto split: sum.split)

lemma confined_best_effort: "confined c w w0 \<Longrightarrow> confined c w (snd (best_effort ou c done path parse dflt w0))"
  unfolding best_effort_def getRaw_def by (rule confined_bind, erule confined_trans, rule confined_get)
    (auto split: sum.split)

lemma confined_inventory_rest: "confined c w w0 \<Longrightarrow> confined c w (snd (inventory_rest ou c done i n q w0))"
  unfolding inventory_rest_def inventoryCounts_def best_effort_defs Let_def
  by (intro confined_bind confined_best_effort) (assumption | simp)+

lemma confined_GetInventory: "confined c w w0 \<Longrightarrow> confined c w (snd (GetInventory ou c done w0))"
  unfolding GetInventory_def Let_def
  by (intro confined_on_ok confined_bind confined_fetch confined_inventory_rest) (assumption | simp)+

lemma confined_GetStatistics: "confined c w w0 \<Longrightarrow> confined c w (snd (GetStatistics ou c done w0))"
  unfolding GetStatistics_def best_effort_defs Let_def
  by (intro confined_on_ok confined_bind confined_fetch confined_best_effort) (assumption | simp)+

text \<open>C29: What a scrape may leave behind: the calls of a cluster's client only append to the trace,
  and only with tracing on, entries that name this cluster and a URL of its endpoint; and the only
  files they create or change, with a dump directory set, are in this cluster's own directory,
  with safe names.\<close>

theorem scrape_effects_confined:
  "confined c w (snd (GetInventory ou c done w)) \<and> confined c w (snd (GetStatistics ou c done w))"
  by (simp add: confined_GetInventory confined_GetStatistics confined_refl)

section \<open>Mandatory and best-effort requests\<close>

text \<open>C12: Only the mandatory requests can fail a scrape: \<open>GetInventory\<close> fails exactly when one of
  configuration, nodes and quotas cannot be fetched or parsed, with the first such error and
  without asking for anything after it, and otherwise carries what these three gave, whatever
  the other nine requests return; \<open>GetStatistics\<close> fails exactly when the current statistics do.\<close>

theorem mandatory_requests:
  "(case fetch ou c done ''platform/3/cluster/config'' [] ''cluster config'' ParseClusterConfig w of
      (Inl e, w1) \<Rightarrow> GetInventory ou c done w = (Inl e, w1)
    | (Inr info, w1) \<Rightarrow>
   (case fetch ou c done ''platform/3/cluster/nodes'' [] ''nodes'' ParseNodes w1 of
      (Inl e, w2) \<Rightarrow> GetInventory ou c done w = (Inl e, w2)
    | (Inr nodes, w2) \<Rightarrow>
   (case fetch ou c done (quota_path ou c) [] ''quotas'' ParseQuotas w2 of
      (Inl e, w3) \<Rightarrow> GetInventory ou c done w = (Inl e, w3)
    | (Inr quotas, w3) \<Rightarrow>
        (\<exists>iv w4. GetInventory ou c done w = (Inr iv, w4)
           \<and> iv_Cluster iv = info \<and> iv_Nodes iv = nodes \<and> iv_Quotas iv = quotas))))
   \<and> (case fetch ou c done ''platform/1/statistics/current'' statistics_params ''statistics'' ParseStatCurrent w of
        (Inl e, w1) \<Rightarrow> GetStatistics ou c done w = (Inl e, w1)
      | (Inr current, w1) \<Rightarrow>
          (\<exists>st w2. GetStatistics ou c done w = (Inr st, w2) \<and> st_Current st = current))"
proof
  have rest: "iv_Cluster (fst (inventory_rest ou c done i n q w0)) = i"
      "iv_Nodes (fst (inventory_rest ou c done i n q w0)) = n"
      "iv_Quotas (fst (inventory_rest ou c done i n q w0)) = q" for i n q w0
    by (simp_all add: inventory_rest_def Let_def split: prod.split)
  show "(case fetch ou c done ''platform/3/cluster/config'' [] ''cluster config'' ParseClusterConfig w of
      (Inl e, w1) \<Rightarrow> GetInventory ou c done w = (Inl e, w1)
    | (Inr info, w1) \<Rightarrow>
   (case fetch ou c done ''platform/3/cluster/nodes'' [] ''nodes'' ParseNodes w1 of
      (Inl e, w2) \<Rightarrow> GetInventory ou c done w = (Inl e, w2)
    | (Inr nodes, w2) \<Rightarrow>
   (case fetch ou c done (quota_path ou c) [] ''quotas'' ParseQuotas w2 of
      (Inl e, w3) \<Rightarrow> GetInventory ou c done w = (Inl e, w3)
    | (Inr quotas, w3) \<Rightarrow>
        (\<exists>iv w4. GetInventory ou c done w = (Inr iv, w4)
           \<and> iv_Cluster iv = info \<and> iv_Nodes iv = nodes \<and> iv_Quotas iv = quotas))))"
    by (auto simp: GetInventory_def on_ok_def Let_def case_prod_beta rest split: sum.split)
  show "case fetch ou c done ''platform/1/statistics/current'' statistics_params ''statistics'' ParseStatCurrent w of
        (Inl e, w1) \<Rightarrow> GetStatistics ou c done w = (Inl e, w1)
      | (Inr current, w1) \<Rightarrow>
          (\<exists>st w2. GetStatistics ou c done w = (Inr st, w2) \<and> st_Current st = current)"
    by (simp add: GetStatistics_def on_ok_def Let_def split: prod.split sum.split)
qed

end
