(* ===== verification/Snapshot.thy ===== *)
theory Snapshot
  imports Derivations
begin

text \<open>
  \<open>internal/powerscale/snapshot.go\<close>: one cluster's result, the immutable snapshot with its index
  of samples by name, and the store that publishes the latest snapshot.

  The locale \<open>snapshot_view\<close> is what both exporters rely on: the metric names of a snapshot and
  the samples of a name, related to the list of all samples. The code's snapshot interprets it.

  A scrape error is kept as the error value whose text the code stores (\<open>None\<close> is the empty
  text); instants are Unix nanoseconds, \<open>None\<close> the zero \<open>time.Time\<close>.
\<close>

record 'e ClusterSnapshot =
  cs_Cluster :: string
  cs_Up :: bool
  cs_APIVersion :: int
  cs_ScrapeError :: "'e option"
  cs_LastScrape :: "int option"
  cs_Samples :: "Sample list"

record 'e Snapshot =
  sh_PerCluster :: "(string, 'e ClusterSnapshot) gomap"
  sh_byName :: "(string, Sample list) gomap"
  sh_names :: "string list"

section \<open>BuildSnapshot\<close>

text \<open>\<open>byName[s.Name] = append(byName[s.Name], s)\<close>.\<close>

definition lookup_samples :: "(string, Sample list) gomap \<Rightarrow> string \<Rightarrow> Sample list" where
  "lookup_samples m n = (case map_of m n of None \<Rightarrow> [] | Some ss \<Rightarrow> ss)"

definition index_sample :: "(string, Sample list) gomap \<Rightarrow> Sample \<Rightarrow> (string, Sample list) gomap" where
  "index_sample m s = AList.update (sm_Name s) (lookup_samples m (sm_Name s) @ [s]) m"

fun add_clusters ::
    "'e ClusterSnapshot option list \<Rightarrow> (string, 'e ClusterSnapshot) gomap \<Rightarrow> (string, Sample list) gomap
     \<Rightarrow> (string, 'e ClusterSnapshot) gomap \<times> (string, Sample list) gomap" where
  "add_clusters [] pc bn = (pc, bn)"
| "add_clusters (None # cs) pc bn = add_clusters cs pc bn"
| "add_clusters (Some c # cs) pc bn =
     add_clusters cs (AList.update (cs_Cluster c) c pc) (foldl index_sample bn (cs_Samples c))"

definition BuildSnapshot ::
    "(string list \<Rightarrow> string list) \<Rightarrow> 'e ClusterSnapshot option list \<Rightarrow> 'e Snapshot" where
  "BuildSnapshot o1 clusters =
     (let (pc, bn) = add_clusters clusters [] []
      in \<lparr>sh_PerCluster = pc, sh_byName = bn, sh_names = o1 (map_keys bn)\<rparr>)"

definition SamplesByName :: "'e Snapshot \<Rightarrow> string \<Rightarrow> Sample list" where
  "SamplesByName s n = lookup_samples (sh_byName s) n"

definition MetricNames :: "'e Snapshot \<Rightarrow> string list" where
  "MetricNames s = sh_names s"

section \<open>The store\<close>

record 'e SnapshotStore =
  so_current :: "'e Snapshot"

definition NewSnapshotStore :: "(string list \<Rightarrow> string list) \<Rightarrow> 'e SnapshotStore" where
  "NewSnapshotStore o1 = \<lparr>so_current = BuildSnapshot o1 []\<rparr>"

definition Load :: "'e SnapshotStore \<Rightarrow> 'e Snapshot" where
  "Load st = so_current st"

definition Store :: "'e SnapshotStore \<Rightarrow> 'e Snapshot \<Rightarrow> 'e SnapshotStore" where
  "Store st s = st\<lparr>so_current := s\<rparr>"

lemma Load_Store [simp]: "Load (Store st s) = s"
  by (simp add: Load_def Store_def)

section \<open>The index\<close>

text \<open>The samples a list of cluster results contributes, in order.\<close>

definition all_samples :: "'e ClusterSnapshot option list \<Rightarrow> Sample list" where
  "all_samples cs = concat (map cs_Samples (List.map_filter id cs))"

lemma all_samples_simps [simp]:
  "all_samples [] = []"
  "all_samples (None # cs) = all_samples cs"
  "all_samples (Some c # cs) = cs_Samples c @ all_samples cs"
  by (simp_all add: all_samples_def List.map_filter_def)

lemma add_clusters_index: "snd (add_clusters cs pc bn) = foldl index_sample bn (all_samples cs)"
  by (induction cs pc bn rule: add_clusters.induct) simp_all

lemma lookup_index_sample:
  "lookup_samples (index_sample m s) n =
     (if n = sm_Name s then lookup_samples m n @ [s] else lookup_samples m n)"
  by (simp add: lookup_samples_def index_sample_def update_conv')

lemma lookup_index:
  "lookup_samples (foldl index_sample m ss) n = lookup_samples m n @ filter (\<lambda>s. sm_Name s = n) ss"
  by (induction ss arbitrary: m) (auto simp: lookup_index_sample)

lemma keys_index: "set (map_keys (foldl index_sample m ss)) = set (map_keys m) \<union> sm_Name ` set ss"
proof (induction ss arbitrary: m)
  case (Cons s ss)
  have "set (map_keys (index_sample m s)) = insert (sm_Name s) (set (map_keys m))"
    by (simp add: index_sample_def map_keys_def dom_update)
  with Cons show ?case by auto
qed simp

lemma wf_index: "wf_map m \<Longrightarrow> wf_map (foldl index_sample m ss)"
  by (induction ss arbitrary: m) (auto simp: index_sample_def)

lemma wf_per_cluster: "wf_map pc \<Longrightarrow> wf_map (fst (add_clusters cs pc bn))"
  by (induction cs pc bn rule: add_clusters.induct) auto

lemma find_append: "find P (xs @ ys) = (case find P xs of Some x \<Rightarrow> Some x | None \<Rightarrow> find P ys)"
  by (induction xs) auto

lemma per_cluster_lookup:
  "map_of (fst (add_clusters cs pc bn)) n =
     (case find (\<lambda>c. cs_Cluster c = n) (rev (List.map_filter id cs)) of
        Some c \<Rightarrow> Some c | None \<Rightarrow> map_of pc n)"
  by (induction cs pc bn rule: add_clusters.induct)
    (auto simp: update_conv' List.map_filter_def find_append split: option.splits)

lemma BuildSnapshot_sel:
  "sh_PerCluster (BuildSnapshot o1 cs) = fst (add_clusters cs [] [])"
  "sh_byName (BuildSnapshot o1 cs) = foldl index_sample [] (all_samples cs)"
  "sh_names (BuildSnapshot o1 cs) = o1 (map_keys (foldl index_sample [] (all_samples cs)))"
  by (simp_all add: BuildSnapshot_def add_clusters_index [of cs "[]" "[]", symmetric] split_beta)

lemma lookup_samples_Nil [simp]: "lookup_samples [] n = []"
  by (simp add: lookup_samples_def)

theorem SamplesByName_Build:
  "SamplesByName (BuildSnapshot o1 cs) n = filter (\<lambda>s. sm_Name s = n) (all_samples cs)"
  by (simp add: SamplesByName_def BuildSnapshot_sel lookup_index)

theorem MetricNames_Build:
  assumes "is_order ord"
  shows "distinct (MetricNames (BuildSnapshot (ord i) cs))
    \<and> set (MetricNames (BuildSnapshot (ord i) cs)) = sm_Name ` set (all_samples cs)"
proof
  have "wf_map (foldl index_sample [] (all_samples cs))" by (rule wf_index) simp
  then show "distinct (MetricNames (BuildSnapshot (ord i) cs))"
    by (simp add: MetricNames_def BuildSnapshot_sel is_order_distinct [OF assms] wf_map_def)
  show "set (MetricNames (BuildSnapshot (ord i) cs)) = sm_Name ` set (all_samples cs)"
    using keys_index [of "[]" "all_samples cs"]
    by (simp add: MetricNames_def BuildSnapshot_sel is_order_set [OF assms] map_keys_def)
qed

section \<open>What the exporters rely on\<close>

locale snapshot_view =
  fixes names :: "'s \<Rightarrow> string list"
    and by_name :: "'s \<Rightarrow> string \<Rightarrow> Sample list"
    and samples :: "'s \<Rightarrow> Sample list"
    and valid :: "'s \<Rightarrow> bool"
  assumes names_distinct: "valid s \<Longrightarrow> distinct (names s)"
    and names_set: "valid s \<Longrightarrow> set (names s) = sm_Name ` set (samples s)"
    and by_name_filter: "valid s \<Longrightarrow> by_name s n = filter (\<lambda>x. sm_Name x = n) (samples s)"
begin

lemma by_name_Nil_iff: "valid s \<Longrightarrow> by_name s n = [] \<longleftrightarrow> n \<notin> set (names s)"
  by (auto simp: by_name_filter names_set filter_empty_conv)

lemma by_name_mem: "valid s \<Longrightarrow> x \<in> set (by_name s n) \<longleftrightarrow> x \<in> set (samples s) \<and> sm_Name x = n"
  by (auto simp: by_name_filter)

text \<open>Visiting every name visits every sample exactly once.\<close>

lemma partition:
  assumes "valid s"
  shows "mset (concat (map (by_name s) (names s))) = mset (samples s)"
proof -
  have gen: "mset (concat (map (\<lambda>n. filter (\<lambda>x. sm_Name x = n) xs) ns)) = mset xs"
    if "distinct ns" "sm_Name ` set xs \<subseteq> set ns" for ns xs
    using that
  proof (induction xs)
    case (Cons x xs)
    have "mset (concat (map (\<lambda>n. filter (\<lambda>y. sm_Name y = n) (x # xs)) ns))
        = mset (concat (map (\<lambda>n. filter (\<lambda>y. sm_Name y = n) xs) ns)) + (if sm_Name x \<in> set ns then {#x#} else {#})"
      using Cons.prems(1) by (induction ns) auto
    with Cons show ?case by simp
  qed simp
  have "by_name s = (\<lambda>n. filter (\<lambda>x. sm_Name x = n) (samples s))"
    using assms by (auto simp: by_name_filter)
  then show ?thesis using gen [of "names s" "samples s"] assms names_distinct names_set by simp
qed

end

text \<open>The code's snapshots: built by \<open>BuildSnapshot\<close> in some order. The view is of the
  results they were built from.\<close>

record 'e Built =
  bl_results :: "'e ClusterSnapshot option list"
  bl_order :: "string list \<Rightarrow> string list"

definition built :: "'e Built \<Rightarrow> 'e Snapshot" where
  "built b = BuildSnapshot (bl_order b) (bl_results b)"

interpretation sv: snapshot_view
  "\<lambda>b. MetricNames (built b)" "\<lambda>b. SamplesByName (built b)" "\<lambda>b. all_samples (bl_results b)"
  "\<lambda>b. \<forall>ks. mset (bl_order b ks) = mset ks"
proof unfold_locales
  fix b :: "'e Built" and n
  assume "\<forall>ks. mset (bl_order b ks) = mset ks"
  then have "is_order (\<lambda>i. bl_order b)" by (simp add: is_order_def)
  from MetricNames_Build [OF this, of "bl_results b"] show "distinct (MetricNames (built b))"
    and "set (MetricNames (built b)) = sm_Name ` set (all_samples (bl_results b))"
    by (simp_all add: built_def)
  show "SamplesByName (built b) n = filter (\<lambda>x. sm_Name x = n) (all_samples (bl_results b))"
    by (simp add: built_def SamplesByName_Build)
qed

text \<open>C28: The index of a snapshot loses and duplicates nothing: the metric names are distinct,
  looking up every name and joining the answers gives every cluster's samples exactly once, and
  the samples of one name keep the order of the clusters and of their samples.\<close>

theorem BuildSnapshot_index:
  assumes "is_order ord"
  shows "let s = BuildSnapshot (ord i) results
    in distinct (MetricNames s)
     \<and> mset (concat (map (SamplesByName s) (MetricNames s))) = mset (all_samples results)
     \<and> SamplesByName s n = filter (\<lambda>x. sm_Name x = n) (all_samples results)"
  using sv.names_distinct [of "\<lparr>bl_results = results, bl_order = ord i\<rparr>"]
    sv.partition [of "\<lparr>bl_results = results, bl_order = ord i\<rparr>"]
    sv.by_name_filter [of "\<lparr>bl_results = results, bl_order = ord i\<rparr>"] assms
  by (simp add: built_def is_order_def Let_def)

theorem BuildSnapshot_index_witness:
  "MetricNames (BuildSnapshot rev [Some \<lparr>cs_Cluster = ''c'', cs_Up = True, cs_APIVersion = 16,
      cs_ScrapeError = (None :: unit option), cs_LastScrape = None,
      cs_Samples = [sample ''b'' [] 1, sample ''a'' [] 0, sample ''b'' [] 0]\<rparr>]) = [''a'', ''b'']
   \<and> mset (sample ''a'' [] 0 # [sample ''b'' [] 1, sample ''b'' [] 0]) =
     mset [sample ''b'' [] 1, sample ''a'' [] 0, sample ''b'' [] 0]"
proof -
  let ?cs = "[Some \<lparr>cs_Cluster = ''c'', cs_Up = True, cs_APIVersion = 16,
      cs_ScrapeError = (None :: unit option), cs_LastScrape = None,
      cs_Samples = [sample ''b'' [] 1, sample ''a'' [] 0, sample ''b'' [] 0]\<rparr>]"
  have "is_order (\<lambda>i. rev)" by (simp add: is_order_def)
  note idx = BuildSnapshot_index [OF this, where results = ?cs]
  have names: "MetricNames (BuildSnapshot rev ?cs) = [''a'', ''b'']" by code_simp
  moreover have "SamplesByName (BuildSnapshot rev ?cs) ''a'' = [sample ''a'' [] 0]"
    "SamplesByName (BuildSnapshot rev ?cs) ''b'' = [sample ''b'' [] 1, sample ''b'' [] 0]"
    using idx [where n = "''a''"] idx [where n = "''b''"] by (simp_all add: Let_def)
  moreover note idx
  ultimately show ?thesis by (simp add: Let_def)
qed

text \<open>Clusters in the snapshot: a name maps to the last result with that name, results that
  are missing (nil) are skipped, and nothing else is in the map.\<close>

lemma BuildSnapshot_per_cluster:
  "map_of (sh_PerCluster (BuildSnapshot o1 results)) n =
     find (\<lambda>c. cs_Cluster c = n) (rev (List.map_filter id results))
   \<and> wf_map (sh_PerCluster (BuildSnapshot o1 results))"
  by (simp add: BuildSnapshot_sel per_cluster_lookup wf_per_cluster split: option.split)

end
