(* ===== verification/Collector.thy ===== *)
theory Collector
  imports Client Snapshot
begin

text \<open>
  \<open>internal/powerscale/interface.go\<close>, \<open>lazy.go\<close> and \<open>collector.go\<close>: the client interface, the client
  that is created on demand, and one collection cycle over all clusters.

  A Go interface value is its table of methods (\<open>ClientOps\<close>) over a client state \<open>'c\<close> and the
  cluster's world \<open>'w\<close>; a method returns its result with the new states. The contract the collector
  relies on is the locale \<open>client_contract\<close>, interpreted by \<open>ClusterClient\<close>, by \<open>LazyClient\<close> over any
  contract-abiding client, and by the two kinds together as \<open>buildClients\<close> mixes them.

  The goroutines of a cycle are tasks that advance one API call at a time in any order
  (\<open>cycle_step\<close>). Each cluster has its own world; what the goroutines share is the record of the
  hardware explanations already logged, whose \<open>LoadOrStore\<close> is one step.
\<close>

section \<open>The interface\<close>

record ('c, 'w, 'e) ClientOps =
  ops_Name :: "'c \<Rightarrow> string"
  ops_APIVersion :: "bool \<Rightarrow> 'c \<Rightarrow> 'w \<Rightarrow> ('e + int) \<times> 'c \<times> 'w"
  ops_GetInventory :: "bool \<Rightarrow> 'c \<Rightarrow> 'w \<Rightarrow> ('e + Inventory) \<times> 'c \<times> 'w"
  ops_GetStatistics :: "bool \<Rightarrow> 'c \<Rightarrow> 'w \<Rightarrow> ('e + Statistics) \<times> 'c \<times> 'w"
  ops_Close :: "'c \<Rightarrow> 'w \<Rightarrow> bool \<times> 'c \<times> 'w"

text \<open>\<open>ClusterClient\<close>'s methods leave the client itself unchanged.\<close>

definition cluster_ops ::
    "('n, 's, 'e) Outside \<Rightarrow> ('s ClusterClient, 'n World, 'e client_error) ClientOps" where
  "cluster_ops ou =
     \<lparr>ops_Name = cl_name,
      ops_APIVersion = (\<lambda>done c w. (Inr (APIVersion ou c), c, w)),
      ops_GetInventory = (\<lambda>done c w. (case GetInventory ou c done w of (r, w') \<Rightarrow> (r, c, w'))),
      ops_GetStatistics = (\<lambda>done c w. (case GetStatistics ou c done w of (r, w') \<Rightarrow> (r, c, w'))),
      ops_Close = (\<lambda>c w. (Close c, c, w))\<rparr>"

section \<open>LazyClient\<close>

record ('c, 'w, 'e) LazyClient =
  lz_name :: string
  lz_create :: "bool \<Rightarrow> 'w \<Rightarrow> ('e + 'c) \<times> 'w"
  lz_inner :: "'c option"

definition NewLazyClient :: "string \<Rightarrow> (bool \<Rightarrow> 'w \<Rightarrow> ('e + 'c) \<times> 'w) \<Rightarrow> ('c, 'w, 'e) LazyClient" where
  "NewLazyClient name create = \<lparr>lz_name = name, lz_create = create, lz_inner = None\<rparr>"

definition lazy_get ::
    "bool \<Rightarrow> ('c, 'w, 'e) LazyClient \<Rightarrow> 'w \<Rightarrow> ('e + 'c) \<times> ('c, 'w, 'e) LazyClient \<times> 'w" where
  "lazy_get done l w =
     (case lz_inner l of
        Some c \<Rightarrow> (Inr c, l, w)
      | None \<Rightarrow>
          (case lz_create l done w of
             (Inl e, w') \<Rightarrow> (Inl e, l, w')
           | (Inr c, w') \<Rightarrow> (Inr c, l\<lparr>lz_inner := Some c\<rparr>, w')))"

text \<open>A delegating method: the inner client's new state stays inside.\<close>

definition delegate ::
    "(bool \<Rightarrow> 'c \<Rightarrow> 'w \<Rightarrow> ('e + 'a) \<times> 'c \<times> 'w) \<Rightarrow> bool \<Rightarrow> ('c, 'w, 'e) LazyClient \<Rightarrow> 'w
     \<Rightarrow> ('e + 'a) \<times> ('c, 'w, 'e) LazyClient \<times> 'w" where
  "delegate method done l w =
     (case lazy_get done l w of
        (Inl e, l', w') \<Rightarrow> (Inl e, l', w')
      | (Inr c, l', w') \<Rightarrow>
          (case method done c w' of (r, c', w'') \<Rightarrow> (r, l'\<lparr>lz_inner := Some c'\<rparr>, w'')))"

definition lazy_close ::
    "('c \<Rightarrow> 'w \<Rightarrow> bool \<times> 'c \<times> 'w) \<Rightarrow> ('c, 'w, 'e) LazyClient \<Rightarrow> 'w
     \<Rightarrow> bool \<times> ('c, 'w, 'e) LazyClient \<times> 'w" where
  "lazy_close close l w =
     (case lz_inner l of
        None \<Rightarrow> (True, l, w)
      | Some c \<Rightarrow> (case close c w of (ok, c', w') \<Rightarrow> (ok, l\<lparr>lz_inner := Some c'\<rparr>, w')))"

definition lazy_ops ::
    "('c, 'w, 'e) ClientOps \<Rightarrow> (('c, 'w, 'e) LazyClient, 'w, 'e) ClientOps" where
  "lazy_ops ops =
     \<lparr>ops_Name = lz_name,
      ops_APIVersion = delegate (ops_APIVersion ops),
      ops_GetInventory = delegate (ops_GetInventory ops),
      ops_GetStatistics = delegate (ops_GetStatistics ops),
      ops_Close = lazy_close (ops_Close ops)\<rparr>"

text \<open>The clients of the program: a session made at startup, or one made on demand.\<close>

datatype ('n, 's, 'e) AnyClient =
    Direct "'s ClusterClient"
  | Lazy "('s ClusterClient, 'n World, 'e client_error) LazyClient"

definition wrap :: "('c \<Rightarrow> 'd) \<Rightarrow> 'r \<times> 'c \<times> 'w \<Rightarrow> 'r \<times> 'd \<times> 'w" where
  "wrap K p = (case p of (r, c, w) \<Rightarrow> (r, K c, w))"

definition any_ops ::
    "('n, 's, 'e) Outside \<Rightarrow> (('n, 's, 'e) AnyClient, 'n World, 'e client_error) ClientOps" where
  "any_ops ou =
     (let D = cluster_ops ou; L = lazy_ops (cluster_ops ou)
      in \<lparr>ops_Name = (\<lambda>a. case a of Direct c \<Rightarrow> ops_Name D c | Lazy l \<Rightarrow> ops_Name L l),
          ops_APIVersion = (\<lambda>done a w. case a of
             Direct c \<Rightarrow> wrap Direct (ops_APIVersion D done c w) | Lazy l \<Rightarrow> wrap Lazy (ops_APIVersion L done l w)),
          ops_GetInventory = (\<lambda>done a w. case a of
             Direct c \<Rightarrow> wrap Direct (ops_GetInventory D done c w) | Lazy l \<Rightarrow> wrap Lazy (ops_GetInventory L done l w)),
          ops_GetStatistics = (\<lambda>done a w. case a of
             Direct c \<Rightarrow> wrap Direct (ops_GetStatistics D done c w) | Lazy l \<Rightarrow> wrap Lazy (ops_GetStatistics L done l w)),
          ops_Close = (\<lambda>a w. case a of
             Direct c \<Rightarrow> wrap Direct (ops_Close D c w) | Lazy l \<Rightarrow> wrap Lazy (ops_Close L l w))\<rparr>)"

section \<open>Missing hardware\<close>

record hw_scan =
  hs_silent :: "string list"
  hs_virtual :: int
  hs_identity :: string

fun scan_hardware :: "hw_scan \<Rightarrow> Node list \<Rightarrow> hw_scan" where
  "scan_hardware s [] = s"
| "scan_hardware s (n # ns) =
     (if ReportsHardwareSensors n then scan_hardware s ns
      else
        (let s1 = s\<lparr>hs_silent := hs_silent s @ [Itoa (nd_LNN n)]\<rparr>
         in scan_hardware
              (if VirtualHardware n then
                 s1\<lparr>hs_virtual := hs_virtual s1 + 1,
                    hs_identity := (if hs_identity s1 = []
                      then ''series='' @ nd_Series n @ '', hwgen='' @ nd_HWGen n @ '', product='' @ nd_Product n
                      else hs_identity s1)\<rparr>
               else s1) ns))"

definition explainMissingHardware :: "Node list \<Rightarrow> string" where
  "explainMissingHardware nodes =
     (let s = scan_hardware \<lparr>hs_silent = [], hs_virtual = 0, hs_identity = []\<rparr> nodes
      in if hs_silent s = [] then []
         else
           (let reason = (if hs_virtual s = int (length (hs_silent s))
                then ''report virtual hardware ('' @ hs_identity s @ '') and expose no physical sensors''
                else ''report no power supplies and no temperature or fan sensors (nodes ''
                       @ Join (hs_silent s) '','' @ '')'')
            in Itoa (int (length (hs_silent s))) @ ''/'' @ Itoa (int (length nodes)) @ '' nodes '' @ reason
               @ '', so powerscale_node_temperature_celsius, powerscale_node_fan_speed_rpm, ''
               @ ''powerscale_node_power_supplies and powerscale_node_power_supply_failures ''
               @ ''are absent for those nodes''))"

record Explained =
  ex_seen :: "string list"
  ex_log :: "(string \<times> string) list"

definition explain_key :: "string \<Rightarrow> string \<Rightarrow> string" where
  "explain_key cluster msg = cluster @ [CHR 0x00] @ msg"

definition explainHardwareOnce :: "string \<Rightarrow> Inventory \<Rightarrow> Explained \<Rightarrow> Explained" where
  "explainHardwareOnce cluster iv h =
     (if iv_Nodes iv = [] then h
      else
        (let msg = explainMissingHardware (iv_Nodes iv)
         in if msg = [] then h
            else if explain_key cluster msg \<in> set (ex_seen h) then h
            else h\<lparr>ex_seen := ex_seen h @ [explain_key cluster msg], ex_log := ex_log h @ [(cluster, msg)]\<rparr>))"

section \<open>One cluster\<close>

definition new_snapshot :: "string \<Rightarrow> int \<Rightarrow> 'e ClusterSnapshot" where
  "new_snapshot name now =
     \<lparr>cs_Cluster = name, cs_Up = False, cs_APIVersion = 0, cs_ScrapeError = None,
      cs_LastScrape = Some now, cs_Samples = []\<rparr>"

definition collectCluster ::
    "('c, 'w, 'e) ClientOps \<Rightarrow> order \<Rightarrow> ('w \<Rightarrow> int) \<Rightarrow> bool \<Rightarrow> 'c \<Rightarrow> 'w \<Rightarrow> Explained
     \<Rightarrow> 'e ClusterSnapshot \<times> 'c \<times> 'w \<times> Explained" where
  "collectCluster ops ord now done c w h =
     (let (v, c1, w1) = ops_APIVersion ops done c w;
          cs0 = new_snapshot (ops_Name ops c) (now w);
          cs = (case v of Inr n \<Rightarrow> cs0\<lparr>cs_APIVersion := n\<rparr> | Inl e \<Rightarrow> cs0);
          (i, c2, w2) = ops_GetInventory ops done c1 w1
      in case i of
           Inl e \<Rightarrow> (cs\<lparr>cs_ScrapeError := Some e\<rparr>, c2, w2, h)
         | Inr iv \<Rightarrow>
             (let (s, c3, w3) = ops_GetStatistics ops done c2 w2
              in case s of
                   Inl e \<Rightarrow> (cs\<lparr>cs_ScrapeError := Some e\<rparr>, c3, w3, h)
                 | Inr st \<Rightarrow>
                     (cs\<lparr>cs_Samples := BuildSamples ord (ops_Name ops c3) (Some iv) (Some st), cs_Up := True\<rparr>,
                      c3, w3, explainHardwareOnce (ops_Name ops c3) iv h)))"

section \<open>One cycle\<close>

text \<open>A goroutine between two of its API calls.\<close>

datatype ('c, 'w, 'e) task =
    Started 'c 'w
  | Versioned "'e ClusterSnapshot" 'c 'w
  | Inventoried "'e ClusterSnapshot" Inventory 'c 'w
  | Finished "'e ClusterSnapshot" 'c 'w

fun task_step ::
    "('c, 'w, 'e) ClientOps \<Rightarrow> order \<Rightarrow> ('w \<Rightarrow> int) \<Rightarrow> bool \<Rightarrow> ('c, 'w, 'e) task \<Rightarrow> Explained
     \<Rightarrow> (('c, 'w, 'e) task \<times> Explained) option" where
  "task_step ops ord now done (Started c w) h =
     (case ops_APIVersion ops done c w of
        (v, c1, w1) \<Rightarrow>
          (let cs0 = new_snapshot (ops_Name ops c) (now w)
           in Some (Versioned (case v of Inr n \<Rightarrow> cs0\<lparr>cs_APIVersion := n\<rparr> | Inl e \<Rightarrow> cs0) c1 w1, h)))"
| "task_step ops ord now done (Versioned cs c w) h =
     (case ops_GetInventory ops done c w of
        (Inl e, c1, w1) \<Rightarrow> Some (Finished (cs\<lparr>cs_ScrapeError := Some e\<rparr>) c1 w1, h)
      | (Inr iv, c1, w1) \<Rightarrow> Some (Inventoried cs iv c1 w1, h))"
| "task_step ops ord now done (Inventoried cs iv c w) h =
     (case ops_GetStatistics ops done c w of
        (Inl e, c1, w1) \<Rightarrow> Some (Finished (cs\<lparr>cs_ScrapeError := Some e\<rparr>) c1 w1, h)
      | (Inr st, c1, w1) \<Rightarrow>
          Some (Finished (cs\<lparr>cs_Samples := BuildSamples ord (ops_Name ops c1) (Some iv) (Some st), cs_Up := True\<rparr>)
                  c1 w1,
                explainHardwareOnce (ops_Name ops c1) iv h))"
| "task_step ops ord now done (Finished cs c w) h = None"

fun task_final :: "('c, 'w, 'e) task \<Rightarrow> ('e ClusterSnapshot \<times> 'c \<times> 'w) option" where
  "task_final (Finished cs c w) = Some (cs, c, w)"
| "task_final t = None"

text \<open>The orders of the map loops are those of each cluster's own run: \<open>ords i\<close> for the \<open>i\<close>-th
  client.\<close>

inductive cycle_step ::
    "('c, 'w, 'e) ClientOps \<Rightarrow> (nat \<Rightarrow> order) \<Rightarrow> ('w \<Rightarrow> int) \<Rightarrow> bool
     \<Rightarrow> ('c, 'w, 'e) task list \<times> Explained \<Rightarrow> ('c, 'w, 'e) task list \<times> Explained \<Rightarrow> bool"
  for ops ords now dn where
  advance: "i < length ts \<Longrightarrow> task_step ops (ords i) now dn (ts ! i) h = Some (t', h') \<Longrightarrow>
     cycle_step ops ords now dn (ts, h) (ts[i := t'], h')"

inductive_cases cycle_stepE: "cycle_step ops ords now dn (ts, h) (ts', h')"

definition start_tasks :: "('c \<times> 'w) list \<Rightarrow> ('c, 'w, 'e) task list" where
  "start_tasks cws = map (\<lambda>(c, w). Started c w) cws"

text \<open>\<open>collectAll\<close>: \<open>Wait\<close> returns when every goroutine has stored its result; then the snapshot is
  built from the results in the order of the clients, whose states go on to the next cycle.\<close>

inductive collectAll ::
    "('c, 'w, 'e) ClientOps \<Rightarrow> (nat \<Rightarrow> order) \<Rightarrow> ('w \<Rightarrow> int) \<Rightarrow> bool \<Rightarrow> (string list \<Rightarrow> string list)
     \<Rightarrow> ('c \<times> 'w) list \<Rightarrow> Explained \<Rightarrow> 'e Snapshot \<Rightarrow> ('c \<times> 'w) list \<Rightarrow> Explained \<Rightarrow> bool" where
  wait: "(cycle_step ops ords now dn)\<^sup>*\<^sup>* (start_tasks cws, h) (ts, h') \<Longrightarrow>
     map task_final ts = map Some rs \<Longrightarrow>
     collectAll ops ords now dn o1 cws h
       (BuildSnapshot o1 (map (\<lambda>(cs, c, w). Some cs) rs)) (map snd rs) h'"

section \<open>What the collector relies on\<close>

locale client_contract =
  fixes ops :: "('c, 'w, 'e) ClientOps"
  assumes version_name: "ops_APIVersion ops d c w = (v, c', w') \<Longrightarrow> ops_Name ops c' = ops_Name ops c"
    and inventory_name: "ops_GetInventory ops d c w = (i, c', w') \<Longrightarrow> ops_Name ops c' = ops_Name ops c"
    and statistics_name: "ops_GetStatistics ops d c w = (s, c', w') \<Longrightarrow> ops_Name ops c' = ops_Name ops c"
    and close_name: "ops_Close ops c w = (ok, c', w') \<Longrightarrow> ops_Name ops c' = ops_Name ops c"
begin

text \<open>A scrape is of the cluster it was started for, and is either up with samples or down with
  an error and no samples.\<close>

lemma collect_outcome:
  assumes "collectCluster ops ord now d c w h = (cs, c', w', h')"
  shows "cs_Cluster cs = ops_Name ops c" and "ops_Name ops c' = ops_Name ops c"
    and "if cs_Up cs then cs_ScrapeError cs = None else cs_ScrapeError cs \<noteq> None \<and> cs_Samples cs = []"
    and "list_all conforms (cs_Samples cs)"
proof -
  obtain v c1 w1 where v: "ops_APIVersion ops d c w = (v, c1, w1)" by (metis prod_cases3)
  obtain i c2 w2 where i: "ops_GetInventory ops d c1 w1 = (i, c2, w2)" by (metis prod_cases3)
  obtain s c3 w3 where s: "ops_GetStatistics ops d c2 w2 = (s, c3, w3)" by (metis prod_cases3)
  have names: "ops_Name ops c1 = ops_Name ops c" "ops_Name ops c2 = ops_Name ops c" "ops_Name ops c3 = ops_Name ops c"
    using version_name [OF v] inventory_name [OF i] statistics_name [OF s] by simp_all
  show "cs_Cluster cs = ops_Name ops c" "ops_Name ops c' = ops_Name ops c"
    "if cs_Up cs then cs_ScrapeError cs = None else cs_ScrapeError cs \<noteq> None \<and> cs_Samples cs = []"
    "list_all conforms (cs_Samples cs)"
    using assms names
    by (auto simp: collectCluster_def v i s new_snapshot_def Let_def samples_conform split: sum.splits)
qed

end

lemma lazy_get_name: "lazy_get d l w = (r, l', w') \<Longrightarrow> lz_name l' = lz_name l"
  by (auto simp: lazy_get_def split: option.splits prod.splits sum.splits)

lemma delegate_name: "delegate m d l w = (r, l', w') \<Longrightarrow> lz_name l' = lz_name l"
  by (auto simp: delegate_def dest!: lazy_get_name split: prod.splits sum.splits)

lemma lazy_close_name: "lazy_close cl l w = (r, l', w') \<Longrightarrow> lz_name l' = lz_name l"
  by (auto simp: lazy_close_def split: option.splits prod.splits)

text \<open>A lazy client over a client that keeps the contract keeps it too; what creates the inner
  client gives it the lazy client's name.\<close>

locale lazy_client = client_contract ops for ops :: "('c, 'w, 'e) ClientOps" +
  fixes create :: "bool \<Rightarrow> 'w \<Rightarrow> ('e + 'c) \<times> 'w" and name :: string
  assumes created_name: "create d w = (Inr c, w') \<Longrightarrow> ops_Name ops c = name"
begin

lemma inner_name:
  assumes "lazy_get d (NewLazyClient name create) w = (Inr c, l', w')"
  shows "ops_Name ops c = ops_Name (lazy_ops ops) l'"
  using assms created_name
  by (auto simp: lazy_get_def NewLazyClient_def lazy_ops_def split: prod.splits sum.splits)

end

sublocale lazy_client \<subseteq> lazy: client_contract "lazy_ops ops"
  by unfold_locales (auto simp: lazy_ops_def dest: delegate_name lazy_close_name)

interpretation cluster: client_contract "cluster_ops ou"
  by unfold_locales (auto simp: cluster_ops_def split: prod.splits)

interpretation lazy_cluster:
  lazy_client "cluster_ops ou" "\<lambda>d. NewClusterClient ou d cfg dumpDir tr" "cc_Name cfg"
  by unfold_locales (auto simp: cluster_ops_def NewClusterClient_def Let_def split: prod.splits sum.splits)

lemma wrap_eq: "wrap K p = (r, d, w) \<longleftrightarrow> (\<exists>c. p = (r, c, w) \<and> d = K c)"
  by (cases p) (auto simp: wrap_def)

interpretation any: client_contract "any_ops ou"
proof unfold_locales
  fix d c w v c' w'
  assume "ops_APIVersion (any_ops ou) d c w = (v, c', w')"
  then show "ops_Name (any_ops ou) c' = ops_Name (any_ops ou) c"
    by (cases c) (auto simp: any_ops_def Let_def wrap_eq dest: cluster.version_name lazy_cluster.lazy.version_name)
next
  fix d c w i c' w'
  assume "ops_GetInventory (any_ops ou) d c w = (i, c', w')"
  then show "ops_Name (any_ops ou) c' = ops_Name (any_ops ou) c"
    by (cases c) (auto simp: any_ops_def Let_def wrap_eq dest: cluster.inventory_name lazy_cluster.lazy.inventory_name)
next
  fix d c w s c' w'
  assume "ops_GetStatistics (any_ops ou) d c w = (s, c', w')"
  then show "ops_Name (any_ops ou) c' = ops_Name (any_ops ou) c"
    by (cases c) (auto simp: any_ops_def Let_def wrap_eq dest: cluster.statistics_name lazy_cluster.lazy.statistics_name)
next
  fix c w ok c' w'
  assume "ops_Close (any_ops ou) c w = (ok, c', w')"
  then show "ops_Name (any_ops ou) c' = ops_Name (any_ops ou) c"
    by (cases c) (auto simp: any_ops_def Let_def wrap_eq dest: cluster.close_name lazy_cluster.lazy.close_name)
qed

text \<open>C16: One cluster's scrape, for every client the program builds and whatever the API answers:
  the result is filed under the configured name, the client keeps its name, and the result is
  either up, without error, with samples that all follow the metric schema, or down, with an
  error and without samples.\<close>

theorem collectCluster_outcome:
  "case collectCluster (any_ops ou) ord now d c w h of (cs, c', w', h') \<Rightarrow>
     cs_Cluster cs = ops_Name (any_ops ou) c \<and> ops_Name (any_ops ou) c' = ops_Name (any_ops ou) c
     \<and> (if cs_Up cs then cs_ScrapeError cs = None else cs_ScrapeError cs \<noteq> None \<and> cs_Samples cs = [])
     \<and> list_all conforms (cs_Samples cs)"
proof -
  obtain cs c' w' h' where r: "collectCluster (any_ops ou) ord now d c w h = (cs, c', w', h')"
    by (metis prod_cases4)
  show ?thesis
    using any.collect_outcome [OF r] by (auto simp: r)
qed

section \<open>LazyClient\<close>

text \<open>A lazy client retries until its client exists and is that client from then on: while the
  creation fails, every method returns the creation's error and the client stays as it was; the
  first method after a successful creation, and every later one, is the method of the created
  client, and the creation is never run again.\<close>

lemma LazyClient_retries:
  "case lazy_get d l w of
     (Inl e, l', w') \<Rightarrow> l' = l \<and> lz_inner l = None \<and> lz_create l d w = (Inl e, w')
       \<and> ops_GetInventory (lazy_ops ops) d l w = (Inl e, l, w')
       \<and> ops_GetStatistics (lazy_ops ops) d l w = (Inl e, l, w')
   | (Inr c, l', w') \<Rightarrow> lz_inner l' = Some c \<and> lazy_get d2 l' w2 = (Inr c, l', w2)
       \<and> ops_GetInventory (lazy_ops ops) d l w =
           wrap (\<lambda>c2. l'\<lparr>lz_inner := Some c2\<rparr>) (ops_GetInventory ops d c w')
       \<and> ops_GetStatistics (lazy_ops ops) d2 l' w2 =
           wrap (\<lambda>c2. l'\<lparr>lz_inner := Some c2\<rparr>) (ops_GetStatistics ops d2 c w2)"
  by (auto simp: lazy_get_def lazy_ops_def delegate_def wrap_def split: option.splits prod.splits sum.splits)

section \<open>Missing hardware\<close>

lemma scan_hardware_silent:
  "hs_silent (scan_hardware s ns) =
     hs_silent s @ map (\<lambda>n. Itoa (nd_LNN n)) (filter (\<lambda>n. \<not> ReportsHardwareSensors n) ns)"
  by (induction s ns rule: scan_hardware.induct) (auto simp: Let_def)

lemma explain_empty: "explainMissingHardware ns = [] \<longleftrightarrow> list_all ReportsHardwareSensors ns"
  by (auto simp: explainMissingHardware_def Let_def scan_hardware_silent filter_empty_conv list_all_iff)

definition explained_ok :: "Explained \<Rightarrow> bool" where
  "explained_ok h \<longleftrightarrow> distinct (ex_seen h) \<and> map (\<lambda>(cl, msg). explain_key cl msg) (ex_log h) = ex_seen h"

lemma explain_once_ok: "explained_ok h \<Longrightarrow> explained_ok (explainHardwareOnce cl iv h)"
  by (auto simp: explained_ok_def explainHardwareOnce_def Let_def)

text \<open>The hardware explanation is logged once: it is issued exactly when the cluster has nodes
  of which some report no sensors and this cluster's message was not logged before, repeating it
  for the same inventory changes nothing, and the record of logged messages stays free of
  duplicates.\<close>

lemma explainHardwareOnce_once:
  "let h' = explainHardwareOnce cl iv h; msg = explainMissingHardware (iv_Nodes iv)
   in (ex_log h' = ex_log h @ [(cl, msg)] \<longleftrightarrow>
         \<not> list_all ReportsHardwareSensors (iv_Nodes iv) \<and> explain_key cl msg \<notin> set (ex_seen h))
    \<and> explainHardwareOnce cl iv h' = h'
    \<and> (explained_ok h \<longrightarrow> explained_ok h')"
  using explain_once_ok [of h cl iv] explain_empty [of "iv_Nodes iv"]
  by (auto simp: explainHardwareOnce_def Let_def)

lemma explainHardwareOnce_once_witness:
  "explained_ok (explainHardwareOnce ''c'' \<lparr>iv_Cluster = \<lparr>ci_Name = [], ci_GUID = [], ci_Release = []\<rparr>,
     iv_Nodes = [node_of zero_rawNode], iv_Quotas = [], iv_Counts = \<lparr>ct_NFSExports = 0, ct_SMBShares = 0, ct_Snapshots = 0\<rparr>,
     iv_Snapshot = \<lparr>ss_UsedBytes = 0\<rparr>, iv_SyncPolicies = [], iv_Events = [],
     iv_Dedupe = \<lparr>dd_LogicalSavedBytes = 0, dd_DeduplicatedBytes = 0\<rparr>, iv_Licenses = [], iv_StoragePools = []\<rparr>
     \<lparr>ex_seen = [], ex_log = []\<rparr>)"
  by (rule explainHardwareOnce_once [unfolded Let_def, THEN conjunct2, THEN conjunct2, rule_format])
    (simp add: explained_ok_def)

section \<open>The cycle does not depend on the interleaving\<close>

text \<open>What a task will end with: its remaining calls one after the other, on its own states.\<close>

definition end_statistics ::
    "('c, 'w, 'e) ClientOps \<Rightarrow> order \<Rightarrow> bool \<Rightarrow> 'e ClusterSnapshot \<Rightarrow> Inventory \<Rightarrow> 'c \<Rightarrow> 'w
     \<Rightarrow> 'e ClusterSnapshot \<times> 'c \<times> 'w" where
  "end_statistics ops ord d cs iv c w =
     (case ops_GetStatistics ops d c w of
        (Inl e, c1, w1) \<Rightarrow> (cs\<lparr>cs_ScrapeError := Some e\<rparr>, c1, w1)
      | (Inr st, c1, w1) \<Rightarrow>
          (cs\<lparr>cs_Samples := BuildSamples ord (ops_Name ops c1) (Some iv) (Some st), cs_Up := True\<rparr>, c1, w1))"

definition end_inventory ::
    "('c, 'w, 'e) ClientOps \<Rightarrow> order \<Rightarrow> bool \<Rightarrow> 'e ClusterSnapshot \<Rightarrow> 'c \<Rightarrow> 'w
     \<Rightarrow> 'e ClusterSnapshot \<times> 'c \<times> 'w" where
  "end_inventory ops ord d cs c w =
     (case ops_GetInventory ops d c w of
        (Inl e, c1, w1) \<Rightarrow> (cs\<lparr>cs_ScrapeError := Some e\<rparr>, c1, w1)
      | (Inr iv, c1, w1) \<Rightarrow> end_statistics ops ord d cs iv c1 w1)"

text \<open>The result of \<open>collectCluster\<close> without the shared record.\<close>

definition scrape ::
    "('c, 'w, 'e) ClientOps \<Rightarrow> order \<Rightarrow> ('w \<Rightarrow> int) \<Rightarrow> bool \<Rightarrow> 'c \<times> 'w \<Rightarrow> 'e ClusterSnapshot \<times> 'c \<times> 'w" where
  "scrape ops ord now d cw =
     (case collectCluster ops ord now d (fst cw) (snd cw) \<lparr>ex_seen = [], ex_log = []\<rparr> of
        (cs, c', w', h') \<Rightarrow> (cs, c', w'))"

fun task_end ::
    "('c, 'w, 'e) ClientOps \<Rightarrow> order \<Rightarrow> ('w \<Rightarrow> int) \<Rightarrow> bool \<Rightarrow> ('c, 'w, 'e) task
     \<Rightarrow> 'e ClusterSnapshot \<times> 'c \<times> 'w" where
  "task_end ops ord now d (Finished cs c w) = (cs, c, w)"
| "task_end ops ord now d (Inventoried cs iv c w) = end_statistics ops ord d cs iv c w"
| "task_end ops ord now d (Versioned cs c w) = end_inventory ops ord d cs c w"
| "task_end ops ord now d (Started c w) = scrape ops ord now d (c, w)"

lemma collect_scrape:
  "(case collectCluster ops ord now d c w h of (cs, c', w', h') \<Rightarrow> (cs, c', w')) = scrape ops ord now d (c, w)"
  by (simp add: scrape_def collectCluster_def Let_def split: prod.split sum.split)

lemma scrape_phases:
  "scrape ops ord now d (c, w) =
     (case ops_APIVersion ops d c w of (v, c1, w1) \<Rightarrow>
        (let cs0 = new_snapshot (ops_Name ops c) (now w)
         in end_inventory ops ord d (case v of Inr n \<Rightarrow> cs0\<lparr>cs_APIVersion := n\<rparr> | Inl e \<Rightarrow> cs0) c1 w1))"
  by (simp add: scrape_def collectCluster_def end_inventory_def end_statistics_def Let_def
      split: prod.split sum.split)

lemma task_step_end: "task_step ops ord now d t h = Some (t', h') \<Longrightarrow>
    task_end ops ord now d t' = task_end ops ord now d t"
  by (cases t)
    (auto simp: scrape_phases end_inventory_def end_statistics_def Let_def split: prod.splits sum.splits)

definition task_rank :: "('c, 'w, 'e) task \<Rightarrow> nat" where
  "task_rank t = (case t of Started c w \<Rightarrow> 3 | Versioned cs c w \<Rightarrow> 2 | Inventoried cs iv c w \<Rightarrow> 1 | Finished cs c w \<Rightarrow> 0)"

lemma task_step_rank: "task_step ops ord now d t h = Some (t', h') \<Longrightarrow> task_rank t' < task_rank t"
  by (cases t) (auto simp: task_rank_def Let_def split: prod.splits sum.splits)

lemma task_step_None: "task_step ops ord now d t h = None \<longleftrightarrow> task_final t \<noteq> None"
  by (cases t) (auto simp: Let_def split: prod.split sum.split)

definition tasks_end ::
    "('c, 'w, 'e) ClientOps \<Rightarrow> (nat \<Rightarrow> order) \<Rightarrow> ('w \<Rightarrow> int) \<Rightarrow> bool \<Rightarrow> ('c, 'w, 'e) task list
     \<Rightarrow> ('e ClusterSnapshot \<times> 'c \<times> 'w) list" where
  "tasks_end ops ords now d ts = map (\<lambda>i. task_end ops (ords i) now d (ts ! i)) [0..<length ts]"

lemma cycle_step_end:
  assumes "cycle_step ops ords now d (ts, h) (ts', h')"
  shows "tasks_end ops ords now d ts' = tasks_end ops ords now d ts"
    and "sum_list (map task_rank ts') < sum_list (map task_rank ts)"
proof -
  obtain i t' where ts': "ts' = ts[i := t']" and i: "i < length ts"
    and t': "task_step ops (ords i) now d (ts ! i) h = Some (t', h')"
    using assms by (elim cycle_stepE) auto
  have "sum_list (map task_rank ts) = sum_list (map task_rank (take i ts)) + task_rank (ts ! i)
      + sum_list (map task_rank (drop (Suc i) ts))"
    using i by (subst id_take_nth_drop [of i ts]) simp_all
  moreover have "sum_list (map task_rank ts') = sum_list (map task_rank (take i ts)) + task_rank t'
      + sum_list (map task_rank (drop (Suc i) ts))"
    using i by (simp add: upd_conv_take_nth_drop ts')
  ultimately show "sum_list (map task_rank ts') < sum_list (map task_rank ts)"
    using task_step_rank [OF t'] by simp
  show "tasks_end ops ords now d ts' = tasks_end ops ords now d ts"
    using i task_step_end [OF t'] unfolding tasks_end_def ts' by (auto simp: nth_list_update)
qed

lemma cycle_steps_end:
  assumes "(cycle_step ops ords now d)\<^sup>*\<^sup>* (ts, h) (ts', h')"
  shows "tasks_end ops ords now d ts' = tasks_end ops ords now d ts"
  using assms
proof (induction "(ts', h')" arbitrary: ts' h' rule: rtranclp_induct)
  case (step y)
  obtain a b where y: "y = (a, b)" by (cases y)
  then have "tasks_end ops ords now d ts' = tasks_end ops ords now d a"
    using step.hyps(2) by (simp add: cycle_step_end(1))
  with step.hyps(3) [OF y] show ?case by simp
qed simp

lemma cycle_finishes:
  "\<exists>ts' h' rs. (cycle_step ops ords now d)\<^sup>*\<^sup>* (ts, h) (ts', h') \<and> map task_final ts' = map Some rs"
proof (induction "sum_list (map task_rank ts)" arbitrary: ts h rule: less_induct)
  case less
  show ?case
  proof (cases "\<exists>i < length ts. task_final (ts ! i) = None")
    case True
    then obtain i where i: "i < length ts" "task_final (ts ! i) = None" by blast
    then obtain t' h1 where "task_step ops (ords i) now d (ts ! i) h = Some (t', h1)"
      using task_step_None [of ops "ords i" now d "ts ! i" h] by (metis option.exhaust surj_pair)
    then have step: "cycle_step ops ords now d (ts, h) (ts[i := t'], h1)" using i(1) by (intro cycle_step.advance)
    from less [OF cycle_step_end(2) [OF step]] step show ?thesis
      by (meson converse_rtranclp_into_rtranclp)
  next
    case False
    then have "map task_final ts = map Some (map (\<lambda>t. the (task_final t)) ts)"
      by (auto simp: in_set_conv_nth list_eq_iff_nth_eq)
    then show ?thesis by blast
  qed
qed

lemma tasks_end_final: "map task_final ts = map Some rs \<Longrightarrow> tasks_end ops ords now d ts = rs"
proof -
  assume f: "map task_final ts = map Some rs"
  then have len: "length ts = length rs" by (rule map_eq_imp_length_eq)
  have "task_end ops (ords i) now d (ts ! i) = rs ! i" if "i < length rs" for i
  proof -
    have "task_final (ts ! i) = Some (rs ! i)" using f that len by (metis nth_map)
    then show ?thesis by (cases "ts ! i") auto
  qed
  then show ?thesis unfolding tasks_end_def len by (intro nth_equalityI) simp_all
qed

text \<open>What a cycle must deliver: every client scraped on its own, in the clients' order.\<close>

definition scrape_all ::
    "('c, 'w, 'e) ClientOps \<Rightarrow> (nat \<Rightarrow> order) \<Rightarrow> ('w \<Rightarrow> int) \<Rightarrow> bool \<Rightarrow> ('c \<times> 'w) list
     \<Rightarrow> ('e ClusterSnapshot \<times> 'c \<times> 'w) list" where
  "scrape_all ops ords now d cws = map (\<lambda>i. scrape ops (ords i) now d (cws ! i)) [0..<length cws]"

lemma start_tasks_end: "tasks_end ops ords now d (start_tasks cws) = scrape_all ops ords now d cws"
  by (simp add: tasks_end_def scrape_all_def start_tasks_def split: prod.split)

lemma collectAll_result:
  assumes "collectAll ops ords now d o1 cws h snap cws' h'"
  shows "snap = BuildSnapshot o1 (map (\<lambda>(cs, c, w). Some cs) (scrape_all ops ords now d cws))
    \<and> cws' = map snd (scrape_all ops ords now d cws)"
  using assms
proof cases
  case (wait ts rs)
  have "rs = scrape_all ops ords now d cws"
    using cycle_steps_end [OF wait(3)] tasks_end_final [OF wait(4), of ops ords now d]
    by (simp add: start_tasks_end)
  with wait show ?thesis by simp
qed

text \<open>C2: A collection cycle is deterministic although its goroutines interleave freely: the
  cycle always can finish, and whatever the interleaving the published snapshot is the one built
  from scraping each cluster alone, in the order of the configuration, and the clients end in the
  same states; so one cluster's answers or failures never influence another's result.\<close>

theorem collectAll_schedule_independent:
  "(\<exists>h'. collectAll ops ords now d o1 cws h snap cws' h') \<longleftrightarrow>
     snap = BuildSnapshot o1 (map (\<lambda>(cs, c, w). Some cs) (scrape_all ops ords now d cws))
     \<and> cws' = map snd (scrape_all ops ords now d cws)"
proof
  assume "snap = BuildSnapshot o1 (map (\<lambda>(cs, c, w). Some cs) (scrape_all ops ords now d cws))
     \<and> cws' = map snd (scrape_all ops ords now d cws)"
  moreover obtain ts h' rs where
    run: "(cycle_step ops ords now d)\<^sup>*\<^sup>* (start_tasks cws, h) (ts, h')" "map task_final ts = map Some rs"
    using cycle_finishes by blast
  from collectAll.wait [OF this] have "\<exists>snap cws'. collectAll ops ords now d o1 cws h snap cws' h'" by blast
  ultimately show "\<exists>h'. collectAll ops ords now d o1 cws h snap cws' h'" using collectAll_result by metis
qed (blast dest: collectAll_result)

text \<open>C32: No schedule gets stuck or runs on: from every state a cycle reaches, all goroutines can
  still be brought to their end, and a cycle over n clusters takes at most 3 n calls.\<close>

theorem collectAll_waits_end:
  assumes "(cycle_step ops ords now d ^^ n) (start_tasks cws, h) (ts, h1)"
  shows "n \<le> 3 * length cws
    \<and> (\<exists>ts' h' rs. (cycle_step ops ords now d)\<^sup>*\<^sup>* (ts, h1) (ts', h') \<and> map task_final ts' = map Some rs)"
proof
  have "n + sum_list (map task_rank ts') \<le> sum_list (map task_rank ts0)"
    if "(cycle_step ops ords now d ^^ n) (ts0, h0) (ts', h')" for ts0 h0 ts' h'
    using that
  proof (induction n arbitrary: ts' h')
    case (Suc n)
    then obtain ts1 h2 where "(cycle_step ops ords now d ^^ n) (ts0, h0) (ts1, h2)"
      "cycle_step ops ords now d (ts1, h2) (ts', h')" by auto
    with Suc.IH cycle_step_end(2) show ?case by fastforce
  qed simp
  from this [OF assms] have "n \<le> sum_list (map task_rank (start_tasks cws :: ('a, 'b, 'c) task list))" by simp
  also have "\<dots> = 3 * length cws"
    by (induction cws) (auto simp: start_tasks_def task_rank_def)
  finally show "n \<le> 3 * length cws" .
  show "\<exists>ts' h' rs. (cycle_step ops ords now d)\<^sup>*\<^sup>* (ts, h1) (ts', h') \<and> map task_final ts' = map Some rs"
    by (rule cycle_finishes)
qed

text \<open>A client whose version is known and whose inventory fails.\<close>

definition example_ops :: "(string, unit, string) ClientOps" where
  "example_ops =
     \<lparr>ops_Name = id, ops_APIVersion = (\<lambda>d c w. (Inr 16, c, w)),
      ops_GetInventory = (\<lambda>d c w. (Inl ''down'', c, w)),
      ops_GetStatistics = (\<lambda>d c w. (Inl ''down'', c, w)), ops_Close = (\<lambda>c w. (True, c, w))\<rparr>"

theorem collectAll_waits_end_witness:
  "\<exists>ts h1. (cycle_step example_ops (\<lambda>i. id_order) (\<lambda>w. 0) False ^^ 2)
       (start_tasks [(''c'', ())], \<lparr>ex_seen = [], ex_log = []\<rparr>) (ts, h1)
     \<and> (2 :: nat) \<le> 3 * length [(''c'', ())]
     \<and> (\<exists>ts' h' rs. (cycle_step example_ops (\<lambda>i. id_order) (\<lambda>w. 0) False)\<^sup>*\<^sup>* (ts, h1) (ts', h')
          \<and> map task_final ts' = map Some rs)"
proof -
  let ?R = "cycle_step example_ops (\<lambda>i. id_order) (\<lambda>w. 0) False"
  let ?h = "\<lparr>ex_seen = [], ex_log = []\<rparr>"
  let ?cs = "(new_snapshot ''c'' 0 :: string ClusterSnapshot)\<lparr>cs_APIVersion := 16\<rparr>"
  have s1: "?R (start_tasks [(''c'', ())], ?h) ((start_tasks [(''c'', ())])[0 := Versioned ?cs ''c'' ()], ?h)"
    by (rule cycle_step.advance) (simp_all add: start_tasks_def example_ops_def)
  have s2: "?R ([Versioned ?cs ''c'' ()], ?h)
      ([Versioned ?cs ''c'' ()][0 := Finished (?cs\<lparr>cs_ScrapeError := Some ''down''\<rparr>) ''c'' ()], ?h)"
    by (rule cycle_step.advance) (simp_all add: example_ops_def)
  from s1 s2 have two: "(?R ^^ 2) (start_tasks [(''c'', ())], ?h) ([Finished (?cs\<lparr>cs_ScrapeError := Some ''down''\<rparr>) ''c'' ()], ?h)"
    by (auto simp: numeral_2_eq_2 start_tasks_def)
  from collectAll_waits_end [OF two] two show ?thesis by blast
qed

end
