(* ===== verification/Exporters.thy ===== *)
theory Exporters
  imports Snapshot Config
begin

text \<open>
  The two export paths: \<open>internal/powerscale/prometheus.go\<close> (\<open>PromCollector.Collect\<close>) and
  \<open>otlp.go\<close> (the construction of the exporter, \<open>EnsureInstruments\<close>, the instruments' callbacks).

  client_golang and the OpenTelemetry SDK are parameters: \<open>const_ok name ls vs\<close> says whether
  \<open>prometheus.NewConstMetric\<close> accepts the label values \<open>vs\<close> for a descriptor with label names
  \<open>ls\<close>; \<open>gauge_ok reg name\<close> (\<open>ms_gauge\<close>) whether \<open>Float64ObservableGauge\<close> succeeds when the instruments
  \<open>reg\<close> exist. \<open>MustNewConstMetric\<close> panics where \<open>NewConstMetric\<close> returns an error: a
  \<open>Collect\<close> that panics is \<open>None\<close>.
\<close>

section \<open>Prometheus\<close>

record Metric =
  mt_Name :: string
  mt_Labels :: "(string \<times> string) list"
  mt_Value :: f64

definition sampleLabelNames :: "Sample \<Rightarrow> string list" where
  "sampleLabelNames s = map lb_Name (sm_Labels s)"

definition sampleLabelValues :: "Sample \<Rightarrow> string list" where
  "sampleLabelValues s = map lb_Value (sm_Labels s)"

definition signature :: "string \<Rightarrow> string list \<Rightarrow> string" where
  "signature name values = name @ [CHR 0x00] @ Join values [CHR 0x00]"

type_synonym const_check = "string \<Rightarrow> string list \<Rightarrow> string list \<Rightarrow> bool"

definition const_metric :: "string \<Rightarrow> string list \<Rightarrow> string list \<Rightarrow> f64 \<Rightarrow> Metric" where
  "const_metric name ls vs v = \<lparr>mt_Name = name, mt_Labels = zip ls vs, mt_Value = v\<rparr>"

text \<open>One metric name: the descriptor's label names are those of the first sample, and a
  label tuple seen before is skipped.\<close>

fun emit_samples ::
    "const_check \<Rightarrow> string \<Rightarrow> string list \<Rightarrow> string list \<Rightarrow> Sample list \<Rightarrow> Metric list" where
  "emit_samples const_ok name ls seen [] = []"
| "emit_samples const_ok name ls seen (s # ss) =
     (let values = sampleLabelValues s; sig = signature name values
      in if sig \<in> set seen then emit_samples const_ok name ls seen ss
         else if const_ok name ls values then
           const_metric name ls values (sm_Value s) # emit_samples const_ok name ls (sig # seen) ss
         else emit_samples const_ok name ls (sig # seen) ss)"

definition emit_name :: "const_check \<Rightarrow> 'e Snapshot \<Rightarrow> string \<Rightarrow> Metric list" where
  "emit_name const_ok snap name =
     (case SamplesByName snap name of
        [] \<Rightarrow> []
      | s # ss \<Rightarrow> emit_samples const_ok name (sampleLabelNames s) [] (s # ss))"

definition unix_seconds :: "int \<Rightarrow> int" where
  "unix_seconds ns = ns div 1000000000"

definition must_const :: "const_check \<Rightarrow> string \<Rightarrow> string \<Rightarrow> f64 \<Rightarrow> Metric option" where
  "must_const const_ok metric cluster v =
     (if const_ok metric [''cluster''] [cluster]
      then Some (const_metric metric [''cluster''] [cluster] v) else None)"

text \<open>The collector's descriptors, with their label names; \<open>Describe\<close> sends none of them, which makes it
  an unchecked collector.\<close>

record PromCollector =
  pc_up :: "string \<times> string list"
  pc_lastScrape :: "string \<times> string list"
  pc_apiVersion :: "string \<times> string list"

definition NewPromCollector :: PromCollector where
  "NewPromCollector =
     \<lparr>pc_up = (''powerscale_up'', [''cluster'']),
      pc_lastScrape = (''powerscale_last_scrape_timestamp_seconds'', [''cluster'']),
      pc_apiVersion = (''powerscale_cluster_api_version'', [''cluster''])\<rparr>"

definition Describe :: "PromCollector \<Rightarrow> (string \<times> string list) list" where
  "Describe c = []"

text \<open>The health metrics of one cluster, in the order the code sends them.\<close>

definition health_requests :: "string \<Rightarrow> 'e ClusterSnapshot \<Rightarrow> (string \<times> f64) list" where
  "health_requests name cs =
     [(''powerscale_up'', if cs_Up cs then 1 else 0)]
     @ (case cs_LastScrape cs of
          Some t \<Rightarrow> if cs_Up cs
                    then [(''powerscale_last_scrape_timestamp_seconds'', f64_of_int (unix_seconds t))] else []
        | None \<Rightarrow> [])
     @ (if 0 < cs_APIVersion cs
        then [(''powerscale_cluster_api_version'', f64_of_int (cs_APIVersion cs))] else [])"

definition emit_health :: "const_check \<Rightarrow> string \<Rightarrow> 'e ClusterSnapshot \<Rightarrow> Metric list option" where
  "emit_health const_ok name cs =
     traverse (\<lambda>(m, v). must_const const_ok m name v) (health_requests name cs)"

definition Collect ::
    "const_check \<Rightarrow> (string list \<Rightarrow> string list) \<Rightarrow> 'e Snapshot \<Rightarrow> Metric list option" where
  "Collect const_ok o1 snap =
     (case traverse (\<lambda>(name, cs). emit_health const_ok name cs) (range_map o1 (sh_PerCluster snap)) of
        None \<Rightarrow> None
      | Some hs \<Rightarrow> Some (concat hs @ concat (map (emit_name const_ok snap) (MetricNames snap))))"

section \<open>OTLP\<close>

datatype otlp_option = OtlpEndpoint string | OtlpInsecure

record OTLPExporter =
  ot_registered :: "string list"
  ot_options :: "otlp_option list"
  ot_interval :: int
  ot_resource :: "(string \<times> string) list"

text \<open>The SDK: whether an exporter can be made of the options, and the attributes of the default resource
  merged with ours, unless their schemas differ; then ours are kept without a schema.\<close>

record MeterSdk =
  ms_new :: "otlp_option list \<Rightarrow> bool"
  ms_merge :: "(string \<times> string) list \<Rightarrow> (string \<times> string) list option"
  ms_gauge :: "string list \<Rightarrow> string \<Rightarrow> bool"
  ms_version :: string

definition otlp_resource :: "MeterSdk \<Rightarrow> string \<Rightarrow> (string \<times> string) list" where
  "otlp_resource sdk serviceVersion =
     (let ours = [(''service.name'', ''pscale-exporter''), (''service.version'', serviceVersion)]
      in case ms_merge sdk ours of Some res \<Rightarrow> res | None \<Rightarrow> ours)"

text \<open>\<open>NewOTLPExporter\<close>: the options of the SDK's exporter, which may fail to be made, and the period of
  its reader; an interval that does not parse or is not positive becomes ten seconds.\<close>

definition otlp_options :: "OTelExportConfig \<Rightarrow> otlp_option list" where
  "otlp_options oc = OtlpEndpoint (oc_Endpoint oc) # (if oc_Insecure oc then [OtlpInsecure] else [])"

definition otlp_interval :: "OTelExportConfig \<Rightarrow> int" where
  "otlp_interval oc =
     (case ParseDuration (oc_Interval oc) of
        None \<Rightarrow> 10000000000
      | Some d \<Rightarrow> if d \<le> 0 then 10000000000 else d)"

definition newOTLPExporter :: "MeterSdk \<Rightarrow> otlp_option list \<Rightarrow> int \<Rightarrow> string \<Rightarrow> OTLPExporter" where
  "newOTLPExporter sdk opts interval serviceVersion =
     \<lparr>ot_registered = [], ot_options = opts, ot_interval = interval,
      ot_resource = otlp_resource sdk serviceVersion\<rparr>"

definition NewOTLPExporter :: "MeterSdk \<Rightarrow> OTelExportConfig \<Rightarrow> string \<Rightarrow> OTLPExporter option" where
  "NewOTLPExporter sdk oc serviceVersion =
     (if \<not> ms_new sdk (otlp_options oc) then None
      else Some (newOTLPExporter sdk (otlp_options oc) (otlp_interval oc) serviceVersion))"

text \<open>The registration loop stops at the first error, keeping what it registered.\<close>

fun ensure_loop ::
    "(string list \<Rightarrow> string \<Rightarrow> bool) \<Rightarrow> string list \<Rightarrow> string list \<Rightarrow> string list \<times> bool" where
  "ensure_loop gauge_ok reg [] = (reg, True)"
| "ensure_loop gauge_ok reg (n # ns) =
     (if n \<in> set reg then ensure_loop gauge_ok reg ns
      else if gauge_ok reg n then ensure_loop gauge_ok (reg @ [n]) ns
      else (reg, False))"

definition EnsureInstruments ::
    "(string list \<Rightarrow> string \<Rightarrow> bool) \<Rightarrow> OTLPExporter \<Rightarrow> 'e SnapshotStore \<Rightarrow> OTLPExporter \<times> bool" where
  "EnsureInstruments gauge_ok e store =
     (let (reg, ok) = ensure_loop gauge_ok (ot_registered e) (MetricNames (Load store))
      in (e\<lparr>ot_registered := reg\<rparr>, ok))"

definition attrsFor :: "Label list \<Rightarrow> (string \<times> string) list" where
  "attrsFor ls = map (\<lambda>l. (lb_Name l, lb_Value l)) ls"

text \<open>What an instrument's callback observes, and what a push carries: the callbacks of all
  registered instruments, each observation as it is, a series observed twice with both; what the SDK
  makes of two observations of one series is not part of the model.\<close>

definition callback :: "'e SnapshotStore \<Rightarrow> string \<Rightarrow> (f64 \<times> (string \<times> string) list) list" where
  "callback store name = map (\<lambda>s. (sm_Value s, attrsFor (sm_Labels s))) (SamplesByName (Load store) name)"

definition push :: "OTLPExporter \<Rightarrow> 'e SnapshotStore \<Rightarrow> (string \<times> f64 \<times> (string \<times> string) list) list" where
  "push e store = concat (map (\<lambda>n. map (Pair n) (callback store n)) (ot_registered e))"

section \<open>Lemmas\<close>

lemma signature_eq: "signature n vs = signature n ws \<longleftrightarrow> Join vs [CHR 0x00] = Join ws [CHR 0x00]"
  by (simp add: signature_def)

lemma emit_samples_new:
  "m \<in> set (emit_samples ok name ls seen ss) \<Longrightarrow>
     \<exists>s \<in> set ss. m = const_metric name ls (sampleLabelValues s) (sm_Value s)
        \<and> signature name (sampleLabelValues s) \<notin> set seen"
  by (induction ok name ls seen ss rule: emit_samples.induct) (fastforce simp: Let_def split: if_splits)+

text \<open>No two emitted metrics of one name carry the same label values.\<close>

lemma emit_samples_distinct:
  assumes "\<forall>s \<in> set ss. length (sm_Labels s) = length ls"
  shows "distinct (map mt_Labels (emit_samples ok name ls seen ss))"
  using assms
proof (induction ok name ls seen ss rule: emit_samples.induct)
  case (2 ok name ls seen s ss)
  let ?vs = "sampleLabelValues s" and ?sig = "signature name (sampleLabelValues s)"
  have "zip ls ?vs \<notin> mt_Labels ` set (emit_samples ok name ls (?sig # seen) ss)"
  proof
    assume "zip ls ?vs \<in> mt_Labels ` set (emit_samples ok name ls (?sig # seen) ss)"
    then obtain m where m: "m \<in> set (emit_samples ok name ls (?sig # seen) ss)" "mt_Labels m = zip ls ?vs"
      by auto
    then obtain s' where s': "s' \<in> set ss" "zip ls (sampleLabelValues s') = zip ls ?vs"
      "signature name (sampleLabelValues s') \<noteq> ?sig"
      using emit_samples_new [OF m(1)] by (auto simp: const_metric_def)
    have "length (sampleLabelValues s') = length ls" "length ?vs = length ls"
      using "2.prems" s'(1) by (auto simp: sampleLabelValues_def)
    then have "sampleLabelValues s' = ?vs" using s'(2) by (metis map_snd_zip)
    with s'(3) show False by simp
  qed
  with 2 show ?case by (simp add: Let_def const_metric_def)
qed simp

text \<open>The metric a sample stands for, and the deduplication by label values it is compared with.\<close>

definition metric_of :: "Sample \<Rightarrow> Metric" where
  "metric_of s = const_metric (sm_Name s) (sampleLabelNames s) (sampleLabelValues s) (sm_Value s)"

definition nul_free :: "string list \<Rightarrow> bool" where
  "nul_free vs \<longleftrightarrow> list_all (\<lambda>v. CHR 0x00 \<notin> set v) vs"

definition accepted :: "const_check \<Rightarrow> Sample \<Rightarrow> bool" where
  "accepted const_ok s \<longleftrightarrow> const_ok (sm_Name s) (sampleLabelNames s) (sampleLabelValues s)"

lemma signature_inj:
  assumes "signature n vs = signature n ws" and "length vs = length ws" and "nul_free vs" and "nul_free ws"
  shows "vs = ws"
proof (rule Join_inj)
  show "Join vs [CHR 0x00] = Join ws [CHR 0x00]" using assms(1) by (simp only: signature_eq)
  show "\<forall>x \<in> set vs \<union> set ws. CHR 0x00 \<notin> set x"
    using assms(3,4) by (simp add: nul_free_def list_all_iff ball_Un)
qed (rule assms(2))

lemma emit_samples_nub:
  assumes "\<forall>s \<in> set ss. ok name ls (sampleLabelValues s) \<and> length (sampleLabelValues s) = k
             \<and> nul_free (sampleLabelValues s)"
    and "\<forall>vs \<in> set seen. length vs = k \<and> nul_free vs"
  shows "emit_samples ok name ls (map (signature name) seen) ss =
           map (\<lambda>s. const_metric name ls (sampleLabelValues s) (sm_Value s))
             (nub_by sampleLabelValues seen ss)"
  using assms
proof (induction ss arbitrary: seen)
  case (Cons s ss)
  let ?vs = "sampleLabelValues s"
  have "signature name ?vs \<in> set (map (signature name) seen) \<longleftrightarrow> ?vs \<in> set seen"
  proof
    assume "signature name ?vs \<in> set (map (signature name) seen)"
    then obtain ws where ws: "ws \<in> set seen" "signature name ?vs = signature name ws" by auto
    have "?vs = ws" by (rule signature_inj [OF ws(2)]) (use Cons.prems ws(1) in auto)
    with ws(1) show "?vs \<in> set seen" by simp
  qed simp
  moreover have "emit_samples ok name ls (map (signature name) (?vs # seen)) ss =
      map (\<lambda>s. const_metric name ls (sampleLabelValues s) (sm_Value s))
        (nub_by sampleLabelValues (?vs # seen) ss)"
    using Cons.prems by (intro Cons.IH) auto
  ultimately show ?case using Cons by (simp add: Let_def)
qed simp

lemma conforms_labels:
  "conforms s \<Longrightarrow> conforms s' \<Longrightarrow> sm_Name s = sm_Name s' \<Longrightarrow> sampleLabelNames s = sampleLabelNames s'"
  by (simp add: conforms_def sampleLabelNames_def)

lemma length_labels [simp]: "length (sampleLabelNames s) = length (sampleLabelValues s)"
  by (simp add: sampleLabelNames_def sampleLabelValues_def)

lemma emit_name_nub:
  assumes "list_all conforms ss" and "list_all (\<lambda>s. nul_free (sampleLabelValues s)) ss"
    and "list_all (accepted ok) ss" and "SamplesByName snap n = filter (\<lambda>s. sm_Name s = n) ss"
  shows "emit_name ok snap n =
           map metric_of (nub_by sampleLabelValues [] (filter (\<lambda>s. sm_Name s = n) ss))"
proof (cases "SamplesByName snap n")
  case Nil
  with assms(4) show ?thesis by (simp add: emit_name_def)
next
  case (Cons s rest)
  let ?ss = "s # rest"
  have eq: "filter (\<lambda>s. sm_Name s = n) ss = ?ss" using assms(4) Cons by (rule trans [OF sym])
  have mem: "x \<in> set ss \<and> sm_Name x = n" if "x \<in> set ?ss" for x
    using that unfolding eq [symmetric] by simp
  have names: "sampleLabelNames x = sampleLabelNames s" if "x \<in> set ?ss" for x
    using mem [OF that] mem [of s] assms(1) conforms_labels [of x s] by (auto simp: list_all_iff)
  have "emit_name ok snap n =
      map (\<lambda>x. const_metric n (sampleLabelNames s) (sampleLabelValues x) (sm_Value x))
        (nub_by sampleLabelValues [] ?ss)"
  proof -
    have "\<forall>x \<in> set ?ss. ok n (sampleLabelNames s) (sampleLabelValues x)
        \<and> length (sampleLabelValues x) = length (sampleLabelNames s) \<and> nul_free (sampleLabelValues x)"
      using mem names assms(2,3) length_labels by (metis accepted_def list_all_iff)
    from emit_samples_nub [where seen = "[]" and name = n and ok = ok, OF this] show ?thesis
      by (simp add: emit_name_def Cons)
  qed
  also have "\<dots> = map metric_of (nub_by sampleLabelValues [] ?ss)"
  proof (rule map_cong [OF refl])
    fix x assume "x \<in> set (nub_by sampleLabelValues [] ?ss)"
    then have "x \<in> set ?ss" by (rule subsetD [OF nub_by_subset])
    then show "const_metric n (sampleLabelNames s) (sampleLabelValues x) (sm_Value x) = metric_of x"
      using mem [of x] names [of x] by (simp add: metric_of_def)
  qed
  finally show ?thesis unfolding eq .
qed

text \<open>Health metrics: what the code sends when no \<open>MustNewConstMetric\<close> panics.\<close>

definition health_metrics :: "string \<times> 'e ClusterSnapshot \<Rightarrow> Metric list" where
  "health_metrics p =
     map (\<lambda>(m, v). const_metric m [''cluster''] [fst p] v) (health_requests (fst p) (snd p))"

definition health_names :: "string list" where
  "health_names =
     [''powerscale_up'', ''powerscale_last_scrape_timestamp_seconds'', ''powerscale_cluster_api_version'']"

lemma traverse_spec:
  assumes "traverse f xs = Some ys" and "\<And>x y. f x = Some y \<Longrightarrow> y = g x"
  shows "ys = map g xs"
  using assms(1)
proof (induction xs arbitrary: ys)
  case (Cons x xs)
  then show ?case using assms(2) [of x] by (auto split: option.splits)
qed simp

lemma emit_health_Some: "emit_health ok name cs = Some ms \<Longrightarrow> ms = health_metrics (name, cs)"
  unfolding emit_health_def health_metrics_def fst_conv snd_conv
  by (erule traverse_spec) (auto simp: must_const_def split: if_splits)

lemma Collect_Some:
  assumes "Collect ok o1 snap = Some ms"
  shows "ms = concat (map health_metrics (range_map o1 (sh_PerCluster snap)))
           @ concat (map (emit_name ok snap) (MetricNames snap))"
proof -
  obtain hs where hs: "traverse (\<lambda>(name, cs). emit_health ok name cs) (range_map o1 (sh_PerCluster snap)) = Some hs"
    and ms: "ms = concat hs @ concat (map (emit_name ok snap) (MetricNames snap))"
    using assms by (auto simp: Collect_def split: option.splits)
  have "hs = map health_metrics (range_map o1 (sh_PerCluster snap))"
    by (rule traverse_spec [OF hs]) (auto dest: emit_health_Some)
  with ms show ?thesis by simp
qed

section \<open>Properties of the Prometheus path\<close>

lemma health_metrics_facts:
  "m \<in> set (health_metrics p) \<Longrightarrow> mt_Name m \<in> set health_names \<and> mt_Labels m = [(''cluster'', fst p)]"
  by (cases p) (auto simp: health_metrics_def health_requests_def health_names_def const_metric_def
      split: option.splits if_splits)

lemma health_metrics_names_distinct: "distinct (map mt_Name (health_metrics p))"
  by (cases p) (auto simp: health_metrics_def health_requests_def const_metric_def split: option.splits)

lemma health_not_in_schema: "list_all (\<lambda>m. map_of metric_schema m = None) health_names"
  by code_simp

lemma emit_name_mem:
  assumes "m \<in> set (emit_name ok snap n)"
  shows "mt_Name m = n" and "SamplesByName snap n \<noteq> []"
  using assms by (auto simp: emit_name_def const_metric_def simp del: emit_samples.simps
      dest!: emit_samples_new split: list.splits)

lemma emit_name_distinct:
  assumes "list_all conforms ss" and "SamplesByName snap n = filter (\<lambda>s. sm_Name s = n) ss"
  shows "distinct (map (\<lambda>m. (mt_Name m, mt_Labels m)) (emit_name ok snap n))"
proof (cases "SamplesByName snap n")
  case Nil
  then show ?thesis by (simp add: emit_name_def)
next
  case (Cons s rest)
  have names: "sampleLabelNames x = sampleLabelNames s" if "x \<in> set (s # rest)" for x
  proof -
    have eq: "filter (\<lambda>s. sm_Name s = n) ss = s # rest" using assms(2) Cons by (rule trans [OF sym])
    have "x \<in> set (s # rest)" "s \<in> set (s # rest)" using that by simp_all
    then show ?thesis using assms(1) unfolding eq [symmetric]
      by (auto intro: conforms_labels simp: list_all_iff)
  qed
  then have "\<forall>x \<in> set (s # rest). length (sm_Labels x) = length (sampleLabelNames s)"
    unfolding sampleLabelNames_def by (metis length_map)
  from emit_samples_distinct [OF this]
  have "distinct (map mt_Labels (emit_name ok snap n))"
    by (simp add: emit_name_def Cons del: emit_samples.simps)
  then have "distinct (map (snd \<circ> (\<lambda>m. (mt_Name m, mt_Labels m))) (emit_name ok snap n))"
    by (simp add: comp_def)
  then show ?thesis by (metis distinct_map map_map)
qed

lemma range_per_cluster:
  assumes "is_order ord"
  shows "mset (range_map (ord j) (sh_PerCluster (BuildSnapshot o1 results))) =
           mset (sh_PerCluster (BuildSnapshot o1 results))"
    and "distinct (map fst (range_map (ord j) (sh_PerCluster (BuildSnapshot o1 results))))"
proof -
  have wf: "wf_map (sh_PerCluster (BuildSnapshot o1 results))"
    by (simp add: BuildSnapshot_sel wf_per_cluster)
  show eq: "mset (range_map (ord j) (sh_PerCluster (BuildSnapshot o1 results))) =
           mset (sh_PerCluster (BuildSnapshot o1 results))"
    by (rule mset_range_map [OF assms wf])
  show "distinct (map fst (range_map (ord j) (sh_PerCluster (BuildSnapshot o1 results))))"
    using mset_eq_imp_distinct_iff [OF arg_cong [OF eq, of "image_mset fst", folded mset_map]] wf
    by (simp add: wf_map_def map_keys_def)
qed

lemma distinct_map_append:
  assumes "distinct (map k xs)" and "distinct (map k ys)"
    and "\<And>x y. x \<in> set xs \<Longrightarrow> y \<in> set ys \<Longrightarrow> k x \<noteq> k y"
  shows "distinct (map k (xs @ ys))"
  using assms by fastforce

text \<open>No duplicate series in one scrape, over any snapshot of conforming samples.\<close>

lemma collect_names:
  assumes "is_order ord" and "list_all conforms (all_samples results)"
    and "Collect ok (ord j) (BuildSnapshot (ord i) results) = Some ms" and "m \<in> set ms"
  shows "mt_Name m \<in> set health_names \<or> map_of metric_schema (mt_Name m) \<noteq> None"
proof -
  let ?snap = "BuildSnapshot (ord i) results"
  have names: "set (MetricNames ?snap) = sm_Name ` set (all_samples results)"
    using sv.names_set [of "\<lparr>bl_results = results, bl_order = ord i\<rparr>"] assms(1) by (simp add: built_def is_order_def)
  from assms(4) consider q where "q \<in> set (range_map (ord j) (sh_PerCluster ?snap))" "m \<in> set (health_metrics q)"
    | n where "n \<in> set (MetricNames ?snap)" "m \<in> set (emit_name ok ?snap n)"
    unfolding Collect_Some [OF assms(3)] set_append set_concat set_map by blast
  then show ?thesis
  proof cases
    case 1
    then show ?thesis by (simp add: health_metrics_facts)
  next
    case 2
    then have "mt_Name m \<in> sm_Name ` set (all_samples results)" using names emit_name_mem(1) by metis
    then show ?thesis using assms(2) by (auto simp: list_all_iff conforms_def)
  qed
qed

lemma collect_distinct:
  assumes "is_order ord" and "list_all conforms (all_samples results)"
    and "Collect ok (ord j) (BuildSnapshot (ord i) results) = Some ms"
  shows "distinct (map (\<lambda>m. (mt_Name m, mt_Labels m)) ms)"
proof -
  let ?snap = "BuildSnapshot (ord i) results" and ?key = "\<lambda>m. (mt_Name m, mt_Labels m)"
  let ?hs = "concat (map health_metrics (range_map (ord j) (sh_PerCluster ?snap)))"
  let ?es = "concat (map (emit_name ok ?snap) (MetricNames ?snap))"
  have ms: "ms = ?hs @ ?es" by (rule Collect_Some [OF assms(3)])
  have view: "distinct (MetricNames ?snap)" "set (MetricNames ?snap) = sm_Name ` set (all_samples results)"
    and by_name: "SamplesByName ?snap n = filter (\<lambda>s. sm_Name s = n) (all_samples results)" for n
    using sv.names_distinct [of "\<lparr>bl_results = results, bl_order = ord i\<rparr>"]
      sv.names_set [of "\<lparr>bl_results = results, bl_order = ord i\<rparr>"]
      sv.by_name_filter [of "\<lparr>bl_results = results, bl_order = ord i\<rparr>"] assms(1)
    by (simp_all add: built_def is_order_def)
  have "distinct (map ?key ?hs)"
  proof (rule distinct_concat_tagged [where tag = snd and g = "\<lambda>p. [(''cluster'', fst p)]"])
    show "distinct (map (\<lambda>p. [(''cluster'', fst p)]) (range_map (ord j) (sh_PerCluster ?snap)))"
      using range_per_cluster(2) [OF assms(1), of j "ord i" results]
      by (auto simp: distinct_map inj_on_def)
    show "distinct (map ?key (health_metrics p))" for p
      using health_metrics_names_distinct [of p] by (auto simp: distinct_map inj_on_def)
  qed (auto dest: health_metrics_facts)
  moreover have "distinct (map ?key ?es)"
  proof (rule distinct_concat_tagged [where tag = fst and g = id])
    show "distinct (map ?key (emit_name ok ?snap n))" for n
      by (rule emit_name_distinct [OF assms(2) by_name])
  qed (auto simp: view(1) dest: emit_name_mem(1))
  moreover have "?key m \<noteq> ?key m'" if "m \<in> set ?hs" "m' \<in> set ?es" for m m'
  proof -
    have "mt_Name m \<in> set health_names" using that(1) health_metrics_facts by fastforce
    then have "map_of metric_schema (mt_Name m) = None" using health_not_in_schema by (simp add: list_all_iff)
    moreover have "mt_Name m' \<in> sm_Name ` set (all_samples results)"
      using that(2) view(2) by (auto dest: emit_name_mem(1))
    then have "map_of metric_schema (mt_Name m') \<noteq> None"
      using assms(2) by (auto simp: list_all_iff conforms_def)
    ultimately show ?thesis by auto
  qed
  ultimately show ?thesis unfolding ms by (rule distinct_map_append)
qed

text \<open>Two clusters for the witnesses: one answered, with a duplicated and a second sample, one down.\<close>

definition example_results :: "unit ClusterSnapshot option list" where
  "example_results =
     [Some \<lparr>cs_Cluster = ''c1'', cs_Up = True, cs_APIVersion = 16, cs_ScrapeError = None,
        cs_LastScrape = Some 5000000000,
        cs_Samples = [sample ''powerscale_smb_shares'' (baseLabels ''c1'' ''id1'') 1,
                      sample ''powerscale_smb_shares'' (baseLabels ''c1'' ''id1'') 0,
                      sample ''powerscale_snapshots'' (baseLabels ''c1'' ''id1'') 1]\<rparr>,
      None,
      Some \<lparr>cs_Cluster = ''c2'', cs_Up = False, cs_APIVersion = 0, cs_ScrapeError = Some (),
        cs_LastScrape = None, cs_Samples = []\<rparr>]"

definition same_length :: const_check where
  "same_length name ls vs \<longleftrightarrow> length ls = length vs"

lemma id_order_id: "id_order i = id"
  by (simp add: id_order_def fun_eq_iff)

lemma traverse_all: "\<forall>x \<in> set xs. f x = Some (g x) \<Longrightarrow> traverse f xs = Some (map g xs)"
  by (induction xs) auto

definition health_accepted :: "const_check \<Rightarrow> string \<times> 'e ClusterSnapshot \<Rightarrow> bool" where
  "health_accepted const_ok p \<longleftrightarrow> list_all (\<lambda>m. const_ok m [''cluster''] [fst p]) health_names"

lemma emit_health_ok:
  assumes "health_accepted ok (name, cs)"
  shows "emit_health ok name cs = Some (health_metrics (name, cs))"
  unfolding emit_health_def health_metrics_def fst_conv snd_conv
proof (rule traverse_all, rule ballI)
  fix p assume "p \<in> set (health_requests name cs)"
  then have "fst p \<in> set health_names"
    by (auto simp: health_requests_def health_names_def split: option.splits if_splits)
  then show "(case p of (m, v) \<Rightarrow> must_const ok m name v) =
      Some (case p of (m, v) \<Rightarrow> const_metric m [''cluster''] [name] v)"
    using assms by (cases p) (auto simp: must_const_def health_accepted_def list_all_iff)
qed

text \<open>C8: Nothing is lost: when client_golang accepts the label sets and no label value
  contains a NUL byte, \<open>Collect\<close> does not panic and sends the health metrics of every cluster and,
  for every metric name, one series per distinct tuple of label values, in sample order, with the
  value of the first sample that carries the tuple. The signature string of the code is as good
  as comparing the tuples.\<close>

theorem Collect_complete:
  assumes "is_order ord" and "list_all conforms (all_samples results)"
    and "list_all (\<lambda>s. nul_free (sampleLabelValues s)) (all_samples results)"
    and "list_all (accepted ok) (all_samples results)"
    and "list_all (health_accepted ok) (sh_PerCluster (BuildSnapshot (ord i) results))"
  shows "Collect ok (ord j) (BuildSnapshot (ord i) results) =
    Some (concat (map health_metrics (range_map (ord j) (sh_PerCluster (BuildSnapshot (ord i) results))))
      @ concat (map (\<lambda>n. map metric_of
                    (nub_by sampleLabelValues [] (filter (\<lambda>s. sm_Name s = n) (all_samples results))))
          (MetricNames (BuildSnapshot (ord i) results))))"
proof -
  let ?snap = "BuildSnapshot (ord i) results" and ?ss = "all_samples results"
  have "wf_map (sh_PerCluster ?snap)" by (simp add: BuildSnapshot_sel wf_per_cluster)
  then have "\<forall>p \<in> set (range_map (ord j) (sh_PerCluster ?snap)).
      (case p of (name, cs) \<Rightarrow> emit_health ok name cs) = Some (health_metrics p)"
    using assms(5) by (auto simp: set_range_map [OF assms(1)] list_all_iff intro: emit_health_ok)
  from traverse_all [OF this]
  have "Collect ok (ord j) ?snap =
      Some (concat (map health_metrics (range_map (ord j) (sh_PerCluster ?snap)))
        @ concat (map (emit_name ok ?snap) (MetricNames ?snap)))"
    by (simp add: Collect_def)
  moreover have "emit_name ok ?snap =
      (\<lambda>n. map metric_of (nub_by sampleLabelValues [] (filter (\<lambda>s. sm_Name s = n) ?ss)))"
  proof
    fix n
    have "SamplesByName ?snap n = filter (\<lambda>s. sm_Name s = n) ?ss"
      using sv.by_name_filter [of "\<lparr>bl_results = results, bl_order = ord i\<rparr>"] assms(1)
      by (simp add: built_def is_order_def)
    from emit_name_nub [OF assms(2-4) this]
    show "emit_name ok ?snap n =
        map metric_of (nub_by sampleLabelValues [] (filter (\<lambda>s. sm_Name s = n) ?ss))" .
  qed
  ultimately show ?thesis by (simp only:)
qed

theorem Collect_complete_witness:
  "Collect same_length (id_order 0) (BuildSnapshot (id_order 0) example_results) =
    Some (concat (map health_metrics
        (range_map (id_order 0) (sh_PerCluster (BuildSnapshot (id_order 0) example_results))))
      @ concat (map (\<lambda>n. map metric_of
            (nub_by sampleLabelValues [] (filter (\<lambda>s. sm_Name s = n) (all_samples example_results))))
          (MetricNames (BuildSnapshot (id_order 0) example_results))))"
  by (rule Collect_complete [OF is_order_id]; code_simp)

lemma filter_health_up:
  "filter (\<lambda>m. mt_Name m = ''powerscale_up'') (health_metrics p) =
     [const_metric ''powerscale_up'' [''cluster''] [fst p] (if cs_Up (snd p) then 1 else 0)]"
  by (cases p) (auto simp: health_metrics_def health_requests_def const_metric_def split: option.splits)

text \<open>C39: Every cluster of the snapshot has exactly one \<open>powerscale_up\<close> series, labelled with
  the cluster's name and equal to 1 exactly when the cluster was scraped, 0 otherwise; no other
  metric has that name.\<close>

lemma Collect_up:
  assumes "is_order ord" and "list_all conforms (all_samples results)"
    and "Collect ok (ord j) (BuildSnapshot (ord i) results) = Some ms"
  shows "mset (filter (\<lambda>m. mt_Name m = ''powerscale_up'') ms) =
    mset (map (\<lambda>(name, cs). const_metric ''powerscale_up'' [''cluster''] [name] (if cs_Up cs then 1 else 0))
      (sh_PerCluster (BuildSnapshot (ord i) results)))"
proof -
  let ?snap = "BuildSnapshot (ord i) results" and ?up = "\<lambda>m. mt_Name m = ''powerscale_up''"
  let ?f = "\<lambda>(name, cs). const_metric ''powerscale_up'' [''cluster''] [name] (if cs_Up cs then 1 else 0)"
  have "filter ?up (concat (map health_metrics ps)) = map ?f ps" for ps :: "(string \<times> 'a ClusterSnapshot) list"
    by (induction ps) (auto simp: filter_health_up split: prod.split)
  moreover have "filter ?up (concat (map (emit_name ok ?snap) (MetricNames ?snap))) = []"
  proof -
    have "set (MetricNames ?snap) = sm_Name ` set (all_samples results)"
      using sv.names_set [of "\<lparr>bl_results = results, bl_order = ord i\<rparr>"] assms(1)
      by (simp add: built_def is_order_def)
    moreover have "''powerscale_up'' \<notin> sm_Name ` set (all_samples results)"
      using assms(2) health_not_in_schema by (auto simp: list_all_iff conforms_def health_names_def)
    ultimately show ?thesis by (fastforce simp: filter_empty_conv dest: emit_name_mem(1))
  qed
  ultimately have "filter ?up ms = map ?f (range_map (ord j) (sh_PerCluster ?snap))"
    using Collect_Some [OF assms(3)] by simp
  then show ?thesis by (simp add: range_per_cluster(1) [OF assms(1)])
qed

lemma Collect_up_witness:
  "mset (filter (\<lambda>m. mt_Name m = ''powerscale_up'')
      (the (Collect same_length (id_order 0) (BuildSnapshot (id_order 0) example_results)))) =
    mset [const_metric ''powerscale_up'' [''cluster''] [''c1''] 1,
          const_metric ''powerscale_up'' [''cluster''] [''c2''] 0]"
proof -
  have "map_option (\<lambda>ms. ()) (Collect same_length (id_order 0) (BuildSnapshot (id_order 0) example_results)) = Some ()"
    and "list_all conforms (all_samples example_results)"
    and "map (\<lambda>(name, cs). (name, cs_Up cs)) (sh_PerCluster (BuildSnapshot (id_order 0) example_results)) =
      [(''c1'', True), (''c2'', False)]"
    by code_simp+
  then show ?thesis
    using Collect_up [OF is_order_id, of example_results same_length 0 0] by (auto split: prod.splits)
qed

section \<open>Properties of the OTLP path\<close>

lemma ensure_loop_reg:
  "ensure_loop g reg ns = (reg', ok) \<Longrightarrow>
     set reg \<subseteq> set reg' \<and> set reg' \<subseteq> set reg \<union> set ns \<and> (distinct reg \<longrightarrow> distinct reg')
     \<and> (ok \<longrightarrow> set ns \<subseteq> set reg')"
  by (induction g reg ns rule: ensure_loop.induct) (auto split: if_splits)

lemma ensure_loop_known: "set ns \<subseteq> set reg \<Longrightarrow> ensure_loop g reg ns = (reg, True)"
  by (induction g reg ns rule: ensure_loop.induct) auto

text \<open>\<open>EnsureInstruments\<close>: when it succeeds, exactly the names registered before and the
  names of the current snapshot have an instrument, none twice, and calling it again on the same
  snapshot registers nothing more and succeeds, whatever the SDK would answer.\<close>

lemma EnsureInstruments_idempotent:
  assumes "EnsureInstruments gauge_ok e store = (e', True)" and "distinct (ot_registered e)"
  shows "distinct (ot_registered e')
    \<and> set (ot_registered e') = set (ot_registered e) \<union> set (MetricNames (Load store))
    \<and> EnsureInstruments gauge_ok' e' store = (e', True)"
proof -
  have loop: "ensure_loop gauge_ok (ot_registered e) (MetricNames (Load store)) = (ot_registered e', True)"
    using assms(1) by (auto simp: EnsureInstruments_def split: prod.splits)
  note reg = ensure_loop_reg [OF loop]
  then have "ensure_loop gauge_ok' (ot_registered e') (MetricNames (Load store)) = (ot_registered e', True)"
    by (blast intro: ensure_loop_known)
  with reg assms(2) show ?thesis by (auto simp: EnsureInstruments_def)
qed

definition example_store :: "unit SnapshotStore" where
  "example_store = \<lparr>so_current = BuildSnapshot id example_results\<rparr>"

definition example_exporter :: "string list \<Rightarrow> OTLPExporter" where
  "example_exporter names = \<lparr>ot_registered = names, ot_options = [], ot_interval = 10000000000, ot_resource = []\<rparr>"

lemma EnsureInstruments_idempotent_witness:
  "EnsureInstruments (\<lambda>reg n. False)
     (example_exporter [''powerscale_nfs_exports'', ''powerscale_smb_shares'', ''powerscale_snapshots'']) example_store =
     (example_exporter [''powerscale_nfs_exports'', ''powerscale_smb_shares'', ''powerscale_snapshots''], True)"
proof -
  have "EnsureInstruments (\<lambda>reg n. True) (example_exporter [''powerscale_nfs_exports'']) example_store =
     (example_exporter [''powerscale_nfs_exports'', ''powerscale_smb_shares'', ''powerscale_snapshots''], True)"
    by code_simp
  from EnsureInstruments_idempotent [OF this] show ?thesis by (simp add: example_exporter_def)
qed

text \<open>What an OTLP push carries: exactly the samples of the current snapshot whose metric
  name was registered, each once, with their labels as attributes. In particular a metric whose
  name appears in the snapshot only after the last \<open>EnsureInstruments\<close> is not pushed.\<close>

lemma push_registered:
  assumes "distinct (ot_registered e)" and "Load store = BuildSnapshot o1 results"
  shows "mset (push e store) =
    mset (map (\<lambda>s. (sm_Name s, sm_Value s, attrsFor (sm_Labels s)))
      (filter (\<lambda>s. sm_Name s \<in> set (ot_registered e)) (all_samples results)))"
proof -
  let ?obs = "\<lambda>s. (sm_Name s, sm_Value s, attrsFor (sm_Labels s))"
  have "map (Pair n) (callback store n) = map ?obs (filter (\<lambda>s. sm_Name s = n) (all_samples results))" for n
    by (simp add: callback_def assms(2) SamplesByName_def BuildSnapshot_sel lookup_index comp_def)
  moreover have "mset (concat (map (\<lambda>n. map ?obs (filter (\<lambda>s. sm_Name s = n) ss)) ns)) =
      mset (map ?obs (filter (\<lambda>s. sm_Name s \<in> set ns) ss))" if "distinct ns" for ns ss
    using that
  proof (induction ns)
    case (Cons n ns)
    have "filter_mset (\<lambda>s. sm_Name s = n) (mset ss) + filter_mset (\<lambda>s. sm_Name s \<in> set ns) (mset ss) =
        filter_mset (\<lambda>s. sm_Name s = n \<or> sm_Name s \<in> set ns) (mset ss)"
      using Cons.prems by (induction ss) auto
    with Cons show ?case by (simp flip: image_mset_union)
  qed simp
  ultimately show ?thesis using assms(1) by (simp add: push_def)
qed

lemma push_registered_witness:
  "push (example_exporter [''powerscale_snapshots'']) example_store =
     [(''powerscale_snapshots'', 1, [(''cluster'', ''c1''), (''cluster_id'', ''id1'')])]"
proof -
  have "map (\<lambda>s. (sm_Name s, sm_Value s, attrsFor (sm_Labels s)))
      (filter (\<lambda>s. sm_Name s \<in> set [''powerscale_snapshots'']) (all_samples example_results)) =
    [(''powerscale_snapshots'', 1, [(''cluster'', ''c1''), (''cluster_id'', ''id1'')])]"
    by code_simp
  then show ?thesis
    using push_registered [where e = "(example_exporter [''powerscale_snapshots''])"
        and store = example_store and results = example_results]
    by (simp add: example_store_def Load_def example_exporter_def)
qed

end
