(* ===== verification/Env.thy ===== *)
theory Env
  imports Config
begin

text \<open>
  \<open>internal/utils/env.go\<close> and \<open>file.go\<close>, \<open>internal/models/safe_config.go\<close>: expansion of
  \<open>${VAR}\<close> and \<open>${VAR:-default}\<close>, resolution of the secrets of a configuration, reading and
  reloading the configuration file.

  The environment is a partial function, the file system a function from paths to
  \<open>file_entry\<close>. The YAML decoder is a parameter (\<open>decode\<close>, \<open>None\<close> for its error). The regular
  expression \<open>envRefPattern\<close> is written as the matcher \<open>match_ref\<close> at one position:
  the name is the longest run of name characters, since no shorter one is followed by a colon or
  a brace. \<open>ReplaceAllStringFunc\<close> takes the leftmost matches, which do not overlap, and does not look
  into what it inserted.
\<close>

section \<open>References\<close>

definition is_name_char :: "char \<Rightarrow> bool" where
  "is_name_char c \<longleftrightarrow>
     (65 \<le> byte c \<and> byte c \<le> 90) \<or> (97 \<le> byte c \<and> byte c \<le> 122) \<or> is_digit c \<or> c = CHR ''_''"

definition match_body :: "string \<Rightarrow> (string \<times> string option \<times> string) option" where
  "match_body s =
     (let name = takeWhile is_name_char s; r = dropWhile is_name_char s
      in if name = [] \<or> is_digit (hd name) then None
         else case r of
             [] \<Rightarrow> None
           | c # r1 \<Rightarrow>
               if c = CHR ''}'' then Some (name, None, r1)
               else if c = CHR '':'' \<and> r1 \<noteq> [] \<and> hd r1 = CHR ''-'' \<and> CHR ''}'' \<in> set (tl r1) then
                 Some (name, Some (takeWhile (\<lambda>x. x \<noteq> CHR ''}'') (tl r1)),
                       tl (dropWhile (\<lambda>x. x \<noteq> CHR ''}'') (tl r1)))
               else None)"

definition match_ref :: "string \<Rightarrow> (string \<times> string option \<times> string) option" where
  "match_ref s =
     (case s of c # d # r \<Rightarrow> if c = CHR ''$'' \<and> d = CHR ''{'' then match_body r else None | _ \<Rightarrow> None)"

lemma length_match_body: "match_body s = Some (n, fb, r) \<Longrightarrow> length r < length s"
proof -
  assume m: "match_body s = Some (n, fb, r)"
  have le: "length (dropWhile P xs) \<le> length xs" for P and xs :: string by (rule length_dropWhile_le)
  from m obtain c r1 where r1: "dropWhile is_name_char s = c # r1" and "length r \<le> length r1"
    by (auto simp: match_body_def Let_def split: list.splits if_splits)
      (metis (no_types, lifting) diff_le_self dual_order.trans le length_tl)
  moreover have "length (c # r1) \<le> length s" using le [of is_name_char s] r1 by simp
  ultimately show ?thesis by simp
qed

lemma length_match_ref: "match_ref s = Some (n, fb, r) \<Longrightarrow> length r < length s"
  by (auto simp: match_ref_def split: list.splits if_splits dest: length_match_body)

section \<open>ExpandEnv\<close>

type_synonym env = "string \<Rightarrow> string option"

text \<open>One reference: its text and the variable reported missing.\<close>

definition lookup_ref :: "env \<Rightarrow> string \<Rightarrow> string option \<Rightarrow> string \<times> string list" where
  "lookup_ref env name fallback =
     (case env name of
        Some v \<Rightarrow> if v \<noteq> [] then (v, []) else (case fallback of Some d \<Rightarrow> (d, []) | None \<Rightarrow> ([], []))
      | None \<Rightarrow> (case fallback of Some d \<Rightarrow> (d, []) | None \<Rightarrow> ([], [name])))"

function expand_refs :: "env \<Rightarrow> string \<Rightarrow> string \<times> string list" where
  "expand_refs env s =
     (case match_ref s of
        Some (name, fallback, r) \<Rightarrow>
          (let (v, miss) = lookup_ref env name fallback; (out, missing) = expand_refs env r
           in (v @ out, miss @ missing))
      | None \<Rightarrow>
          (case s of [] \<Rightarrow> ([], [])
           | c # r \<Rightarrow> (let (out, missing) = expand_refs env r in (c # out, missing))))"
  by pat_completeness auto
termination
  by (relation "measure (\<lambda>(env, s). length s)") (auto dest: length_match_ref)

declare expand_refs.simps [simp del]

definition ExpandEnv :: "env \<Rightarrow> string \<Rightarrow> config_error + string" where
  "ExpandEnv env s =
     (let (out, missing) = expand_refs env s
      in if missing \<noteq> [] then Inl (UnsetVariables missing) else Inr out)"

text \<open>\<open>envRefPattern.MatchString\<close>: a match at some position.\<close>

fun has_ref :: "string \<Rightarrow> bool" where
  "has_ref [] = False"
| "has_ref (c # s) = (match_ref (c # s) \<noteq> None \<or> has_ref s)"

definition ExpandEnvSecret :: "env \<Rightarrow> string \<Rightarrow> string \<Rightarrow> config_error + string" where
  "ExpandEnvSecret env field s =
     res_bind (ExpandEnv env s)
       (\<lambda>out. if out = [] \<and> has_ref s then Inl (EmptyReference field) else Inr out)"

section \<open>ResolveSecrets\<close>

datatype file_entry = Missing | Unreadable | Content string

type_synonym fs = "string \<Rightarrow> file_entry"

definition in_cluster :: "string \<Rightarrow> string \<Rightarrow> config_error + 'a \<Rightarrow> config_error + 'a" where
  "in_cluster name field r = (case r of Inl e \<Rightarrow> Inl (InCluster name field e) | Inr a \<Rightarrow> Inr a)"

definition resolve_password :: "env \<Rightarrow> fs \<Rightarrow> ClusterConfig \<Rightarrow> config_error + ClusterConfig" where
  "resolve_password env fs cl =
     (if cc_Password cl = [] \<and> cc_PasswordFile cl \<noteq> [] then
        (case fs (cc_PasswordFile cl) of
           Content data \<Rightarrow> Inr (cl\<lparr>cc_Password := TrimSpace data\<rparr>)
         | _ \<Rightarrow> Inl (InCluster (cc_Name cl) ''passwordFile'' (UnreadablePasswordFile (cc_PasswordFile cl))))
      else
        res_bind (in_cluster (cc_Name cl) ''password'' (ExpandEnvSecret env ''password'' (cc_Password cl)))
          (\<lambda>password. Inr (cl\<lparr>cc_Password := password\<rparr>)))"

definition resolve_cluster :: "env \<Rightarrow> fs \<Rightarrow> ClusterConfig \<Rightarrow> config_error + ClusterConfig" where
  "resolve_cluster env fs cl =
     res_bind (in_cluster (cc_Name cl) ''insecureSkipVerify'' (Resolve (ExpandEnv env) (cc_InsecureSkipVerify cl)))
     (\<lambda>skip. res_bind (in_cluster (cc_Name cl) ''endpoint'' (ExpandEnvSecret env ''endpoint'' (cc_Endpoint cl)))
     (\<lambda>endpoint. res_bind (in_cluster (cc_Name cl) ''username'' (ExpandEnvSecret env ''username'' (cc_Username cl)))
     (\<lambda>username. resolve_password env fs
        (cl\<lparr>cc_InsecureSkipVerify := skip, cc_Endpoint := endpoint, cc_Username := username\<rparr>))))"

fun resolve_clusters :: "env \<Rightarrow> fs \<Rightarrow> ClusterConfig list \<Rightarrow> config_error + ClusterConfig list" where
  "resolve_clusters env fs [] = Inr []"
| "resolve_clusters env fs (cl # cls) =
     res_bind (resolve_cluster env fs cl)
       (\<lambda>cl'. res_bind (resolve_clusters env fs cls) (\<lambda>cls'. Inr (cl' # cls')))"

definition ResolveSecrets :: "env \<Rightarrow> fs \<Rightarrow> Config \<Rightarrow> config_error + Config" where
  "ResolveSecrets env fs cfg =
     res_bind (resolve_clusters env fs (cf_Clusters cfg)) (\<lambda>cls. Inr (cfg\<lparr>cf_Clusters := cls\<rparr>))"

section \<open>Files\<close>

definition FileExists :: "fs \<Rightarrow> string \<Rightarrow> bool" where
  "FileExists fs path \<longleftrightarrow> fs path \<noteq> Missing"

definition ReadFile :: "(string \<Rightarrow> Config option) \<Rightarrow> env \<Rightarrow> fs \<Rightarrow> string \<Rightarrow> config_error + Config" where
  "ReadFile decode env fs path =
     (case fs path of
        Content text \<Rightarrow>
          (case decode text of
             None \<Rightarrow> Inl (ConfigUndecodable path)
           | Some cfg \<Rightarrow> ResolveSecrets env fs cfg)
      | _ \<Rightarrow> Inl (ConfigUnreadable path))"

record SafeConfig =
  sc_C :: Config
  sc_resolver :: "(Config \<Rightarrow> config_error + Config) option"

definition NewSafeConfig :: "Config \<Rightarrow> (Config \<Rightarrow> config_error + Config) option \<Rightarrow> SafeConfig" where
  "NewSafeConfig cfg resolver = \<lparr>sc_C = cfg, sc_resolver = resolver\<rparr>"

definition load_config ::
    "(string \<Rightarrow> Config option) \<Rightarrow> fs \<Rightarrow> (Config \<Rightarrow> config_error + Config) option \<Rightarrow> string \<Rightarrow> config_error + Config" where
  "load_config decode fs resolver path =
     (case fs path of
        Missing \<Rightarrow> Inl (ConfigNotFound path)
      | Unreadable \<Rightarrow> Inl (ConfigUnreadable path)
      | Content text \<Rightarrow>
          (case decode text of
             None \<Rightarrow> Inl (ConfigUndecodable path)
           | Some cfg \<Rightarrow>
               res_bind (case resolver of None \<Rightarrow> Inr cfg | Some f \<Rightarrow> f cfg) Validate))"

text \<open>The new holder, and whether the clusters changed or the error.\<close>

definition ReloadConfig ::
    "(string \<Rightarrow> Config option) \<Rightarrow> fs \<Rightarrow> SafeConfig \<Rightarrow> string \<Rightarrow> SafeConfig \<times> (config_error + bool)" where
  "ReloadConfig decode fs sc path =
     (case load_config decode fs (sc_resolver sc) path of
        Inl e \<Rightarrow> (sc, Inl e)
      | Inr newCfg \<Rightarrow> (sc\<lparr>sc_C := newCfg\<rparr>, Inr (cf_Clusters (sc_C sc) \<noteq> cf_Clusters newCfg)))"

section \<open>Expansion as a substitution\<close>

text \<open>The reading of a text that the expansion must agree with: literal bytes and references,
  found without looking at the environment.\<close>

datatype token = Lit char | Ref string "string option"

fun token_text :: "token \<Rightarrow> string" where
  "token_text (Lit c) = [c]"
| "token_text (Ref n None) = ''${'' @ n @ ''}''"
| "token_text (Ref n (Some d)) = ''${'' @ n @ '':-'' @ d @ ''}''"

function tokens :: "string \<Rightarrow> token list" where
  "tokens s =
     (case match_ref s of
        Some (name, fallback, r) \<Rightarrow> Ref name fallback # tokens r
      | None \<Rightarrow> (case s of [] \<Rightarrow> [] | c # r \<Rightarrow> Lit c # tokens r))"
  by pat_completeness auto
termination
  by (relation "measure length") (auto dest: length_match_ref)

declare tokens.simps [simp del]

text \<open>What a token stands for; \<open>None\<close> is an unset variable without a default.\<close>

fun token_value :: "env \<Rightarrow> token \<Rightarrow> string option" where
  "token_value env (Lit c) = Some [c]"
| "token_value env (Ref n fallback) =
     (case env n of
        None \<Rightarrow> fallback
      | Some v \<Rightarrow> Some (if v \<noteq> [] then v else case fallback of None \<Rightarrow> [] | Some d \<Rightarrow> d))"

fun token_name :: "token \<Rightarrow> string" where
  "token_name (Ref n fallback) = n"
| "token_name (Lit c) = [c]"

lemma match_body_text:
  "match_body s = Some (n, fb, r) \<Longrightarrow>
     s = n @ (case fb of None \<Rightarrow> ''}'' | Some d \<Rightarrow> '':-'' @ d @ ''}'') @ r"
proof -
  assume m: "match_body s = Some (n, fb, r)"
  have split: "s = takeWhile is_name_char s @ dropWhile is_name_char s" by simp
  have cut: "xs = takeWhile (\<lambda>x. x \<noteq> c) xs @ c # tl (dropWhile (\<lambda>x. x \<noteq> c) xs)" if "c \<in> set xs" for c and xs :: string
    using that by (induction xs) auto
  show ?thesis
  proof (cases fb)
    case None
    with m have "n = takeWhile is_name_char s" "dropWhile is_name_char s = CHR ''}'' # r"
      by (auto simp: match_body_def Let_def split: list.splits if_splits)
    with split None show ?thesis by simp
  next
    case (Some d)
    with m obtain r1 where n: "n = takeWhile is_name_char s"
        and r1: "dropWhile is_name_char s = CHR '':'' # CHR ''-'' # r1" "CHR ''}'' \<in> set r1"
        and d: "d = takeWhile (\<lambda>x. x \<noteq> CHR ''}'') r1" "r = tl (dropWhile (\<lambda>x. x \<noteq> CHR ''}'') r1)"
      by (auto simp: match_body_def Let_def neq_Nil_conv split: list.splits if_splits)
    have "r1 = d @ CHR ''}'' # r" using cut [OF r1(2)] d by simp
    with split n r1(1) Some show ?thesis by simp
  qed
qed

lemma match_ref_text: "match_ref s = Some (n, fb, r) \<Longrightarrow> s = token_text (Ref n fb) @ r"
  by (auto simp: match_ref_def split: list.splits if_splits option.splits dest!: match_body_text)

lemma tokens_text: "concat (map token_text (tokens s)) = s"
proof (induction s rule: tokens.induct)
  case (1 s)
  then show ?case
    by (subst tokens.simps) (auto split: option.split list.split dest!: match_ref_text simp del: token_text.simps(2,3))
qed

lemma lookup_ref_token:
  "lookup_ref env n fb =
     (case token_value env (Ref n fb) of None \<Rightarrow> ([], [n]) | Some v \<Rightarrow> (v, []))"
  by (auto simp: lookup_ref_def split: option.split)

definition unset_names :: "env \<Rightarrow> token list \<Rightarrow> string list" where
  "unset_names env ts = map token_name (filter (\<lambda>t. token_value env t = None) ts)"

lemma expand_refs_tokens:
  "expand_refs env s =
     (concat (map (\<lambda>t. case token_value env t of None \<Rightarrow> [] | Some v \<Rightarrow> v) (tokens s)),
      unset_names env (tokens s))"
proof (induction s rule: measure_induct_rule [where f = length])
  case (less s)
  show ?case
  proof (cases "match_ref s")
    case None
    show ?thesis
    proof (cases s)
      case Nil
      with None show ?thesis
        by (simp add: expand_refs.simps [of env "[]"] tokens.simps [of "[]"] unset_names_def)
    next
      case (Cons c r)
      with None less [of r] show ?thesis
        by (simp add: expand_refs.simps [of env "c # r"] tokens.simps [of "c # r"] unset_names_def)
    qed
  next
    case (Some m)
    obtain n fb r where m: "m = (n, fb, r)" by (cases m)
    obtain v miss where l: "lookup_ref env n fb = (v, miss)" by (cases "lookup_ref env n fb")
    have IH: "expand_refs env r = (concat (map (\<lambda>t. case token_value env t of None \<Rightarrow> [] | Some v \<Rightarrow> v) (tokens r)),
        unset_names env (tokens r))"
      using less [of r] Some m length_match_ref by blast
    show ?thesis
      using Some m IH lookup_ref_token [of env n fb]
      by (simp add: expand_refs.simps [of env s] tokens.simps [of s] unset_names_def del: token_value.simps
          split: option.split)
  qed
qed

text \<open>C11: Expansion substitutes: the text splits, without looking at the environment, into
  literal bytes and references that spell it exactly; expansion succeeds when every reference
  without a default names a set variable and then puts the value (or the default, where the
  variable is unset or empty) in each reference's place and nothing else anywhere; otherwise it
  reports precisely the unset variables, in order.\<close>

theorem ExpandEnv_substitutes:
  "concat (map token_text (tokens s)) = s
   \<and> ExpandEnv env s =
      (if unset_names env (tokens s) = []
       then Inr (concat (map (\<lambda>t. the (token_value env t)) (tokens s)))
       else Inl (UnsetVariables (unset_names env (tokens s))))"
proof -
  have "concat (map (\<lambda>t. case token_value env t of None \<Rightarrow> [] | Some v \<Rightarrow> v) ts) =
      concat (map (\<lambda>t. the (token_value env t)) ts)" if "unset_names env ts = []" for ts
    using that unfolding unset_names_def
    by (intro arg_cong [of _ _ concat] map_cong) (auto simp: filter_empty_conv split: option.split)
  then show ?thesis
    by (simp add: tokens_text ExpandEnv_def expand_refs_tokens)
qed

section \<open>Secrets\<close>

lemma has_ref_tokens: "\<not> has_ref s \<Longrightarrow> tokens s = map Lit s"
proof (induction s)
  case Nil
  show ?case by (simp add: tokens.simps [of "[]"] match_ref_def)
next
  case (Cons c s)
  then show ?case by (cases "match_ref (c # s)") (simp_all add: tokens.simps [of "c # s"])
qed

lemma ExpandEnv_literal: "\<not> has_ref s \<Longrightarrow> ExpandEnv env s = Inr s"
proof -
  assume n: "\<not> has_ref s"
  have "unset_names env (map Lit s) = []" by (simp add: unset_names_def filter_map o_def)
  moreover have "concat (map (\<lambda>t. case token_value env t of None \<Rightarrow> [] | Some v \<Rightarrow> v) (map Lit s)) = s"
    by (induction s) auto
  ultimately show ?thesis by (simp add: ExpandEnv_def expand_refs_tokens has_ref_tokens [OF n])
qed

lemma no_dollar_no_ref: "CHR ''$'' \<notin> set s \<Longrightarrow> \<not> has_ref s"
  by (induction s) (auto simp: match_ref_def split: list.splits)

lemma ExpandEnvSecret_literal: "\<not> has_ref s \<Longrightarrow> ExpandEnvSecret env field s = Inr s"
  by (simp add: ExpandEnvSecret_def ExpandEnv_literal)

text \<open>A credential never resolves to nothing: an expansion that succeeds is non-empty
  unless the field was left empty, and a text without references is returned as it is, whatever
  the environment holds.\<close>

lemma ExpandEnvSecret_nonempty:
  "case ExpandEnvSecret env field s of
     Inr out \<Rightarrow> (out = [] \<longleftrightarrow> s = []) \<and> (if has_ref s then True else out = s)
   | Inl e \<Rightarrow> has_ref s"
proof (cases "has_ref s")
  case True
  then have "s \<noteq> []" by auto
  with True show ?thesis
    by (auto simp: ExpandEnvSecret_def res_bind_def split: sum.split)
next
  case False
  then show ?thesis by (simp add: ExpandEnvSecret_literal)
qed

lemma ExpandEnvSecret_Nil: "ExpandEnvSecret env f s = Inr [] \<longleftrightarrow> s = []"
proof
  assume "ExpandEnvSecret env f s = Inr []"
  then have "\<not> has_ref s \<and> ExpandEnv env s = Inr []"
    by (auto simp: ExpandEnvSecret_def res_iff split: if_splits)
  then show "s = []" using ExpandEnv_literal [of s env] by simp
qed (simp add: ExpandEnvSecret_literal)

lemma ExpandEnvSecret_again: "CHR ''$'' \<notin> set t \<Longrightarrow> ExpandEnvSecret env f t = Inr t"
  by (intro ExpandEnvSecret_literal no_dollar_no_ref)

lemma in_cluster_Inr [res_iff]: "in_cluster n f r = Inr a \<longleftrightarrow> r = Inr a"
  by (cases r) (simp_all add: in_cluster_def)

lemma Resolve_again: "Resolve e b = Inr b' \<Longrightarrow> Resolve e b' = Inr b'"
proof (cases "eb_raw b = []")
  case False
  assume r: "Resolve e b = Inr b'"
  with False obtain s0 where s0: "e (eb_raw b) = Inr s0" by (auto simp: Resolve_def res_iff)
  with False r obtain v where v: "b' = b\<lparr>eb_val := v\<rparr>"
    by (auto simp: Resolve_def Let_def split: if_splits option.splits)
  with False r s0 show ?thesis
    by (cases "TrimSpace s0 = []"; cases "ParseBool (TrimSpace s0)") (auto simp: Resolve_def Let_def)
qed (simp add: Resolve_def)

definition dollar_free :: "ClusterConfig \<Rightarrow> bool" where
  "dollar_free cl \<longleftrightarrow>
     CHR ''$'' \<notin> set (cc_Endpoint cl @ cc_Username cl @ cc_Password cl)"

lemma resolve_password_Inr:
  "resolve_password env fs cl = Inr cl' \<Longrightarrow> \<exists>p. cl' = cl\<lparr>cc_Password := p\<rparr>"
  by (auto simp: resolve_password_def res_iff split: if_splits file_entry.splits)

lemma resolve_password_again:
  assumes "resolve_password env fs cl = Inr cl'" and "CHR ''$'' \<notin> set (cc_Password cl')"
  shows "resolve_password env fs cl' = Inr cl'"
  using assms
  by (auto simp: resolve_password_def res_iff ExpandEnvSecret_again ExpandEnvSecret_Nil
      split: if_splits file_entry.splits)

text \<open>What resolving a cluster leaves alone.\<close>

lemma resolve_cluster_frame:
  "resolve_cluster env fs cl = Inr cl' \<Longrightarrow>
     cc_Name cl' = cc_Name cl \<and> cc_Port cl' = cc_Port cl \<and> cc_PasswordFile cl' = cc_PasswordFile cl"
  by (auto simp: resolve_cluster_def res_iff dest!: resolve_password_Inr)

lemma resolve_cluster_again:
  assumes "resolve_cluster env fs cl = Inr cl'" and "dollar_free cl'"
  shows "resolve_cluster env fs cl' = Inr cl'"
proof -
  obtain skip endpoint username where
    s: "Resolve (ExpandEnv env) (cc_InsecureSkipVerify cl) = Inr skip" and
    p: "resolve_password env fs
      (cl\<lparr>cc_InsecureSkipVerify := skip, cc_Endpoint := endpoint, cc_Username := username\<rparr>) = Inr cl'"
    using assms(1) by (auto simp: resolve_cluster_def res_iff)
  from resolve_password_Inr [OF p] obtain q where
    q: "cl' = cl\<lparr>cc_InsecureSkipVerify := skip, cc_Endpoint := endpoint, cc_Username := username, cc_Password := q\<rparr>"
    by auto
  have "resolve_password env fs cl' = Inr cl'"
    using p assms(2) by (intro resolve_password_again) (simp_all add: dollar_free_def)
  then show ?thesis
    using assms(2) Resolve_again [OF s] unfolding resolve_cluster_def
    by (cases cl) (simp add: q dollar_free_def ExpandEnvSecret_again in_cluster_def)
qed

lemma resolve_clusters_again:
  "resolve_clusters env fs cls = Inr cls' \<Longrightarrow> list_all dollar_free cls' \<Longrightarrow>
     resolve_clusters env fs cls' = Inr cls'"
  by (induction cls arbitrary: cls') (auto simp: res_iff resolve_cluster_again)

lemma resolve_clusters_frame:
  "resolve_clusters env fs cls = Inr cls' \<Longrightarrow>
     map cc_Name cls' = map cc_Name cls \<and> map cc_Port cls' = map cc_Port cls
     \<and> map cc_PasswordFile cls' = map cc_PasswordFile cls"
  by (induction cls arbitrary: cls') (auto simp: res_iff dest!: resolve_cluster_frame)


definition example_env :: env where
  "example_env n = (if n = ''PSCALE1_HOST'' then Some ''10.0.0.1'' else None)"

definition example_fs :: fs where
  "example_fs p = (if p = ''/run/pw'' then Content (''a${B}c'' @ [CHR 0x0A])
     else if p = ''/run/empty'' then Content [CHR 0x0A] else Missing)"

definition env_config :: Config where
  "env_config = example_config\<lparr>cf_Clusters := [example_cluster\<lparr>cc_Endpoint := ''${PSCALE1_HOST}'',
     cc_InsecureSkipVerify := \<lparr>eb_raw = ''${SKIP:-true}'', eb_val = False\<rparr>\<rparr>]\<rparr>"


text \<open>An empty password file is not caught: the password resolves to the empty text, which
  \<open>ExpandEnvSecret\<close> refuses for an environment reference, and validation accepts the cluster because
  it names a password file.\<close>

lemma empty_password_file_accepted:
  "let cl = example_cluster\<lparr>cc_Password := [], cc_PasswordFile := ''/run/empty''\<rparr>
   in case ResolveSecrets example_env example_fs (example_config\<lparr>cf_Clusters := [cl]\<rparr>) of
        Inl e \<Rightarrow> False
      | Inr c \<Rightarrow> map cc_Password (cf_Clusters c) = [[]] \<and> Validate c = Inr (SetDefaults c)"
  by code_simp

section \<open>Reload\<close>

lemma load_config_valid: "load_config decode fs resolver path = Inr c \<Longrightarrow> valid_config c"
  by (auto simp: load_config_def res_iff split: file_entry.splits option.splits)

text \<open>C17: Reload is fail-fast: on any error the configuration in use stays exactly as it was; on
  success the new one is valid, the caller learns whether the clusters differ from those in use,
  and reloading the same file again finds no change.\<close>

theorem ReloadConfig_fail_fast:
  "case ReloadConfig decode fs sc path of
     (sc', Inl e) \<Rightarrow> sc' = sc
   | (sc', Inr changed) \<Rightarrow>
       valid_config (sc_C sc') \<and> sc_resolver sc' = sc_resolver sc
       \<and> (changed \<longleftrightarrow> cf_Clusters (sc_C sc') \<noteq> cf_Clusters (sc_C sc))
       \<and> ReloadConfig decode fs sc' path = (sc', Inr False)"
  by (auto simp: ReloadConfig_def dest: load_config_valid split: sum.split)

end
