(* ===== verification/Server.thy ===== *)
theory Server
  imports Collector Exporters Env
begin

text \<open>
  \<open>main.go\<close>: startup, the client pool, the collection loops, reload, health; and what holds in every
  state the running exporter can reach.

  The server is a state machine. A background loop (\<open>Collector.Run\<close>) waits in its \<open>select\<close>, collects,
  publishes and waits again; cancelling its context lets a waiting loop stop, but the \<open>select\<close> may also
  take one more tick, and a loop that is collecting goes on to publish. \<open>stopCollection\<close> cancels the
  loop and does not wait for it. A reload is two steps, between which loops move: it stops the
  collection, then collects once with the new clients and starts their loop; the reload mutex keeps
  reloads apart. The request of a loop whose context is cancelled may have been sent before or after the
  cancellation (the flag of \<open>collectAll\<close>).
\<close>

section \<open>Startup\<close>

definition validateConfig ::
    "(string \<Rightarrow> Config option) \<Rightarrow> env \<Rightarrow> fs \<Rightarrow> string \<Rightarrow> config_error + Config" where
  "validateConfig decode env fs path =
     (if \<not> FileExists fs path then Inl (ConfigNotFound path)
      else res_bind (ReadFile decode env fs path) Validate)"

text \<open>The configuration the command hands to the server: \<open>RunE\<close> resolves the secrets once more.\<close>

definition startup_config ::
    "(string \<Rightarrow> Config option) \<Rightarrow> env \<Rightarrow> fs \<Rightarrow> string \<Rightarrow> config_error + Config" where
  "startup_config decode env fs path =
     res_bind (validateConfig decode env fs path) (ResolveSecrets env fs)"

definition startup ::
    "(string \<Rightarrow> Config option) \<Rightarrow> env \<Rightarrow> fs \<Rightarrow> string \<Rightarrow> config_error + SafeConfig" where
  "startup decode env fs path =
     res_bind (startup_config decode env fs path)
       (\<lambda>cfg. Inr (NewSafeConfig cfg (Some (ResolveSecrets env fs))))"

section \<open>The client pool\<close>

type_synonym ('n, 's, 'e) pool = "(('n, 's, 'e) AnyClient \<times> 'n World) list"

definition build_client ::
    "('n, 's, 'e) Outside \<Rightarrow> bool \<Rightarrow> string \<Rightarrow> bool \<Rightarrow> ClusterConfig \<Rightarrow> 'n World
     \<Rightarrow> ('n, 's, 'e) AnyClient \<times> 'n World" where
  "build_client ou d dumpDir tr cl w =
     (case NewClusterClient ou d cl dumpDir tr w of
        (Inl e, w') \<Rightarrow> (Lazy (NewLazyClient (cc_Name cl) (\<lambda>d'. NewClusterClient ou d' cl dumpDir tr)), w')
      | (Inr c, w') \<Rightarrow> (Direct c, w'))"

definition buildClients ::
    "('n, 's, 'e) Outside \<Rightarrow> bool \<Rightarrow> string \<Rightarrow> bool \<Rightarrow> Config \<Rightarrow> 'n World list \<Rightarrow> ('n, 's, 'e) pool" where
  "buildClients ou d dumpDir tr cfg ws =
     map (\<lambda>(cl, w). build_client ou d dumpDir tr cl w) (zip (cf_Clusters cfg) ws)"

section \<open>The server\<close>

datatype loop_phase = Waiting | Collecting | Stopped | Panicked

record ('n, 's, 'e) Loop =
  lp_pool :: "('n, 's, 'e) pool"
  lp_hw :: Explained
  lp_cancelled :: bool
  lp_phase :: loop_phase

record ('n, 's, 'e) Server =
  sr_cfg :: SafeConfig
  sr_store :: "'e client_error SnapshotStore"
  sr_loops :: "('n, 's, 'e) Loop list"
  sr_cancel :: "nat option"
  sr_otlp :: "OTLPExporter option"
  sr_restart :: bool

definition no_explanations :: Explained where
  "no_explanations = \<lparr>ex_seen = [], ex_log = []\<rparr>"

text \<open>\<open>time.NewTicker\<close>, the first call of the loop's goroutine, panics on a period that is not positive, which
  ends the process (\<open>Command\<close> says how). The steps of the server kept here are those other goroutines may
  still take until then.\<close>

definition new_loop :: "Config \<Rightarrow> ('n, 's, 'e) pool \<Rightarrow> Explained \<Rightarrow> ('n, 's, 'e) Loop" where
  "new_loop cfg pool h =
     \<lparr>lp_pool = pool, lp_hw = h, lp_cancelled = False,
      lp_phase = (if GetCollectionInterval cfg \<le> 0 then Panicked else Waiting)\<rparr>"

definition clock :: "('n, 's, 'e) Outside \<Rightarrow> 'n World \<Rightarrow> int" where
  "clock ou w = ou_Now ou (wo_net w)"

definition all_orders :: "(nat \<Rightarrow> order) \<Rightarrow> order \<Rightarrow> bool" where
  "all_orders ords ord \<longleftrightarrow> (\<forall>i. is_order (ords i)) \<and> is_order ord"

text \<open>\<open>startCollection\<close>: build the pool, collect once and publish, then start the loop.\<close>

inductive startCollection ::
    "('n, 's, 'e) Outside \<Rightarrow> string \<Rightarrow> bool \<Rightarrow> bool \<Rightarrow> ('n, 's, 'e) Server \<Rightarrow> ('n, 's, 'e) Server \<Rightarrow> bool"
  for ou dumpDir tr once where
  start: "cfg = sc_C (sr_cfg s) \<Longrightarrow> length ws = length (cf_Clusters cfg) \<Longrightarrow> all_orders ords ord \<Longrightarrow>
     collectAll (any_ops ou) ords (clock ou) False (ord 0) (buildClients ou False dumpDir tr cfg ws)
       no_explanations snap pool' h' \<Longrightarrow>
     startCollection ou dumpDir tr once s
       (s\<lparr>sr_store := Store (sr_store s) snap,
          sr_loops := (if once then sr_loops s else sr_loops s @ [new_loop cfg pool' h']),
          sr_cancel := (if once then sr_cancel s else Some (length (sr_loops s)))\<rparr>)"

text \<open>\<open>stopCollection\<close>: cancel the loop and close its clients, which may still be collecting. The error of
  a \<open>Close\<close> is only logged.\<close>

definition close_clients :: "('n, 's, 'e) Outside \<Rightarrow> ('n, 's, 'e) pool \<Rightarrow> ('n, 's, 'e) pool" where
  "close_clients ou pool = map (\<lambda>(c, w). snd (ops_Close (any_ops ou) c w)) pool"

definition stopCollection :: "('n, 's, 'e) Outside \<Rightarrow> ('n, 's, 'e) Server \<Rightarrow> ('n, 's, 'e) Server" where
  "stopCollection ou s =
     (case sr_cancel s of
        None \<Rightarrow> s
      | Some i \<Rightarrow>
          s\<lparr>sr_loops := (sr_loops s)[i := (sr_loops s ! i)
               \<lparr>lp_cancelled := True, lp_pool := close_clients ou (lp_pool (sr_loops s ! i))\<rparr>],
            sr_cancel := None\<rparr>)"

lemma close_clients_id [simp]: "close_clients ou pool = pool"
proof -
  have "snd (ops_Close (any_ops ou) c w) = (c, w)" for c w
    by (cases c) (auto simp: any_ops_def Let_def wrap_def lazy_ops_def lazy_close_def cluster_ops_def split: option.split)
  then show ?thesis by (simp add: close_clients_def case_prod_beta)
qed

text \<open>OTLP: an exporter that cannot be made or whose instruments cannot be registered is dropped at startup, kept on reload.\<close>

definition initOTLP :: "MeterSdk \<Rightarrow> ('n, 's, 'e) Server \<Rightarrow> ('n, 's, 'e) Server" where
  "initOTLP sdk s =
     (if \<not> IsOTelMetricsEnabled (sc_C (sr_cfg s)) then s
      else case NewOTLPExporter sdk (op_Metrics (cf_OpenTelemetry (sc_C (sr_cfg s)))) (ms_version sdk) of
          None \<Rightarrow> s
        | Some e0 \<Rightarrow>
            (case EnsureInstruments (ms_gauge sdk) e0 (sr_store s) of
               (e, ok) \<Rightarrow> if ok then s\<lparr>sr_otlp := Some e\<rparr> else s))"

definition reload_instruments :: "MeterSdk \<Rightarrow> ('n, 's, 'e) Server \<Rightarrow> ('n, 's, 'e) Server" where
  "reload_instruments sdk s =
     (case sr_otlp s of
        None \<Rightarrow> s
      | Some e \<Rightarrow> s\<lparr>sr_otlp := Some (fst (EnsureInstruments (ms_gauge sdk) e (sr_store s)))\<rparr>)"

definition NewServer :: "(string list \<Rightarrow> string list) \<Rightarrow> SafeConfig \<Rightarrow> ('n, 's, 'e) Server" where
  "NewServer o1 sc =
     \<lparr>sr_cfg = sc, sr_store = NewSnapshotStore o1, sr_loops = [], sr_cancel = None, sr_otlp = None,
      sr_restart = False\<rparr>"

section \<open>Steps\<close>

inductive server_step ::
    "('n, 's, 'e) Outside \<Rightarrow> string \<Rightarrow> bool \<Rightarrow> MeterSdk \<Rightarrow> ('n, 's, 'e) Server \<Rightarrow> ('n, 's, 'e) Server \<Rightarrow> bool"
  for ou dumpDir tr sdk where
  tick: "i < length (sr_loops s) \<Longrightarrow> lp_phase (sr_loops s ! i) = Waiting \<Longrightarrow>
     server_step ou dumpDir tr sdk s
       (s\<lparr>sr_loops := (sr_loops s)[i := (sr_loops s ! i)\<lparr>lp_phase := Collecting\<rparr>]\<rparr>)"
| stop: "i < length (sr_loops s) \<Longrightarrow> lp_phase (sr_loops s ! i) = Waiting \<Longrightarrow> lp_cancelled (sr_loops s ! i) \<Longrightarrow>
     server_step ou dumpDir tr sdk s
       (s\<lparr>sr_loops := (sr_loops s)[i := (sr_loops s ! i)\<lparr>lp_phase := Stopped\<rparr>]\<rparr>)"
| publish: "i < length (sr_loops s) \<Longrightarrow> lp_phase (sr_loops s ! i) = Collecting \<Longrightarrow>
     (d \<longrightarrow> lp_cancelled (sr_loops s ! i)) \<Longrightarrow> all_orders ords ord \<Longrightarrow>
     collectAll (any_ops ou) ords (clock ou) d (ord 0) (lp_pool (sr_loops s ! i)) (lp_hw (sr_loops s ! i))
       snap pool' h' \<Longrightarrow>
     server_step ou dumpDir tr sdk s
       (s\<lparr>sr_store := Store (sr_store s) snap,
          sr_loops := (sr_loops s)[i := (sr_loops s ! i)\<lparr>lp_phase := Waiting, lp_pool := pool', lp_hw := h'\<rparr>]\<rparr>)"
| reload_error: "\<not> sr_restart s \<Longrightarrow> ReloadConfig decode fs (sr_cfg s) path = (sc', Inl e) \<Longrightarrow>
     server_step ou dumpDir tr sdk s (s\<lparr>sr_cfg := sc'\<rparr>)"
| reload_same: "\<not> sr_restart s \<Longrightarrow> ReloadConfig decode fs (sr_cfg s) path = (sc', Inr False) \<Longrightarrow>
     server_step ou dumpDir tr sdk s (s\<lparr>sr_cfg := sc'\<rparr>)"
| reload_stop: "\<not> sr_restart s \<Longrightarrow> ReloadConfig decode fs (sr_cfg s) path = (sc', Inr True) \<Longrightarrow>
     server_step ou dumpDir tr sdk s (stopCollection ou (s\<lparr>sr_cfg := sc', sr_restart := True\<rparr>))"
| reload_start: "sr_restart s \<Longrightarrow> startCollection ou dumpDir tr False s s' \<Longrightarrow>
     server_step ou dumpDir tr sdk s (reload_instruments sdk (s'\<lparr>sr_restart := False\<rparr>))"

inductive reachable ::
    "('n, 's, 'e) Outside \<Rightarrow> string \<Rightarrow> bool \<Rightarrow> MeterSdk \<Rightarrow> SafeConfig \<Rightarrow> ('n, 's, 'e) Server \<Rightarrow> bool"
  for ou dumpDir tr sdk sc where
  started: "is_order ord \<Longrightarrow> startCollection ou dumpDir tr False (NewServer (ord 0) sc) s \<Longrightarrow>
     reachable ou dumpDir tr sdk sc (initOTLP sdk s)"
| moved: "reachable ou dumpDir tr sdk sc s \<Longrightarrow> server_step ou dumpDir tr sdk s s' \<Longrightarrow>
     reachable ou dumpDir tr sdk sc s'"

section \<open>Health\<close>

record 'e clusterHealth =
  ch_Cluster :: string
  ch_OK :: bool
  ch_LastScrape :: "int option"
  ch_Err :: "'e option"

text \<open>The status code and the body of \<open>/health\<close>; the probes answer 200 without looking at anything.\<close>

definition healthHandler :: "(string list \<Rightarrow> string list) \<Rightarrow> 'e Snapshot \<Rightarrow> int \<times> 'e clusterHealth list" where
  "healthHandler o1 snap =
     (200, map (\<lambda>(name, cs). \<lparr>ch_Cluster = cs_Cluster cs, ch_OK = cs_Up cs, ch_LastScrape = cs_LastScrape cs,
                               ch_Err = cs_ScrapeError cs\<rparr>)
             (range_map o1 (sh_PerCluster snap)))"

definition staticOKHandler :: int where
  "staticOKHandler = 200"

section \<open>Snapshots the collector builds\<close>

lemma scrape_facts:
  assumes "scrape (any_ops ou) ord now d cw = (cs, c', w')"
  shows "cs_Cluster cs = ops_Name (any_ops ou) (fst cw)" and "list_all conforms (cs_Samples cs)"
proof -
  obtain h' where "collectCluster (any_ops ou) ord now d (fst cw) (snd cw) \<lparr>ex_seen = [], ex_log = []\<rparr> = (cs, c', w', h')"
    using assms by (auto simp: scrape_def split: prod.splits)
  from any.collect_outcome [OF this] show "cs_Cluster cs = ops_Name (any_ops ou) (fst cw)"
    "list_all conforms (cs_Samples cs)" by simp_all
qed

lemma scrape_all_names:
  "map (\<lambda>(cs, c, w). cs_Cluster cs) (scrape_all (any_ops ou) ords now d pool) =
     map (ops_Name (any_ops ou) \<circ> fst) pool"
  by (rule nth_equalityI)
    (auto simp: scrape_all_def dest: scrape_facts(1) split: prod.split)

lemma all_samples_Some: "all_samples (map (\<lambda>(cs, c, w). Some cs) rs) = concat (map (\<lambda>(cs, c, w). cs_Samples cs) rs)"
  by (induction rs) auto

lemma scrape_conform: "list_all conforms (cs_Samples (fst (scrape (any_ops ou) ord now d cw)))"
  by (cases "scrape (any_ops ou) ord now d cw") (simp add: scrape_facts(2))

lemma scrape_all_conform: "list_all conforms (all_samples (map (\<lambda>(cs, c, w). Some cs) (scrape_all (any_ops ou) ords now d pool)))"
  unfolding all_samples_Some list_all_iff
  by (auto simp: scrape_all_def case_prod_beta intro: scrape_conform [unfolded list_all_iff, rule_format])

text \<open>Every snapshot the server publishes is built from scrapes of some pool.\<close>

definition scraped_snapshot :: "('n, 's, 'e) Outside \<Rightarrow> 'e client_error Snapshot \<Rightarrow> bool" where
  "scraped_snapshot ou snap \<longleftrightarrow>
     (\<exists>ord i ords d pool. is_order ord
        \<and> snap = BuildSnapshot (ord i) (map (\<lambda>(cs, c, w). Some cs) (scrape_all (any_ops ou) ords (clock ou) d pool)))"

lemma collectAll_good:
  assumes "collectAll (any_ops ou) ords (clock ou) d (ord i) pool h snap pool' h'" and "is_order ord"
  shows "scraped_snapshot ou snap"
  using collectAll_result [OF assms(1)] assms(2) unfolding scraped_snapshot_def by blast

lemma startCollection_good: "startCollection ou dumpDir tr onc s s' \<Longrightarrow> scraped_snapshot ou (Load (sr_store s'))"
  by (elim startCollection.cases) (auto simp: all_orders_def dest: collectAll_good)

lemma same_store [simp]:
  "sr_store (stopCollection ou s) = sr_store s" "sr_store (initOTLP g s) = sr_store s"
  "sr_store (reload_instruments g s) = sr_store s"
  by (auto simp: stopCollection_def initOTLP_def reload_instruments_def split: option.split prod.split)

lemma reachable_good: "reachable ou dumpDir tr g sc s \<Longrightarrow> scraped_snapshot ou (Load (sr_store s))"
proof (induction rule: reachable.induct)
  case (started ord s)
  then show ?case using startCollection_good by simp
next
  case (moved s s')
  from moved.hyps(2) moved.IH show ?case
    by (cases rule: server_step.cases)
      (auto simp: all_orders_def dest: collectAll_good startCollection_good)
qed

section \<open>Safety of the running exporter\<close>

lemma Collect_no_duplicates:
  assumes "reachable ou dumpDir tr sdk sc s" and "is_order ord"
    and "Collect ok (ord j) (Load (sr_store s)) = Some ms"
  shows "distinct (map (\<lambda>m. (mt_Name m, mt_Labels m)) ms)"
proof -
  obtain ord1 i results where snap: "is_order ord1" "Load (sr_store s) = BuildSnapshot (ord1 i) results"
    and conf: "list_all conforms (all_samples results)"
    using reachable_good [OF assms(1)] scrape_all_conform unfolding scraped_snapshot_def by blast
  let ?ord = "\<lambda>k. if k = 0 then ord1 i else ord j"
  have "is_order ?ord" using snap(1) assms(2) by (simp add: is_order_def)
  from collect_distinct [OF this conf, of ok 1 0 ms] assms(3) show ?thesis by (simp add: snap(2))
qed

text \<open>An outside world where no session can be created, for the witnesses.\<close>

definition example_outside :: "(unit, unit, string) Outside" where
  "example_outside =
     \<lparr>ou_New = (\<lambda>d url user pw insecure n. (Inl ''no route to host'', n)),
      ou_Get = (\<lambda>s d path ps n. (Inl ''no route to host'', n)),
      ou_Version = (\<lambda>s. 0), ou_JSONError = (\<lambda>e. None), ou_HTMLError = (\<lambda>e. None),
      ou_Now = (\<lambda>n. 5000000000), ou_Mkdir = (\<lambda>d f. True), ou_Write = (\<lambda>d f. True),
      ou_Left = (\<lambda>d f b. None), ou_Int = (\<lambda>v. 0)\<rparr>"

definition example_sdk :: MeterSdk where
  "example_sdk = \<lparr>ms_new = (\<lambda>os. True), ms_merge = Some, ms_gauge = (\<lambda>reg n. True), ms_version = ''dev''\<rparr>"

definition example_world :: "unit World" where
  "example_world = \<lparr>wo_net = (), wo_trace = [], wo_files = []\<rparr>"

definition down_snapshot :: "string \<Rightarrow> string client_error ClusterSnapshot" where
  "down_snapshot name =
     \<lparr>cs_Cluster = name, cs_Up = False, cs_APIVersion = 0,
      cs_ScrapeError = Some (AuthFailed name ''no route to host''),
      cs_LastScrape = Some 5000000000, cs_Samples = []\<rparr>"

text \<open>There every cluster stays a lazy client that reports the error of the creation.\<close>

definition example_lazy :: "ClusterConfig \<Rightarrow> (unit, unit, string) AnyClient \<times> unit World" where
  "example_lazy cl =
     (Lazy (NewLazyClient (cc_Name cl) (\<lambda>d. NewClusterClient example_outside d cl [] False)), example_world)"

lemma example_buildClients:
  "buildClients example_outside False [] False cfg (map (\<lambda>_. example_world) (cf_Clusters cfg)) =
     map example_lazy (cf_Clusters cfg)"
  by (simp add: buildClients_def zip_map2 zip_same_conv_map build_client_def NewClusterClient_def
      example_outside_def example_lazy_def example_world_def)

lemma example_create:
  "NewClusterClient example_outside d cl dumpDir tr example_world =
     (Inl (AuthFailed (cc_Name cl) ''no route to host''), example_world)"
  by (simp add: NewClusterClient_def example_outside_def example_world_def)

lemma example_ops: "ops_Name (any_ops ou) (Lazy (NewLazyClient name create)) = name"
  by (simp add: any_ops_def Let_def lazy_ops_def NewLazyClient_def)

lemma example_now: "ou_Now example_outside n = 5000000000"
  by (simp add: example_outside_def)

lemma example_delegate:
  "delegate m d (NewLazyClient (cc_Name cl) (\<lambda>d. NewClusterClient example_outside d cl [] False)) example_world =
     (Inl (AuthFailed (cc_Name cl) ''no route to host''),
      NewLazyClient (cc_Name cl) (\<lambda>d. NewClusterClient example_outside d cl [] False), example_world)"
  by (simp add: delegate_def lazy_get_def NewLazyClient_def example_create)

lemma example_calls:
  "ops_APIVersion (any_ops example_outside) d
     (Lazy (NewLazyClient (cc_Name cl) (\<lambda>d. NewClusterClient example_outside d cl [] False))) example_world =
   (Inl (AuthFailed (cc_Name cl) ''no route to host''),
    Lazy (NewLazyClient (cc_Name cl) (\<lambda>d. NewClusterClient example_outside d cl [] False)), example_world)"
  "ops_GetInventory (any_ops example_outside) d
     (Lazy (NewLazyClient (cc_Name cl) (\<lambda>d. NewClusterClient example_outside d cl [] False))) example_world =
   (Inl (AuthFailed (cc_Name cl) ''no route to host''),
    Lazy (NewLazyClient (cc_Name cl) (\<lambda>d. NewClusterClient example_outside d cl [] False)), example_world)"
  by (simp_all add: any_ops_def Let_def lazy_ops_def example_delegate wrap_def)

lemma example_scrape:
  "scrape (any_ops example_outside) ord (clock example_outside) d (example_lazy cl) =
     (down_snapshot (cc_Name cl), example_lazy cl)"
  by (simp add: example_lazy_def scrape_phases end_inventory_def example_calls example_ops
      down_snapshot_def new_snapshot_def clock_def example_now)

lemma example_scrape_all:
  "scrape_all (any_ops example_outside) ords (clock example_outside) d (map example_lazy cls) =
     map (\<lambda>cl. (down_snapshot (cc_Name cl), example_lazy cl)) cls"
  by (intro nth_equalityI) (simp_all add: scrape_all_def example_scrape)

lemma example_collectAll:
  "\<exists>h'. collectAll (any_ops example_outside) ords (clock example_outside) d o1 (map example_lazy cls) h
     (BuildSnapshot o1 (map (\<lambda>cl. Some (down_snapshot (cc_Name cl))) cls)) (map example_lazy cls) h'"
proof -
  obtain ts h' rs where run: "(cycle_step (any_ops example_outside) ords (clock example_outside) d)\<^sup>*\<^sup>*
      (start_tasks (map example_lazy cls), h) (ts, h')" "map task_final ts = map Some rs"
    using cycle_finishes by blast
  from collectAll.wait [OF this, of o1] collectAll_result [OF collectAll.wait [OF this, of o1]]
  show ?thesis unfolding example_scrape_all by (auto simp: comp_def)
qed

lemma example_start:
  assumes "sc_C (sr_cfg s) = cfg"
  shows "\<exists>h'. startCollection example_outside [] False False s
     (s\<lparr>sr_store := Store (sr_store s) (BuildSnapshot id (map (\<lambda>cl. Some (down_snapshot (cc_Name cl))) (cf_Clusters cfg))),
        sr_loops := sr_loops s @ [new_loop cfg (map example_lazy (cf_Clusters cfg)) h'],
        sr_cancel := Some (length (sr_loops s))\<rparr>)"
proof -
  obtain h' where h': "collectAll (any_ops example_outside) (\<lambda>_. id_order) (clock example_outside) False (id_order 0)
      (buildClients example_outside False [] False cfg (map (\<lambda>_. example_world) (cf_Clusters cfg))) no_explanations
     (BuildSnapshot (id_order 0) (map (\<lambda>cl. Some (down_snapshot (cc_Name cl))) (cf_Clusters cfg)))
     (map example_lazy (cf_Clusters cfg)) h'"
    unfolding example_buildClients using example_collectAll by blast
  have "all_orders (\<lambda>_. id_order) id_order" by (simp add: all_orders_def)
  from startCollection.start [OF assms [symmetric] _ this h', of False] show ?thesis
    by (auto simp: id_order_id)
qed

definition example_safe :: SafeConfig where
  "example_safe = NewSafeConfig (SetDefaults example_config) None"

lemma example_reachable:
  "\<exists>s. reachable example_outside [] False example_sdk example_safe s
     \<and> Load (sr_store s) = BuildSnapshot id [Some (down_snapshot ''lab'')]"
proof -
  let ?s0 = "NewServer (id_order 0) example_safe :: (unit, unit, string) Server"
  have cls: "map cc_Name (cf_Clusters (SetDefaults example_config)) = [''lab'']" by code_simp
  have "sc_C (sr_cfg ?s0) = SetDefaults example_config" by (simp add: NewServer_def example_safe_def NewSafeConfig_def)
  from example_start [OF this] obtain h' where
    "startCollection example_outside [] False False ?s0
     (?s0\<lparr>sr_store := Store (sr_store ?s0) (BuildSnapshot id (map (\<lambda>cl. Some (down_snapshot (cc_Name cl)))
            (cf_Clusters (SetDefaults example_config)))),
        sr_loops := sr_loops ?s0 @ [new_loop (SetDefaults example_config) (map example_lazy (cf_Clusters (SetDefaults example_config))) h'],
        sr_cancel := Some (length (sr_loops ?s0))\<rparr>)" by blast
  from reachable.started [OF is_order_id this, of example_sdk]
  have "\<exists>s. reachable example_outside [] False example_sdk example_safe s
     \<and> Load (sr_store s) = BuildSnapshot id (map (\<lambda>n. Some (down_snapshot n)) (map cc_Name (cf_Clusters (SetDefaults example_config))))"
    by (intro exI conjI) (assumption, simp add: comp_def)
  then show ?thesis unfolding cls by simp
qed

section \<open>At most one loop is live\<close>

text \<open>Only the loop whose cancel function the server holds is not cancelled.\<close>

definition live_ok :: "bool list \<Rightarrow> nat option \<Rightarrow> bool \<Rightarrow> bool" where
  "live_ok flags cancel restart \<longleftrightarrow>
     (case cancel of
        None \<Rightarrow> list_all id flags
      | Some k \<Rightarrow> k < length flags \<and> \<not> restart \<and> list_all id (flags[k := True]))"

definition loops_ok :: "('n, 's, 'e) Server \<Rightarrow> bool" where
  "loops_ok s \<longleftrightarrow> live_ok (map lp_cancelled (sr_loops s)) (sr_cancel s) (sr_restart s)"

lemma live_ok_stop: "live_ok flags (Some k) r \<Longrightarrow> live_ok (flags[k := True]) None r'"
  by (simp add: live_ok_def)

lemma live_ok_start: "live_ok flags None r \<Longrightarrow> live_ok (flags @ [False]) (Some (length flags)) False"
  by (simp add: live_ok_def list_update_append)

lemma flags_update:
  "i < length loops \<Longrightarrow> lp_cancelled l = lp_cancelled (loops ! i) \<Longrightarrow>
     map lp_cancelled (loops[i := l]) = map lp_cancelled loops"
  by (simp add: map_update) (metis list_update_id nth_map)

lemma loops_ok_stop: "loops_ok s \<Longrightarrow> loops_ok (stopCollection ou (s\<lparr>sr_cfg := sc, sr_restart := True\<rparr>))"
proof (cases "sr_cancel s")
  case (Some k)
  assume "loops_ok s"
  with Some have "live_ok (map lp_cancelled (sr_loops s)) (Some k) (sr_restart s)" by (simp add: loops_ok_def)
  from live_ok_stop [OF this] show ?thesis by (simp add: loops_ok_def stopCollection_def Some map_update)
qed (simp add: loops_ok_def stopCollection_def live_ok_def)

lemma loops_ok_start:
  assumes "startCollection ou dumpDir tr False s s'" and "loops_ok s" and "sr_cancel s = None"
  shows "loops_ok (s'\<lparr>sr_restart := False\<rparr>) \<and> sr_restart s' = sr_restart s"
  using assms(1)
proof cases
  case (start cfg ws ords ord snap pool' h')
  have "live_ok (map lp_cancelled (sr_loops s)) None (sr_restart s)" using assms(2,3) by (simp add: loops_ok_def)
  from live_ok_start [OF this] show ?thesis by (simp add: start(1) loops_ok_def new_loop_def)
qed

lemma loops_ok_otlp:
  "loops_ok (initOTLP g s) = loops_ok s" "loops_ok (reload_instruments g s) = loops_ok s"
  by (simp_all add: loops_ok_def initOTLP_def reload_instruments_def split: option.split prod.split)

lemma reachable_loops_ok: "reachable ou dumpDir tr g sc s \<Longrightarrow> loops_ok s"
proof (induction rule: reachable.induct)
  case (started ord s)
  have "loops_ok (NewServer (ord 0) sc)" "sr_cancel (NewServer (ord 0) sc) = None"
    by (simp_all add: loops_ok_def live_ok_def NewServer_def)
  from loops_ok_start [OF started(2) this] have "loops_ok (s\<lparr>sr_restart := False\<rparr>)" "sr_restart s = False"
    by (simp_all add: NewServer_def)
  then have "loops_ok s" by (simp add: loops_ok_def)
  then show ?case by (simp add: loops_ok_otlp)
next
  case (moved s s')
  from moved.hyps(2) show ?case
  proof (cases rule: server_step.cases)
    case (reload_start s1)
    have "sr_cancel s = None"
      using moved.IH reload_start(2) by (simp add: loops_ok_def live_ok_def split: option.splits)
    from loops_ok_start [OF reload_start(3) moved.IH this] reload_start(1) show ?thesis
      by (simp add: loops_ok_otlp)
  next
    case (reload_stop decode fs path sc')
    with loops_ok_stop [OF moved.IH] show ?thesis by simp
  qed (use moved.IH in \<open>simp_all add: loops_ok_def flags_update\<close>)
qed

lemma count_update: "count_list xs False \<le> count_list (xs[k := True]) False + 1"
  by (induction xs arbitrary: k) (auto split: nat.split)

text \<open>C4: However reloads and cycles interleave, at most one collection loop is live: in every
  reachable state all loops but at most one are cancelled, the live one is the loop that the next
  reload or the shutdown will cancel, and none is live while a reload is between stopping the old
  loop and starting the new one.\<close>

theorem one_live_loop:
  assumes "reachable ou dumpDir tr sdk sc s"
  shows "length (filter (\<lambda>l. \<not> lp_cancelled l) (sr_loops s)) \<le> (if sr_restart s then 0 else 1)
    \<and> (case sr_cancel s of Some i \<Rightarrow> i < length (sr_loops s) | None \<Rightarrow> list_all lp_cancelled (sr_loops s))"
proof -
  have ok: "loops_ok s" by (rule reachable_loops_ok [OF assms])
  have count: "length (filter (\<lambda>l. \<not> lp_cancelled l) (sr_loops s)) = count_list (map lp_cancelled (sr_loops s)) False"
    by (induction "sr_loops s") (simp_all add: count_list_eq_length_filter filter_map comp_def)
  show ?thesis
  proof (cases "sr_cancel s")
    case None
    then have "list_all lp_cancelled (sr_loops s)" using ok by (simp add: loops_ok_def live_ok_def list_all_iff)
    then have "filter (\<lambda>l. \<not> lp_cancelled l) (sr_loops s) = []" by (simp add: filter_empty_conv list_all_iff)
    then show ?thesis using None \<open>list_all lp_cancelled (sr_loops s)\<close> by simp
  next
    case (Some k)
    then have k: "k < length (sr_loops s)" "\<not> sr_restart s"
      and flags: "list_all id ((map lp_cancelled (sr_loops s))[k := True])"
      using ok by (simp_all add: loops_ok_def live_ok_def)
    have "count_list ((map lp_cancelled (sr_loops s))[k := True]) False = 0"
      using flags by (auto simp: count_list_0_iff list_all_iff)
    then have "count_list (map lp_cancelled (sr_loops s)) False \<le> 1"
      using count_update [of "map lp_cancelled (sr_loops s)" k] by simp
    then show ?thesis using Some k count by simp
  qed
qed

theorem one_live_loop_witness:
  "\<exists>s. reachable example_outside [] False example_sdk example_safe s
     \<and> length (filter (\<lambda>l. \<not> lp_cancelled l) (sr_loops s)) \<le> (if sr_restart s then 0 else 1)"
  using example_reachable one_live_loop by blast

section \<open>Every configured cluster is reported\<close>

lemma build_client_name: "ops_Name (any_ops ou) (fst (build_client ou d dumpDir tr cl w)) = cc_Name cl"
  by (auto simp: build_client_def any_ops_def Let_def cluster_ops_def lazy_ops_def NewLazyClient_def
      NewClusterClient_def split: prod.splits sum.splits)

lemma pool_names:
  assumes "length ws = length (cf_Clusters cfg)"
  shows "map (ops_Name (any_ops ou) \<circ> fst) (buildClients ou d dumpDir tr cfg ws) = map cc_Name (cf_Clusters cfg)"
  using assms by (intro nth_equalityI) (simp_all add: buildClients_def build_client_name)

lemma find_key: "find (\<lambda>c. f c = n) xs \<noteq> None \<longleftrightarrow> n \<in> f ` set xs"
  by (induction xs) auto

lemma per_cluster_keys: "set (map_keys (sh_PerCluster (BuildSnapshot o1 (map (\<lambda>(cs, c, w). Some cs) rs)))) =
    set (map (\<lambda>(cs, c, w). cs_Cluster cs) rs)"
proof -
  let ?m = "sh_PerCluster (BuildSnapshot o1 (map (\<lambda>(cs, c, w). Some cs) rs))"
  have id: "List.map_filter id (map (\<lambda>(cs, c, w). Some cs) rs) = map fst rs"
    by (induction rs) (auto simp: List.map_filter_def)
  have "map_of ?m n = find (\<lambda>c. cs_Cluster c = n) (rev (map fst rs))" for n
    by (simp add: BuildSnapshot_sel per_cluster_lookup id split: option.split)
  then have "dom (map_of ?m) = cs_Cluster ` set (map fst rs)"
    using find_key [of cs_Cluster _ "rev (map fst rs)"] by (auto simp: dom_def)
  also have "\<dots> = set (map (\<lambda>(cs, c, w). cs_Cluster cs) rs)" by force
  finally show ?thesis unfolding set_map_keys .
qed

lemma startCollection_keys:
  assumes "startCollection ou dumpDir tr once s s'"
  shows "set (map_keys (sh_PerCluster (Load (sr_store s')))) = cc_Name ` set (cf_Clusters (sc_C (sr_cfg s)))"
  using assms
proof cases
  case (start cfg ws ords ord snap pool' h')
  have "set (map_keys (sh_PerCluster snap)) =
      set (map (\<lambda>(cs, c, w). cs_Cluster cs)
        (scrape_all (any_ops ou) ords (clock ou) False (buildClients ou False dumpDir tr cfg ws)))"
    using collectAll_result [OF start(5)] per_cluster_keys by simp
  also have "\<dots> = set (map cc_Name (cf_Clusters cfg))"
    unfolding scrape_all_names pool_names [OF start(3)] ..
  finally show ?thesis using start(1,2) by simp
qed

text \<open>C13: No configured cluster goes missing: whether or not a session could be created, the snapshot
  published at startup and after a reload has an entry for exactly the configured clusters, so an
  unreachable cluster is reported down instead of disappearing.\<close>

theorem startCollection_reports_all:
  assumes "startCollection ou dumpDir tr once s s'"
  shows "set (map_keys (sh_PerCluster (Load (sr_store s')))) = cc_Name ` set (cf_Clusters (sc_C (sr_cfg s)))"
  by (rule startCollection_keys [OF assms])

theorem startCollection_reports_all_witness:
  "\<exists>s'. startCollection example_outside [] False False (NewServer id example_safe) s'
     \<and> set (map_keys (sh_PerCluster (Load (sr_store s')))) = {''lab''}"
proof -
  have "cc_Name ` set (cf_Clusters (sc_C (sr_cfg (NewServer id example_safe :: (unit, unit, string) Server)))) = {''lab''}"
    by (simp add: NewServer_def example_safe_def NewSafeConfig_def SetDefaults_def Let_def example_config_def
        example_cluster_def cluster_defaults_def)
  moreover obtain s' where s': "startCollection example_outside [] False False (NewServer id example_safe) s'"
    using example_start [of "NewServer id example_safe", OF refl] by blast
  ultimately show ?thesis using startCollection_reports_all [OF s'] s' by metis
qed

end
