(* ===== verification/GoPath.thy ===== *)
theory GoPath
  imports GoStrings
begin

text \<open>
  Go's \<open>path/filepath\<close> on Unix as far as the program uses it: \<open>Clean\<close>, \<open>Dir\<close>, \<open>Base\<close> and \<open>Join\<close>
  work on the text of a path alone.
\<close>

fun split_on :: "char \<Rightarrow> string \<Rightarrow> string list" where
  "split_on c [] = [[]]"
| "split_on c (x # xs) =
     (if x = c then [] # split_on c xs
      else case split_on c xs of [] \<Rightarrow> [[x]] | p # ps \<Rightarrow> (x # p) # ps)"

text \<open>The elements kept so far, last first: \<open>.\<close> and empty elements go, \<open>..\<close> takes back the element
  before it, and is kept only at the start of a relative path.\<close>

fun clean_parts :: "bool \<Rightarrow> string list \<Rightarrow> string list \<Rightarrow> string list" where
  "clean_parts rooted out [] = out"
| "clean_parts rooted out (p # ps) =
     (if p = [] \<or> p = ''.'' then clean_parts rooted out ps
      else if p = ''..'' then
        (case out of
           [] \<Rightarrow> clean_parts rooted (if rooted then [] else [''..'']) ps
         | q # out' \<Rightarrow> clean_parts rooted (if q = ''..'' then p # out else out') ps)
      else clean_parts rooted (p # out) ps)"

definition Clean :: "string \<Rightarrow> string" where
  "Clean s =
     (let rooted = s \<noteq> [] \<and> hd s = CHR ''/'';
          body = Join (rev (clean_parts rooted [] (split_on (CHR ''/'') s))) ''/''
      in if rooted then ''/'' @ body else if body = [] then ''.'' else body)"

definition Dir :: "string \<Rightarrow> string" where
  "Dir s = Clean (rev (dropWhile (\<lambda>c. c \<noteq> CHR ''/'') (rev s)))"

definition Base :: "string \<Rightarrow> string" where
  "Base s =
     (if s = [] then ''.''
      else (let b = rev (takeWhile (\<lambda>c. c \<noteq> CHR ''/'') (dropWhile (\<lambda>c. c = CHR ''/'') (rev s)))
            in if b = [] then ''/'' else b))"

definition path_join :: "string \<Rightarrow> string \<Rightarrow> string" where
  "path_join dir name = Clean (dir @ ''/'' @ name)"

text \<open>The last element of a path is what follows its last slash.\<close>

lemma Base_append:
  assumes "name \<noteq> []" and "CHR ''/'' \<notin> set name"
  shows "Base (dir @ ''/'' @ name) = name" and "Base name = name"
proof -
  have "rev name = r \<Longrightarrow> r \<noteq> [] \<and> hd r \<noteq> CHR ''/'' \<and> (\<forall>c \<in> set r. c \<noteq> CHR ''/'')" for r
    using assms by (metis hd_rev last_in_set rev_is_Nil_conv set_rev)
  then have drp: "dropWhile (\<lambda>c. c = CHR ''/'') (rev name @ t) = rev name @ t" for t
    by (cases "rev name") auto
  have tk: "takeWhile (\<lambda>c. c \<noteq> CHR ''/'') (rev name @ t) = rev name @ takeWhile (\<lambda>c. c \<noteq> CHR ''/'') t" for t
    using assms(2) by (intro takeWhile_append2) auto
  show "Base (dir @ ''/'' @ name) = name" "Base name = name"
    using assms(1) drp [of "[]"] tk [of "[]", unfolded append_Nil2 takeWhile.simps] drp [of "CHR ''/'' # rev dir"] tk [of "CHR ''/'' # rev dir"]
    by (simp_all add: Base_def Let_def del: takeWhile_eq_all_conv)
qed

lemma Clean_examples:
  "map Clean [''a//b/./c/..'', ''../x/..'', ''/..'', ''./'', ''/a/../../b''] = [''a/b'', ''..'', ''/'', ''.'', ''/b'']"
  "map Dir [''config.yaml'', ''/etc/pscale/config.yaml'', ''conf/'', ''/config.yaml''] = [''.'', ''/etc/pscale'', ''conf'', ''/'']"
  "map Base [''config.yaml'', ''/etc/pscale/config.yaml'', ''conf/'', ''/''] = [''config.yaml'', ''config.yaml'', ''conf'', ''/'']"
  by code_simp+

end
