(* ===== verification/GoJsonText.thy ===== *)
theory GoJsonText
  imports GoJson
begin

text \<open>
  The grammar of JSON texts as an inductive relation, free of fuel, to which the reader of \<open>GoJson\<close> is
  equivalent; what \<open>encoding/json\<close> writes (\<open>MarshalIndent\<close>) and that it reads back.
\<close>

section \<open>The grammar\<close>

text \<open>\<open>json_val d s j u\<close>: the text \<open>s\<close> starts with the value \<open>j\<close>, open at depth \<open>d\<close>, and \<open>u\<close> is left.\<close>

inductive json_val :: "nat \<Rightarrow> string \<Rightarrow> json \<Rightarrow> string \<Rightarrow> bool"
  and json_elems :: "nat \<Rightarrow> string \<Rightarrow> json list \<Rightarrow> string \<Rightarrow> bool"
  and json_members :: "nat \<Rightarrow> string \<Rightarrow> (string \<times> json) list \<Rightarrow> string \<Rightarrow> bool" where
  str: "skip_ws s = CHR 0x22 # cs \<Longrightarrow> rd_str cs = Some (t, u) \<Longrightarrow> json_val d s (JStr t) u"
| arr_empty: "skip_ws s = CHR ''['' # cs \<Longrightarrow> d < 10000 \<Longrightarrow> skip_ws cs = CHR '']'' # u \<Longrightarrow> json_val d s (JArr []) u"
| arr: "skip_ws s = CHR ''['' # cs \<Longrightarrow> d < 10000 \<Longrightarrow> json_elems (Suc d) (skip_ws cs) js u \<Longrightarrow> json_val d s (JArr js) u"
| obj_empty: "skip_ws s = CHR ''{'' # cs \<Longrightarrow> d < 10000 \<Longrightarrow> skip_ws cs = CHR ''}'' # u \<Longrightarrow> json_val d s (JObj []) u"
| obj: "skip_ws s = CHR ''{'' # cs \<Longrightarrow> d < 10000 \<Longrightarrow> json_members (Suc d) (skip_ws cs) ms u \<Longrightarrow> json_val d s (JObj ms) u"
| null: "skip_ws s = ''null'' @ u \<Longrightarrow> json_val d s JNull u"
| true: "skip_ws s = ''true'' @ u \<Longrightarrow> json_val d s (JBool True) u"
| false: "skip_ws s = ''false'' @ u \<Longrightarrow> json_val d s (JBool False) u"
| num: "lit = takeWhile is_num_char (skip_ws s) \<Longrightarrow> json_num_ok lit \<Longrightarrow> u = dropWhile is_num_char (skip_ws s) \<Longrightarrow>
     json_val d s (JNum lit) u"
| last_elem: "json_val d s j r \<Longrightarrow> skip_ws r = CHR '']'' # u \<Longrightarrow> json_elems d s [j] u"
| elem: "json_val d s j r \<Longrightarrow> skip_ws r = CHR '','' # cs \<Longrightarrow> json_elems d cs js u \<Longrightarrow> json_elems d s (j # js) u"
| last_member: "skip_ws s = CHR 0x22 # qs \<Longrightarrow> rd_str qs = Some (k, r) \<Longrightarrow> skip_ws r = CHR '':'' # cs \<Longrightarrow>
     json_val d cs j rest \<Longrightarrow> skip_ws rest = CHR ''}'' # u \<Longrightarrow> json_members d s [(k, j)] u"
| member: "skip_ws s = CHR 0x22 # qs \<Longrightarrow> rd_str qs = Some (k, r) \<Longrightarrow> skip_ws r = CHR '':'' # cs \<Longrightarrow>
     json_val d cs j rest \<Longrightarrow> skip_ws rest = CHR '','' # ds \<Longrightarrow> json_members d ds ms u \<Longrightarrow>
     json_members d s ((k, j) # ms) u"

lemma skip_ws_length: "length (skip_ws s) \<le> length s"
  by (simp add: skip_ws_def length_dropWhile_le)

lemma skip_ws_Cons: "skip_ws s = c # cs \<Longrightarrow> length cs < length s"
  using skip_ws_length [of s] by simp

lemma skip_ws_append: "skip_ws s = t @ u \<Longrightarrow> t \<noteq> [] \<Longrightarrow> length u < length s"
  using skip_ws_length [of s] by (cases t) auto

lemma rd_str_shorter: "rd_str s = Some (t, u) \<Longrightarrow> length u < length s"
  by (induction s arbitrary: t u rule: rd_str.induct) (fastforce split: if_splits list.splits)+

lemma json_num_nil [simp]: "\<not> json_num_ok []"
  by (simp add: json_num_ok_def)

lemma json_num_head: "json_num_ok lit \<Longrightarrow> \<exists>c l. lit = c # l \<and> (is_digit c \<or> c = CHR ''-'')"
  by (cases lit) (auto simp: json_num_ok_def Let_def split: if_splits)

lemma num_shorter: "json_num_ok (takeWhile P s) \<Longrightarrow> length (dropWhile P s) < length s"
  by (cases s) (auto simp: json_num_ok_def length_dropWhile_le less_Suc_eq_le split: if_splits)

text \<open>The reader's case distinctions as rules of the grammar.\<close>

lemma json_val_read:
  "skip_ws s = CHR ''['' # cs \<Longrightarrow> d < 10000 \<Longrightarrow> skip_ws cs = e # es \<Longrightarrow> json_elems (Suc d) (e # es) js u \<Longrightarrow>
     json_val d s (JArr js) u"
  "skip_ws s = CHR ''{'' # cs \<Longrightarrow> d < 10000 \<Longrightarrow> skip_ws cs = e # es \<Longrightarrow> json_members (Suc d) (e # es) ms u \<Longrightarrow>
     json_val d s (JObj ms) u"
  "skip_ws s = c # cs \<Longrightarrow> take 4 (c # cs) = ''null'' \<Longrightarrow> json_val d s JNull (drop 3 cs)"
  "skip_ws s = c # cs \<Longrightarrow> take 4 (c # cs) = ''true'' \<Longrightarrow> json_val d s (JBool True) (drop 3 cs)"
  "skip_ws s = c # cs \<Longrightarrow> take 5 (c # cs) = ''false'' \<Longrightarrow> json_val d s (JBool False) (drop 4 cs)"
proof -
  note lit = append_take_drop_id [of _ "skip_ws s", symmetric]
  show "skip_ws s = c # cs \<Longrightarrow> take 4 (c # cs) = ''null'' \<Longrightarrow> json_val d s JNull (drop 3 cs)"
    using lit [of 4] by (intro null) simp
  show "skip_ws s = c # cs \<Longrightarrow> take 4 (c # cs) = ''true'' \<Longrightarrow> json_val d s (JBool True) (drop 3 cs)"
    using lit [of 4] by (intro true) simp
  show "skip_ws s = c # cs \<Longrightarrow> take 5 (c # cs) = ''false'' \<Longrightarrow> json_val d s (JBool False) (drop 4 cs)"
    using lit [of 5] by (intro false) simp
qed (auto intro: arr obj)

lemma rd_value_sound:
  "rd_value n d s = Some (j, u) \<Longrightarrow> json_val d s j u"
  "rd_elems n d s = Some (js, u) \<Longrightarrow> json_elems d s js u"
  "rd_members n d s = Some (ms, u) \<Longrightarrow> json_members d s ms u"
proof (induction n arbitrary: d s j u js ms)
  case (Suc n)
  {
    case 1
    then obtain c cs where s: "skip_ws s = c # cs" by (cases "skip_ws s") auto
    show ?case
      using 1 json_val_read(3-5) [OF s] json_val_read(1,2) [of s cs d] s Suc.IH(2,3)
      by (auto split: if_splits list.splits simp: Let_def intro: str arr_empty obj_empty num)
  next
    case 2
    then show ?case
      by (auto split: option.splits list.splits if_splits prod.splits
          intro: last_elem [OF Suc.IH(1)] elem [OF Suc.IH(1) _ Suc.IH(2)])
  next
    case 3
    then show ?case
      by (auto split: option.splits list.splits if_splits prod.splits
          intro: last_member [OF _ _ _ Suc.IH(1)] member [OF _ _ _ Suc.IH(1) _ Suc.IH(3)])
  }
qed simp_all

lemma json_shorter:
  "json_val d s j u \<Longrightarrow> length u < length s"
  "json_elems d s js u \<Longrightarrow> length u < length s"
  "json_members d s ms u \<Longrightarrow> length u < length s"
proof (induction rule: json_val_json_elems_json_members.inducts)
  case (num lit s u d)
  then show ?case using num_shorter [of is_num_char "skip_ws s"] skip_ws_length [of s] by simp
next
  case (arr s cs d js u)
  then show ?case using skip_ws_Cons [of s] skip_ws_length [of cs] by fastforce
next
  case (obj s cs d ms u)
  then show ?case using skip_ws_Cons [of s] skip_ws_length [of cs] by fastforce
qed (fastforce dest: skip_ws_Cons skip_ws_append rd_str_shorter)+

lemma num_head:
  assumes "json_num_ok (takeWhile is_num_char s)"
  obtains c cs where "s = c # cs" and "is_digit c \<or> c = CHR ''-''"
  using json_num_head [OF assms] by (cases s) (auto split: if_splits)

lemma json_head:
  "json_val d s j u \<Longrightarrow> \<exists>c cs. skip_ws s = c # cs \<and> c \<noteq> CHR '']''"
  by (erule json_val.cases) (auto simp: is_digit_def elim!: num_head)

lemma json_elems_head: "json_elems d s js u \<Longrightarrow> \<exists>c cs. skip_ws s = c # cs \<and> c \<noteq> CHR '']''"
  by (erule json_elems.cases) (auto dest: json_head)

lemma json_members_head: "json_members d s ms u \<Longrightarrow> \<exists>cs. skip_ws s = CHR 0x22 # cs"
  by (erule json_members.cases) auto

lemma skip_ws_idem [simp]: "skip_ws (skip_ws s) = skip_ws s"
  by (simp add: skip_ws_def)

lemma rd_num:
  assumes "json_num_ok (takeWhile is_num_char (skip_ws s))"
  shows "rd_value (Suc n) d s = Some (JNum (takeWhile is_num_char (skip_ws s)), dropWhile is_num_char (skip_ws s))"
proof -
  obtain c cs where s: "skip_ws s = c # cs" and c: "is_digit c \<or> c = CHR ''-''"
    using assms by (rule num_head)
  from c have "c \<notin> set ''[{ntf'' \<union> {CHR 0x22}" by (auto simp: is_digit_def)
  then show ?thesis using assms s by (simp add: Let_def)
qed

lemma rd_value_complete:
  "json_val d s j u \<Longrightarrow> (\<forall>n. 2 * length s \<le> n \<longrightarrow> rd_value (Suc n) d s = Some (j, u))"
  "json_elems d s js u \<Longrightarrow> (\<forall>n. 2 * length s + 1 \<le> n \<longrightarrow> rd_elems (Suc n) d s = Some (js, u))"
  "json_members d s ms u \<Longrightarrow> (\<forall>n. 2 * length s + 1 \<le> n \<longrightarrow> rd_members (Suc n) d s = Some (ms, u))"
proof (induction rule: json_val_json_elems_json_members.inducts)
  case (num lit s u d)
  then show ?case using rd_num by simp
next
  case (arr s cs d js u)
  obtain c es where cs: "skip_ws cs = c # es" "c \<noteq> CHR '']''" using json_elems_head [OF arr(3)] by auto
  have "rd_elems n (Suc d) (c # es) = Some (js, u)" if "2 * length s \<le> n" for n
    using arr(4) [THEN spec, of "n - 1"] that skip_ws_Cons [OF arr(1)] skip_ws_length [of cs] cs by simp
  then show ?case using arr(1,2) cs by simp
next
  case (obj s cs d ms u)
  obtain es where cs: "skip_ws cs = CHR 0x22 # es" using json_members_head [OF obj(3)] by auto
  have "rd_members n (Suc d) (CHR 0x22 # es) = Some (ms, u)" if "2 * length s \<le> n" for n
    using obj(4) [THEN spec, of "n - 1"] that skip_ws_Cons [OF obj(1)] skip_ws_length [of cs] cs by simp
  then show ?case using obj(1,2) cs by simp
next
  case (last_elem d s j r u)
  have "rd_value n d s = Some (j, r)" if "2 * length s + 1 \<le> n" for n
    using last_elem.IH [THEN spec, of "n - 1"] that by simp
  then show ?case using last_elem.hyps(2) by simp
next
  case (elem d s j r cs js u)
  have "rd_value n d s = Some (j, r)" if "2 * length s + 1 \<le> n" for n
    using elem.IH(1) [THEN spec, of "n - 1"] that by simp
  moreover have "rd_elems n d cs = Some (js, u)" if "2 * length s + 1 \<le> n" for n
    using elem.IH(2) [THEN spec, of "n - 1"] that skip_ws_Cons [OF elem.hyps(2)] json_shorter(1) [OF elem.hyps(1)] by simp
  ultimately show ?case using elem.hyps(2) by simp
next
  case (last_member s qs k r cs d j rest u)
  have "rd_value n d cs = Some (j, rest)" if "2 * length s + 1 \<le> n" for n
    using last_member.IH [THEN spec, of "n - 1"] that skip_ws_Cons [OF last_member(1)]
      rd_str_shorter [OF last_member(2)] skip_ws_Cons [OF last_member(3)] by simp
  then show ?case using last_member.hyps(1-3,5) by simp
next
  case (member s qs k r cs d j rest ds ms u)
  note len = skip_ws_Cons [OF member(1)] rd_str_shorter [OF member(2)] skip_ws_Cons [OF member(3)]
    json_shorter(1) [OF member(4)] skip_ws_Cons [OF member(5)]
  have "rd_value n d cs = Some (j, rest)" if "2 * length s + 1 \<le> n" for n
    using member.IH(1) [THEN spec, of "n - 1"] that len by simp
  moreover have "rd_members n d ds = Some (ms, u)" if "2 * length s + 1 \<le> n" for n
    using member.IH(2) [THEN spec, of "n - 1"] that len by simp
  ultimately show ?case using member.hyps(1-3,5) by simp
qed (auto simp: Let_def)

declare rd_value.simps(2) [simp del]

text \<open>The reader accepts exactly the texts of the grammar: its fuel never runs out, and more fuel changes
  nothing.\<close>

lemma rd_value_iff:
  assumes "2 * length s + 2 \<le> n"
  shows "rd_value n d s = Some (j, u) \<longleftrightarrow> json_val d s j u"
  using rd_value_sound(1) [of n d s j u] rd_value_complete(1) [of d s j u, THEN spec, of "n - 1"] assms
  by (cases n) auto

lemma json_read_iff: "json_read s = Some j \<longleftrightarrow> (\<exists>u. json_val 0 s j u \<and> skip_ws u = [])"
proof -
  have "json_read s = Some j \<longleftrightarrow> (\<exists>u. rd_value (2 * length s + 2) 0 s = Some (j, u) \<and> skip_ws u = [])"
    unfolding json_read_def by (auto split: option.split)
  then show ?thesis by (simp only: rd_value_iff [OF order_refl])
qed

lemma fuel_suffices:
  assumes "2 * length s + 2 \<le> n"
  shows "rd_value n d s = rd_value (2 * length s + 2) d s"
  using rd_value_iff [OF assms, of d] rd_value_iff [of s "2 * length s + 2" d]
  by (cases "rd_value n d s"; cases "rd_value (2 * length s + 2) d s") auto

section \<open>Writing\<close>

text \<open>String literals as \<open>encoding/json\<close> writes them: HTML's special characters and the line separators
  U+2028 and U+2029 are escaped too, an invalid byte becomes the replacement character.\<close>

definition hex_digit :: "int \<Rightarrow> char" where
  "hex_digit n = (if n < 10 then digit_char n else char_of (87 + n))"

definition short_escapes :: "(char \<times> char) list" where
  "short_escapes =
     [(CHR 0x22, CHR 0x22), (CHR 0x5C, CHR 0x5C), (CHR 0x08, CHR ''b''), (CHR 0x0C, CHR ''f''),
      (CHR 0x0A, CHR ''n''), (CHR 0x0D, CHR ''r''), (CHR 0x09, CHR ''t'')]"

definition escape_byte :: "char \<Rightarrow> string" where
  "escape_byte c =
     (case map_of short_escapes c of
        Some e \<Rightarrow> [CHR 0x5C, e]
      | None \<Rightarrow>
          if byte c < 32 \<or> c \<in> set ''<>&'' then
            CHR 0x5C # ''u00'' @ [hex_digit (byte c div 16), hex_digit (byte c mod 16)]
          else if 128 \<le> byte c then CHR 0x5C # ''ufffd''
          else [c])"

definition escape_rune :: "string \<Rightarrow> string" where
  "escape_rune r =
     (if length r = 1 then escape_byte (hd r)
      else if r = [CHR 0xE2, CHR 0x80, CHR 0xA8] then CHR 0x5C # ''u2028''
      else if r = [CHR 0xE2, CHR 0x80, CHR 0xA9] then CHR 0x5C # ''u2029''
      else r)"

definition escape :: "string \<Rightarrow> string" where
  "escape s = concat (map escape_rune (runes s))"

text \<open>\<open>MarshalIndent(v, "", " ")\<close>: one space per open array or object.\<close>

definition quoted :: "string \<Rightarrow> string" where
  "quoted t = CHR 0x22 # t @ [CHR 0x22]"

definition newline :: "nat \<Rightarrow> string" where
  "newline k = CHR 0x0A # replicate k (CHR '' '')"

definition bracket :: "nat \<Rightarrow> char \<Rightarrow> char \<Rightarrow> string list \<Rightarrow> string" where
  "bracket k l r xs =
     (if xs = [] then [l, r]
      else l # newline (Suc k) @ Join xs (CHR '','' # newline (Suc k)) @ newline k @ [r])"

fun marshal_indent :: "nat \<Rightarrow> json \<Rightarrow> string" where
  "marshal_indent k JNull = ''null''"
| "marshal_indent k (JBool b) = (if b then ''true'' else ''false'')"
| "marshal_indent k (JNum l) = l"
| "marshal_indent k (JStr t) = quoted t"
| "marshal_indent k (JArr js) = bracket k (CHR ''['') (CHR '']'') (map (marshal_indent (Suc k)) js)"
| "marshal_indent k (JObj ms) =
     bracket k (CHR ''{'') (CHR ''}'') (map (\<lambda>(t, j). quoted t @ '': '' @ marshal_indent (Suc k) j) ms)"

section \<open>What is written reads back\<close>

text \<open>A value as Go writes it: literals that read as such, no nesting beyond Go's limit.\<close>

inductive literal :: "string \<Rightarrow> bool" where
  nil: "literal []"
| plain: "c \<noteq> CHR 0x22 \<Longrightarrow> c \<noteq> CHR 0x5C \<Longrightarrow> 32 \<le> byte c \<Longrightarrow> literal t \<Longrightarrow> literal (c # t)"
| esc: "is_escape e \<Longrightarrow> literal t \<Longrightarrow> literal (CHR 0x5C # e # t)"
| unicode: "list_all is_hex [h1, h2, h3, h4] \<Longrightarrow> literal t \<Longrightarrow> literal (CHR 0x5C # CHR ''u'' # h1 # h2 # h3 # h4 # t)"

fun good_json :: "nat \<Rightarrow> json \<Rightarrow> bool" where
  "good_json d (JNum l) = (json_num_ok l \<and> list_all is_num_char l)"
| "good_json d (JStr t) = literal t"
| "good_json d (JArr js) = (d < 10000 \<and> list_all (good_json (Suc d)) js)"
| "good_json d (JObj ms) = (d < 10000 \<and> list_all (\<lambda>(t, j). literal t \<and> good_json (Suc d) j) ms)"
| "good_json d _ = True"

lemma rd_literal: "literal t \<Longrightarrow> rd_str (t @ CHR 0x22 # r) = Some (t, r)"
  by (induction rule: literal.induct) (simp_all add: is_escape_def)

lemma skip_newline [simp]: "skip_ws (newline k @ s) = skip_ws s"
  by (simp add: skip_ws_def newline_def is_ws_def dropWhile_append)

lemma skip_ws_simps [simp]: 
  "skip_ws (CHR '' '' # s) = skip_ws s" "\<not> is_ws c \<Longrightarrow> skip_ws (c # s) = c # s" 
  by (simp_all add: skip_ws_def is_ws_def)

lemma punctuation [simp]:
  "\<not> is_ws (CHR '':'')" "\<not> is_ws (CHR '','')" "\<not> is_ws (CHR 0x22)" "\<not> is_ws (CHR ''['')" "\<not> is_ws (CHR '']'')"
  "\<not> is_ws (CHR ''{'')" "\<not> is_ws (CHR ''}'')" "\<not> is_ws (CHR ''n'')" "\<not> is_ws (CHR ''t'')" "\<not> is_ws (CHR ''f'')"
  "\<not> is_num_char (CHR '','')" "\<not> is_num_char (CHR '']'')" "\<not> is_num_char (CHR ''}'')"
  by (simp_all add: is_ws_def is_num_char_def is_digit_def)

lemma json_val_skip: "json_val d s j u \<Longrightarrow> skip_ws s' = skip_ws s \<Longrightarrow> json_val d s' j u"
  by (erule json_val.cases) (simp_all add: json_val_json_elems_json_members.intros)

text \<open>What may follow a value: nothing that would continue a number.\<close>

definition ends :: "string \<Rightarrow> bool" where
  "ends r \<longleftrightarrow> (case r of [] \<Rightarrow> True | c # _ \<Rightarrow> \<not> is_num_char c)"

lemma ends_simps [simp]: "ends []" "ends (c # r) \<longleftrightarrow> \<not> is_num_char c" "ends (newline k @ r)"
  by (simp_all add: ends_def newline_def is_num_char_def is_digit_def)

lemma json_elems_skip: "json_elems d s js u \<Longrightarrow> skip_ws s' = skip_ws s \<Longrightarrow> json_elems d s' js u"
  by (erule json_elems.cases) (auto intro: last_elem elem json_val_skip)

lemma json_members_skip: "json_members d s ms u \<Longrightarrow> skip_ws s' = skip_ws s \<Longrightarrow> json_members d s' ms u"
  by (erule json_members.cases) (auto intro: last_member member)

lemma Join_Cons: "xs \<noteq> [] \<Longrightarrow> Join (x # xs) sep = x @ sep @ Join xs sep"
  by (cases xs) auto

lemma written_elems:
  assumes "\<And>j r. j \<in> set js \<Longrightarrow> ends r \<Longrightarrow> json_val d (w j @ r) j r" and "js \<noteq> []"
  shows "json_elems d (Join (map w js) (CHR '','' # newline k) @ newline m @ CHR '']'' # r) js r"
  using assms
proof (induction js)
  case (Cons j js)
  show ?case
  proof (cases "js = []")
    case True
    with Cons.prems(1) [of j "newline m @ CHR '']'' # r"] show ?thesis by (auto elim!: last_elem)
  next
    case False
    let ?r = "Join (map w js) (CHR '','' # newline k) @ newline m @ CHR '']'' # r"
    have "json_elems d (newline k @ ?r) js r"
      by (rule json_elems_skip [OF Cons.IH]) (use False Cons.prems(1) in auto)
    moreover have "json_val d (w j @ CHR '','' # newline k @ ?r) j (CHR '','' # newline k @ ?r)"
      using Cons.prems(1) by (simp add: is_num_char_def is_digit_def)
    ultimately show ?thesis using False by (auto intro: elem simp: Join_Cons)
  qed
qed simp

lemma written_members:
  assumes "\<And>t j r. (t, j) \<in> set ms \<Longrightarrow> ends r \<Longrightarrow> literal t \<and> json_val d (w j @ r) j r" and "ms \<noteq> []"
  shows "json_members d (Join (map (\<lambda>(t, j). quoted t @ '': '' @ w j) ms) (CHR '','' # newline k) @ newline m @ CHR ''}'' # r) ms r"
  using assms
proof (induction ms)
  case (Cons m0 ms)
  obtain t j where m0: "m0 = (t, j)" by (cases m0)
  have read: "rd_str (t @ CHR 0x22 # x) = Some (t, x)" for x
    using Cons.prems(1) [of t j "[]"] m0 by (auto intro: rd_literal)
  have val: "ends x \<Longrightarrow> json_val d (CHR '' '' # w j @ x) j x" for x
    using Cons.prems(1) [of t j x] m0 by (auto intro: json_val_skip)
  show ?case
  proof (cases "ms = []")
    case True
    have "json_members d (CHR 0x22 # t @ CHR 0x22 # CHR '':'' # CHR '' '' # w j @ newline m @ CHR ''}'' # r) [(t, j)] r"
      by (rule last_member [OF _ read skip_ws_simps(2) val, where rest = "newline m @ CHR ''}'' # r"]) simp_all
    then show ?thesis by (simp add: m0 True quoted_def)
  next
    case False
    let ?r = "Join (map (\<lambda>(t, j). quoted t @ '': '' @ w j) ms) (CHR '','' # newline k) @ newline m @ CHR ''}'' # r"
    have rest: "json_members d (newline k @ ?r) ms r"
      by (rule json_members_skip [OF Cons.IH]) (use False Cons.prems(1) in auto)
    have "json_members d (CHR 0x22 # t @ CHR 0x22 # CHR '':'' # CHR '' '' # w j @ CHR '','' # newline k @ ?r) ((t, j) # ms) r"
      by (rule member [OF _ read skip_ws_simps(2) val _ rest, where rest = "CHR '','' # newline k @ ?r"]) simp_all
    then show ?thesis using False by (simp add: Join_Cons m0 quoted_def)
  qed
qed simp

lemma num_ends: "list_all is_num_char l \<Longrightarrow> ends r \<Longrightarrow> takeWhile is_num_char (l @ r) = l \<and> dropWhile is_num_char (l @ r) = r"
  by (cases r) (auto simp: ends_def takeWhile_append2 list_all_iff)

lemma marshal_indent_reads:
  "good_json d j \<Longrightarrow> ends r \<Longrightarrow> json_val d (marshal_indent k j @ r) j r"
proof (induction j arbitrary: d k r)
  case (JNum l)
  then obtain c t where l: "l = c # t" "is_digit c \<or> c = CHR ''-''" by (auto dest: json_num_head)
  then have "\<not> is_ws c" by (auto simp: is_ws_def is_digit_def)
  with l have "skip_ws (l @ r) = l @ r" by simp
  with JNum show ?case by (intro num) (simp_all add: num_ends)
next
  case (JStr t)
  then show ?case by (auto intro: str rd_literal simp: quoted_def)
next
  case (JArr js)
  show ?case
  proof (cases "js = []")
    case True
    with JArr show ?thesis by (auto intro!: arr_empty simp: bracket_def)
  next
    case False
    have "json_elems (Suc d) (Join (map (marshal_indent (Suc k)) js) (CHR '','' # newline (Suc k)) @ newline k @ CHR '']'' # r) js r"
      by (rule written_elems) (use JArr False in \<open>auto simp: list_all_iff\<close>)
    from json_elems_skip [OF this] show ?thesis
      using JArr.prems(1) False by (auto intro!: arr simp: bracket_def)
  qed
next
  case (JObj ms)
  show ?case
  proof (cases "ms = []")
    case True
    with JObj show ?thesis by (auto intro!: obj_empty simp: bracket_def)
  next
    case False
    have "json_members (Suc d) (Join (map (\<lambda>(t, j). quoted t @ '': '' @ marshal_indent (Suc k) j) ms)
        (CHR '','' # newline (Suc k)) @ newline k @ CHR ''}'' # r) ms r"
      by (rule written_members) (use JObj False in \<open>fastforce simp: list_all_iff\<close>)+
    from json_members_skip [OF this] show ?thesis
      using JObj.prems(1) False by (auto intro!: obj simp: bracket_def)
  qed
qed (auto intro: null true false)

lemma marshal_indent_round: "good_json 0 j \<Longrightarrow> json_read (marshal_indent 0 j @ [CHR 0x0A]) = Some j"
  using marshal_indent_reads [of 0 j "[CHR 0x0A]" 0]
  by (auto simp: json_read_iff is_num_char_def is_digit_def skip_ws_def is_ws_def)

section \<open>Escaping and unquoting\<close>

text \<open>What is left of a rune: itself, or the replacement character for an invalid byte.\<close>

definition valid_rune :: "string \<Rightarrow> string" where
  "valid_rune r = (if length r = 1 \<and> 128 \<le> byte (hd r) then replacement else r)"

definition to_valid :: "string \<Rightarrow> string" where
  "to_valid s = concat (map valid_rune (runes s))"

definition multi :: "string \<Rightarrow> bool" where
  "multi r \<longleftrightarrow> 1 < length r \<and> (\<forall>c \<in> set r. 128 \<le> byte c) \<and> (\<forall>u. rune_len (r @ u) = length r)"

lemma second_range_low: "128 \<le> fst (second_range b)"
  by (simp add: second_range_def)

lemma take_rune:
  assumes "s \<noteq> []"
  shows "length (take (rune_len s) s) = 1 \<or> multi (take (rune_len s) s)"
proof -
  obtain c0 s1 where s: "s = c0 # s1" using assms by (cases s) auto
  show ?thesis
  proof (cases "rune_len s = 1")
    case False
    then obtain c1 s2 where s1: "s1 = c1 # s2" by (cases s1) (auto simp: s rune_len_def)
    note low = second_range_low [of "byte c0"]
    show ?thesis
    proof (cases s2)
      case Nil
      with False low show ?thesis
        by (auto simp: s s1 rune_len_def is_cont_def multi_def Let_def split: if_splits)
    next
      case (Cons c2 s3)
      note s2 = this
      show ?thesis
      proof (cases s3)
        case Nil
        with False low show ?thesis
          by (auto simp: s s1 s2 rune_len_def is_cont_def multi_def Let_def split: if_splits)
      next
        case (Cons c3 s4)
        with False low show ?thesis
          by (auto simp: s s1 s2 rune_len_def is_cont_def multi_def Let_def split: if_splits)
      qed
    qed
  qed (simp add: s)
qed

lemma runes_cases: "r \<in> set (runes s) \<Longrightarrow> (\<exists>c. r = [c]) \<or> multi r"
proof (induction s rule: runes.induct)
  case (2 c cs)
  then show ?case
    using take_rune [of "c # cs"] length_Suc_conv [of "take (rune_len (c # cs)) (c # cs)" 0]
    by (auto simp del: take_Cons)
qed simp

lemma hex_digit_props:
  assumes "0 \<le> n" and "n < 16"
  shows "is_hex (hex_digit n)" and "hex_val (hex_digit n) = n"
proof -
  have "list_all (\<lambda>n. is_hex (hex_digit n) \<and> hex_val (hex_digit n) = n) [0..15]" by code_simp
  then have "is_hex (hex_digit n) \<and> hex_val (hex_digit n) = n" using assms by (simp add: list_all_iff)
  then show "is_hex (hex_digit n)" and "hex_val (hex_digit n) = n" by simp_all
qed

lemma is_hex_zero [simp]: "is_hex (CHR ''0'')" "hex_val (CHR ''0'') = 0"
  by code_simp+

lemma literal_multi: "\<forall>c \<in> set r. 128 \<le> byte c \<Longrightarrow> literal t \<Longrightarrow> literal (r @ t)"
  by (induction r) (auto intro!: literal.plain)

lemma byte_bounds: "0 \<le> byte c" "byte c < 256"
proof -
  have "byte c = int (of_char c)" by (simp only: of_nat_of_char)
  moreover have "of_char c < (256 :: nat)" by (rule nat_of_char_less_256)
  ultimately show "0 \<le> byte c" "byte c < 256" by linarith+
qed

lemma hex_parts:
  "is_hex (hex_digit (byte c div 16))" "is_hex (hex_digit (byte c mod 16))"
  "hex_val (hex_digit (byte c div 16)) = byte c div 16" "hex_val (hex_digit (byte c mod 16)) = byte c mod 16"
  using byte_bounds [of c] by (auto intro!: hex_digit_props)

lemma escape_byte_cases:
  obtains "escape_byte c = [c]" "c \<noteq> CHR 0x22" "c \<noteq> CHR 0x5C" "32 \<le> byte c" "byte c < 128"
  | e where "escape_byte c = [CHR 0x5C, e]" "is_escape e" "escape_val e = c" "byte c < 128"
  | "escape_byte c = CHR 0x5C # ''u00'' @ [hex_digit (byte c div 16), hex_digit (byte c mod 16)]" "byte c < 128"
  | "escape_byte c = CHR 0x5C # ''ufffd''" "128 \<le> byte c"
proof (cases "map_of short_escapes c")
  case (Some e)
  have "list_all (\<lambda>(c, e). is_escape e \<and> escape_val e = c \<and> byte c < 128) short_escapes" by code_simp
  with Some show ?thesis using that(2) by (auto simp: escape_byte_def list_all_iff dest!: map_of_SomeD)
next
  case None
  then have ne: "c \<noteq> CHR 0x22" "c \<noteq> CHR 0x5C" by (auto simp: short_escapes_def)
  have html: "c \<in> set ''<>&'' \<Longrightarrow> byte c < 128" by auto
  have e: "escape_byte c =
      (if byte c < 32 \<or> c \<in> set ''<>&'' then CHR 0x5C # ''u00'' @ [hex_digit (byte c div 16), hex_digit (byte c mod 16)]
       else if 128 \<le> byte c then CHR 0x5C # ''ufffd'' else [c])"
    unfolding escape_byte_def None by (rule option.case)
  show ?thesis
  proof (cases "byte c < 32 \<or> c \<in> set ''<>&''")
    case True
    with html have "byte c < 128" by linarith
    with True e that(3) show ?thesis by simp
  next
    case False
    then show ?thesis using e ne that(1,4) by (cases "128 \<le> byte c") simp_all
  qed
qed

lemma is_hex_consts [simp]: "is_hex (CHR ''2'')" "is_hex (CHR ''8'')" "is_hex (CHR ''9'')" "is_hex (CHR ''d'')" "is_hex (CHR ''f'')"
  by code_simp+

lemma literal_escape_rune:
  assumes "(\<exists>c. r = [c]) \<or> multi r" and t: "literal t"
  shows "literal (escape_rune r @ t)"
proof (cases "multi r")
  case True
  then show ?thesis
    using t by (auto simp: escape_rune_def multi_def intro: literal_multi intro!: literal.unicode)
next
  case False
  with assms(1) obtain c where r: "r = [c]" by blast
  show ?thesis
  proof (cases c rule: escape_byte_cases)
    case 1
    with t show ?thesis by (simp add: r escape_rune_def literal.plain)
  next
    case (2 e)
    with t show ?thesis by (simp add: r escape_rune_def literal.esc)
  next
    case 3
    with t show ?thesis by (simp add: r escape_rune_def literal.unicode hex_parts)
  next
    case 4
    with t show ?thesis by (simp add: r escape_rune_def literal.unicode)
  qed
qed

lemma literal_escape: "literal (escape s)"
proof -
  have "literal (concat (map escape_rune rs))" if "\<forall>r \<in> set rs. (\<exists>c. r = [c]) \<or> multi r" for rs
    using that by (induction rs) (auto intro: literal.nil literal_escape_rune)
  then show ?thesis using runes_cases by (simp add: escape_def)
qed

lemma unquote_app: "x \<noteq> [] \<Longrightarrow> unquote_step (x @ t) = (out, length x) \<Longrightarrow> unquote (x @ t) = out @ unquote t"
  by (cases x) simp_all

lemma get_u4_other: "c \<noteq> CHR 0x5C \<Longrightarrow> get_u4 (c # t) = None" "e \<noteq> CHR ''u'' \<Longrightarrow> get_u4 (c # e # t) = None"
  by (auto simp: get_u4_def split: list.split)

lemma get_u4_hex:
  "is_hex h1 \<Longrightarrow> is_hex h2 \<Longrightarrow> is_hex h3 \<Longrightarrow> is_hex h4 \<Longrightarrow>
     get_u4 (CHR 0x5C # CHR ''u'' # h1 # h2 # h3 # h4 # t) =
       Some (4096 * hex_val h1 + 256 * hex_val h2 + 16 * hex_val h3 + hex_val h4)"
  by (simp add: get_u4_def)

lemma hex_val_consts: "hex_val (CHR ''2'') = 2" "hex_val (CHR ''8'') = 8" "hex_val (CHR ''9'') = 9"
  "hex_val (CHR ''d'') = 13" "hex_val (CHR ''f'') = 15"
  by code_simp+

lemma utf8_consts:
  "utf8_enc 65533 = replacement" "utf8_enc 8232 = [CHR 0xE2, CHR 0x80, CHR 0xA8]"
  "utf8_enc 8233 = [CHR 0xE2, CHR 0x80, CHR 0xA9]"
  by code_simp+

lemma unquote_byte: "unquote (escape_byte c @ t) = valid_rune [c] @ unquote t"
proof (cases c rule: escape_byte_cases)
  case 1
  then have "unquote_step ([c] @ t) = ([c], length [c])" by (simp add: unquote_step_def get_u4_other)
  from unquote_app [OF _ this] 1 show ?thesis by (simp add: valid_rune_def)
next
  case (2 e)
  have "unquote_step ([CHR 0x5C, e] @ t) = ([escape_val e], length [CHR 0x5C, e])"
    using 2(2) by (auto simp: unquote_step_def get_u4_other is_escape_def)
  from unquote_app [OF _ this] 2 show ?thesis by (simp add: valid_rune_def)
next
  case 3
  have "get_u4 (escape_byte c @ t) = Some (byte c)" by (simp add: 3 get_u4_hex hex_parts)
  with 3(2) have "unquote_step (escape_byte c @ t) = ([c], length (escape_byte c))"
    by (simp add: unquote_step_def utf8_enc_def 3(1))
  from unquote_app [OF _ this] 3 show ?thesis by (simp add: valid_rune_def)
next
  case 4
  have "get_u4 (escape_byte c @ t) = Some 65533" by (simp add: 4 get_u4_hex hex_val_consts)
  then have "unquote_step (escape_byte c @ t) = (replacement, length (escape_byte c))"
    by (simp add: unquote_step_def utf8_consts 4(1))
  from unquote_app [OF _ this] 4 show ?thesis by (simp add: valid_rune_def)
qed

lemma unquote_multi:
  assumes "multi r"
  shows "unquote (escape_rune r @ t) = valid_rune r @ unquote t"
proof -
  have len: "length r \<noteq> 1" and ne: "r \<noteq> []" using assms by (auto simp: multi_def)
  consider (ls) "r = [CHR 0xE2, CHR 0x80, CHR 0xA8]" | (ps) "r = [CHR 0xE2, CHR 0x80, CHR 0xA9]"
    | (other) "escape_rune r = r"
    using len unfolding escape_rune_def by presburger
  then show ?thesis
  proof cases
    case ls
    have "unquote_step (escape_rune r @ t) = (r, length (escape_rune r))"
      by (simp add: ls escape_rune_def unquote_step_def get_u4_hex hex_val_consts utf8_consts)
    from unquote_app [OF _ this] ls show ?thesis by (simp add: valid_rune_def escape_rune_def)
  next
    case ps
    have "unquote_step (escape_rune r @ t) = (r, length (escape_rune r))"
      by (simp add: ps escape_rune_def unquote_step_def get_u4_hex hex_val_consts utf8_consts)
    from unquote_app [OF _ this] ps show ?thesis by (simp add: valid_rune_def escape_rune_def)
  next
    case other
    have hd: "hd (r @ t) = hd r" "128 \<le> byte (hd r)" and rl: "rune_len (r @ t) = length r"
      using assms ne by (auto simp: multi_def)
    then have "hd r \<noteq> CHR 0x5C" by auto
    with ne have "get_u4 (r @ t) = None" by (cases r) (simp_all add: get_u4_other)
    with hd rl len \<open>hd r \<noteq> CHR 0x5C\<close> have "unquote_step (r @ t) = (r, length r)" by (simp add: unquote_step_def)
    from unquote_app [OF ne this] len show ?thesis by (simp add: other valid_rune_def)
  qed
qed

text \<open>What is written as a literal is read as the same text, up to the replacement of invalid bytes.\<close>

lemma unquote_escape: "unquote (escape s) = to_valid s"
proof -
  have "unquote (concat (map escape_rune rs)) = concat (map valid_rune rs)"
    if "\<forall>r \<in> set rs. (\<exists>c. r = [c]) \<or> multi r" for rs
    using that by (induction rs) (auto simp: unquote_multi escape_rune_def [of "[c]" for c] unquote_byte)
  then show ?thesis using runes_cases by (simp add: escape_def to_valid_def)
qed

section \<open>Valid UTF-8\<close>

inductive utf8 :: "string \<Rightarrow> bool" where
  nil: "utf8 []"
| ascii: "byte c < 128 \<Longrightarrow> utf8 s \<Longrightarrow> utf8 (c # s)"
| multi: "multi r \<Longrightarrow> utf8 s \<Longrightarrow> utf8 (r @ s)"

lemma utf8_append: "utf8 s \<Longrightarrow> utf8 t \<Longrightarrow> utf8 (s @ t)"
  by (induction rule: utf8.induct) (auto intro: utf8.intros)

lemma utf8_one: "multi r \<Longrightarrow> utf8 r"
  using utf8.multi [OF _ utf8.nil] by simp

lemma runes_multi:
  assumes "multi r"
  shows "runes (r @ s) = r # runes s"
proof -
  obtain a l where r: "r = a # l" using assms by (cases r) (auto simp: multi_def)
  then have "rune_len (a # l @ s) = length r" using assms by (simp add: multi_def)
  then show ?thesis by (simp add: r)
qed

lemma runes_ascii: "byte c < 128 \<Longrightarrow> runes (c # s) = [c] # runes s"
proof -
  assume "byte c < 128"
  then have "rune_len (c # s) = 1" by (auto simp: rune_len_def Let_def split: list.split)
  then show ?thesis by simp
qed

lemma to_valid_utf8: "utf8 s \<Longrightarrow> to_valid s = s"
  by (induction rule: utf8.induct)
    (simp_all add: to_valid_def runes_ascii runes_multi valid_rune_def multi_def del: runes.simps(2))

lemma byte_char_of: "0 \<le> n \<Longrightarrow> n < 256 \<Longrightarrow> byte (char_of n) = n"
  by (simp add: take_bit_int_eq_self)

lemma multi2: "194 \<le> a \<Longrightarrow> a \<le> 223 \<Longrightarrow> 128 \<le> b \<Longrightarrow> b \<le> 191 \<Longrightarrow> multi [char_of a, char_of b]"
  for a b c :: int
  by (simp add: multi_def byte_char_of rune_len_def Let_def is_cont_def second_range_def)

lemma multi3:
  "224 \<le> a \<Longrightarrow> a \<le> 239 \<Longrightarrow> 128 \<le> b \<Longrightarrow> b \<le> 191 \<Longrightarrow> (a = 224 \<Longrightarrow> 160 \<le> b) \<Longrightarrow> (a = 237 \<Longrightarrow> b \<le> 159) \<Longrightarrow>
     128 \<le> c \<Longrightarrow> c \<le> 191 \<Longrightarrow> multi [char_of a, char_of b, char_of c]"
  for a b c :: int
  by (simp add: multi_def byte_char_of rune_len_def Let_def is_cont_def second_range_def)

lemma multi4:
  "240 \<le> a \<Longrightarrow> a \<le> 244 \<Longrightarrow> 128 \<le> b \<Longrightarrow> b \<le> 191 \<Longrightarrow> (a = 240 \<Longrightarrow> 144 \<le> b) \<Longrightarrow> (a = 244 \<Longrightarrow> b \<le> 143) \<Longrightarrow>
     128 \<le> c \<Longrightarrow> c \<le> 191 \<Longrightarrow> 128 \<le> e \<Longrightarrow> e \<le> 191 \<Longrightarrow> multi [char_of a, char_of b, char_of c, char_of e]"
  for a b c e :: int
  by (simp add: multi_def byte_char_of rune_len_def Let_def is_cont_def second_range_def)

lemma low6: "128 \<le> 128 + r mod 64" "128 + r mod 64 \<le> 191" for r :: int
  using pos_mod_bound [of 64 r] by simp_all

lemma mod_parts: "r mod 64 = r - 64 * (r div 64)" for r :: int
  by (simp add: minus_mult_div_eq_mod)

lemma utf8_enc_branch:
  "r < 128 \<Longrightarrow> utf8_enc r = [char_of r]"
  "\<not> r < 128 \<Longrightarrow> r < 2048 \<Longrightarrow> utf8_enc r = [char_of (192 + r div 64), char_of (128 + r mod 64)]"
  "\<not> r < 128 \<Longrightarrow> \<not> r < 2048 \<Longrightarrow> r < 65536 \<Longrightarrow> utf8_enc r =
     [char_of (224 + r div 4096), char_of (128 + r div 64 mod 64), char_of (128 + r mod 64)]"
  "\<not> r < 128 \<Longrightarrow> \<not> r < 2048 \<Longrightarrow> \<not> r < 65536 \<Longrightarrow> utf8_enc r =
     [char_of (240 + r div 262144), char_of (128 + r div 4096 mod 64),
      char_of (128 + r div 64 mod 64), char_of (128 + r mod 64)]"
  by (simp_all only: utf8_enc_def if_True if_False)

lemma utf8_enc_valid:
  assumes "0 \<le> r" and "r < 1114112" and "\<not> (55296 \<le> r \<and> r < 57344)"
  shows "utf8 (utf8_enc r)"
proof -
  consider "r < 128" | "\<not> r < 128" "r < 2048" | "\<not> r < 128" "\<not> r < 2048" "r < 65536"
    | "\<not> r < 128" "\<not> r < 2048" "\<not> r < 65536" by linarith
  then show ?thesis
  proof cases
    case 1
    with assms(1) have "utf8 [char_of r]" by (intro utf8.intros) (simp add: byte_char_of)
    then show ?thesis using 1 by (simp only: utf8_enc_branch)
  next
    case 2
    then have "multi [char_of (192 + r div 64), char_of (128 + r mod 64)]" by (intro multi2 low6) auto
    from utf8_one [OF this] show ?thesis unfolding utf8_enc_branch(2) [OF 2] .
  next
    case 3
    have "multi [char_of (224 + r div 4096), char_of (128 + r div 64 mod 64), char_of (128 + r mod 64)]"
    proof (rule multi3)
      have q: "r div 4096 = r div 64 div 64" by (simp add: zdiv_zmult2_eq [symmetric])
      have "32 \<le> r div 64" using 3(2) by simp
      then show "224 + r div 4096 = 224 \<Longrightarrow> 160 \<le> 128 + r div 64 mod 64"
        using mod_parts [of "r div 64"] unfolding q by linarith
      assume "224 + r div 4096 = 237"
      then have d: "r div 64 div 64 = 13" by (simp only: q)
      then have "r < 57344" by auto
      with assms(3) have "r div 64 < 864" by auto
      with d mod_parts [of "r div 64"] show "128 + r div 64 mod 64 \<le> 159" by linarith
    next
      show "224 \<le> 224 + r div 4096" "224 + r div 4096 \<le> 239" using 3 by auto
    qed (rule low6)+
    from utf8_one [OF this] show ?thesis unfolding utf8_enc_branch(3) [OF 3] .
  next
    case 4
    have "multi [char_of (240 + r div 262144), char_of (128 + r div 4096 mod 64),
        char_of (128 + r div 64 mod 64), char_of (128 + r mod 64)]"
    proof (rule multi4)
      have q: "r div 262144 = r div 4096 div 64" by (simp add: zdiv_zmult2_eq [symmetric])
      have "16 \<le> r div 4096" using 4(3) by simp
      then show "240 + r div 262144 = 240 \<Longrightarrow> 144 \<le> 128 + r div 4096 mod 64"
        using mod_parts [of "r div 4096"] unfolding q by linarith
      have "r div 4096 < 272" using assms(2) by auto
      then show "240 + r div 262144 = 244 \<Longrightarrow> 128 + r div 4096 mod 64 \<le> 143"
        using mod_parts [of "r div 4096"] unfolding q by linarith
    next
      show "240 \<le> 240 + r div 262144" "240 + r div 262144 \<le> 244" using 4 assms(2) by auto
    qed (rule low6)+
    from utf8_one [OF this] show ?thesis unfolding utf8_enc_branch(4) [OF 4] .
  qed
qed

lemma hex_val_bounds: "is_hex h \<Longrightarrow> 0 \<le> hex_val h \<and> hex_val h < 16"
  by (auto simp: is_hex_def hex_val_def is_hex_letter_def lower_bit_def is_digit_def digit_val_def split: if_splits)

lemma get_u4_bounds: "get_u4 s = Some r \<Longrightarrow> 0 \<le> r \<and> r < 65536"
proof -
  assume "get_u4 s = Some r"
  then obtain h1 h2 h3 h4 where "is_hex h1" "is_hex h2" "is_hex h3" "is_hex h4"
    and r: "r = 4096 * hex_val h1 + 256 * hex_val h2 + 16 * hex_val h3 + hex_val h4"
    by (auto simp: get_u4_def split: list.splits if_splits)
  note b = this(1-4) [THEN hex_val_bounds]
  show ?thesis using b unfolding r by linarith
qed

lemma utf8_replacement: "utf8 replacement"
  using utf8_enc_valid [of 65533] by (simp add: utf8_consts)

text \<open>Unquoting a literal yields valid UTF-8, whatever bytes it holds.\<close>

lemma rune_len_le: "s \<noteq> [] \<Longrightarrow> rune_len s \<le> length s"
  by (auto simp: rune_len_def Let_def split: list.split)

lemma literal_high: "\<forall>c \<in> set r. 128 \<le> byte c \<Longrightarrow> literal (r @ t) \<Longrightarrow> literal t"
proof (induction r)
  case (Cons c r)
  from Cons.prems(2) have "literal (r @ t)" using Cons.prems(1) by cases auto
  with Cons show ?case by simp
qed simp

lemma literal_get_u4:
  assumes "literal t" and "get_u4 t = Some r"
  shows "literal (drop 6 t)"
  using assms(1)
proof cases
  case (plain c t')
  with assms(2) show ?thesis by (simp add: get_u4_other)
next
  case (esc e t')
  then have "e \<noteq> CHR ''u''" by (auto simp: is_escape_def)
  with esc assms(2) show ?thesis by (simp add: get_u4_other)
next
  case (unicode h1 h2 h3 h4 t')
  then show ?thesis by (simp add: numeral_eq_Suc)
qed (use assms(1) in simp)

lemma literal_parts:
  assumes "literal t" and "t \<noteq> []"
  shows "utf8 (fst (unquote_step t)) \<and> literal (drop (snd (unquote_step t)) t)"
proof (cases "get_u4 t")
  case (Some r)
  note r = get_u4_bounds [OF Some] and l6 = literal_get_u4 [OF assms(1) Some]
  show ?thesis
  proof (cases "55296 \<le> r \<and> r < 57344")
    case False
    with Some r l6 show ?thesis by (auto simp: unquote_step_def intro!: utf8_enc_valid)
  next
    case surrogate: True
    show ?thesis
    proof (cases "get_u4 (drop 6 t)")
      case None
      with Some surrogate l6 show ?thesis by (simp add: unquote_step_def utf8_replacement)
    next
      case (Some r1)
      have "literal (drop 12 t)" using literal_get_u4 [OF l6 Some] by simp
      moreover have "utf8 (utf8_enc ((r - 55296) * 1024 + (r1 - 56320) + 65536))"
        if "r < 56320" "56320 \<le> r1" "r1 < 57344"
        using that surrogate by (intro utf8_enc_valid) auto
      ultimately show ?thesis
        using Some \<open>get_u4 t = Some r\<close> surrogate l6 by (auto simp: unquote_step_def utf8_replacement)
    qed
  qed
next
  case None
  from assms(1) show ?thesis
  proof cases
    case (plain c t')
    show ?thesis
    proof (cases "128 \<le> byte c \<and> rune_len t \<noteq> 1")
      case False
      with plain None show ?thesis
        by (auto simp: unquote_step_def utf8_replacement intro: utf8.intros)
    next
      case True
      let ?n = "rune_len t"
      have step: "unquote_step t = (take ?n t, ?n)" using True plain None by (simp add: unquote_step_def)
      have "length (take ?n t) \<noteq> 1" using True rune_len_le [OF assms(2)] by simp
      then have m: "multi (take ?n t)" using take_rune [OF assms(2)] by blast
      then have "literal (drop ?n t)" using literal_high [of "take ?n t" "drop ?n t"] assms(1) by (simp add: multi_def)
      with m step show ?thesis by (simp add: utf8_one)
    qed
  next
    case (esc e t')
    have "list_all (\<lambda>e. byte (escape_val e) < 128)
        [CHR 0x22, CHR 0x5C, CHR ''/'', CHR ''b'', CHR ''f'', CHR ''n'', CHR ''r'', CHR ''t'']" by code_simp
    then have "byte (escape_val e) < 128" using esc(2) unfolding is_escape_def list_all_iff list.set by (rule bspec)
    with esc None show ?thesis by (auto simp: unquote_step_def intro: utf8.intros)
  next
    case (unicode h1 h2 h3 h4 t')
    with None show ?thesis by (simp add: get_u4_hex)
  qed (use assms(2) in simp)
qed

lemma utf8_unquote: "literal t \<Longrightarrow> utf8 (unquote t)"
proof (induction t rule: unquote.induct)
  case (2 c cs)
  obtain out n where s: "unquote_step (c # cs) = (out, n)" by fastforce
  from literal_parts [OF "2.prems"] s have "utf8 out" "literal (drop n (c # cs))" by simp_all
  with "2.IH" [OF s [symmetric] refl] s show ?case by (simp add: utf8_append)
qed (simp add: utf8.nil)

lemma rd_str_cases:
  assumes "rd_str s = Some (t, u)"
  obtains "s = CHR 0x22 # u" "t = []"
  | c cs t' where "s = c # cs" "c \<noteq> CHR 0x22" "c \<noteq> CHR 0x5C" "32 \<le> byte c" "rd_str cs = Some (t', u)" "t = c # t'"
  | e r t' where "s = CHR 0x5C # e # r" "is_escape e" "rd_str r = Some (t', u)" "t = CHR 0x5C # e # t'"
  | h1 h2 h3 h4 q t' where "s = CHR 0x5C # CHR ''u'' # h1 # h2 # h3 # h4 # q" "list_all is_hex [h1, h2, h3, h4]"
      "rd_str q = Some (t', u)" "t = CHR 0x5C # CHR ''u'' # h1 # h2 # h3 # h4 # t'"
proof -
  obtain c cs where s: "s = c # cs" using assms by (cases s) auto
  show thesis
  proof (cases "c = CHR 0x5C")
    case False
    with assms s that(1,2) show ?thesis by (auto split: if_splits)
  next
    case True
    with assms s obtain e r where cs: "cs = e # r" by (cases cs) auto
    show ?thesis
    proof (cases "is_escape e")
      case esc: True
      with True assms s cs that(3) show ?thesis by auto
    next
      case False
      with True assms s cs show ?thesis using that(4) by (auto split: if_splits list.splits)
    qed
  qed
qed

lemma rd_str_literal: "rd_str s = Some (t, u) \<Longrightarrow> literal t"
proof (induction "length s" arbitrary: s t rule: less_induct)
  case less
  from less.prems show ?case
  proof (cases rule: rd_str_cases)
    case 1
    then show ?thesis by (simp add: literal.nil)
  next
    case (2 c cs t')
    with less.hyps [of cs t'] show ?thesis by (simp add: literal.plain)
  next
    case (3 e r t')
    with less.hyps [of r t'] show ?thesis by (simp add: literal.esc)
  next
    case (4 h1 h2 h3 h4 q t')
    with less.hyps [of q t'] show ?thesis by (simp add: literal.unicode)
  qed
qed

fun literals :: "json \<Rightarrow> bool" where
  "literals (JStr t) = literal t"
| "literals (JArr js) = list_all literals js"
| "literals (JObj ms) = list_all (\<lambda>(t, j). literal t \<and> literals j) ms"
| "literals _ = True"

lemma json_val_literals:
  "json_val d s j u \<Longrightarrow> literals j"
  "json_elems d s js u \<Longrightarrow> list_all literals js"
  "json_members d s ms u \<Longrightarrow> list_all (\<lambda>(t, j). literal t \<and> literals j) ms"
  by (induction rule: json_val_json_elems_json_members.inducts) (auto dest: rd_str_literal)

end
