(* ===== verification/GoQuote.thy ===== *)
theory GoQuote
  imports GoJsonText
begin

text \<open>
  \<open>strconv.Quote\<close>, which \<open>%q\<close> prints a string with. Which runes beyond ASCII are printable is a table
  of the library and an argument here (\<open>pr\<close>). A quoted string is read back whatever that table says, and
  its end is where its closing quote is.
\<close>

section \<open>Decoding a rune\<close>

fun rune_value :: "string \<Rightarrow> int" where
  "rune_value [a, b] = (byte a - 192) * 64 + (byte b - 128)"
| "rune_value [a, b, c] = (byte a - 224) * 4096 + (byte b - 128) * 64 + (byte c - 128)"
| "rune_value [a, b, c, d] =
     (byte a - 240) * 262144 + (byte b - 128) * 4096 + (byte c - 128) * 64 + (byte d - 128)"
| "rune_value r = byte (hd r)"

lemma divmod_parts: "0 \<le> b \<Longrightarrow> b < n \<Longrightarrow> (a * n + b) div n = a \<and> (a * n + b) mod n = b" for a b n :: int
  by simp

lemma multi_value:
  assumes "multi r"
  shows "utf8_enc (rune_value r) = r" and "0 \<le> rune_value r" and "rune_value r < 16 ^ 8"
proof -
  have len: "rune_len r = length r" "1 < length r" using assms [unfolded multi_def] append_Nil2 by metis+
  have "rune_len r \<le> 4" by (auto simp: rune_len_def Let_def split: list.split)
  then consider (two) a b where "r = [a, b]" | (three) a b c where "r = [a, b, c]" | (four) a b c d where "r = [a, b, c, d]"
    using len by (cases r rule: rune_value.cases) auto
  then have "utf8_enc (rune_value r) = r \<and> 0 \<le> rune_value r \<and> rune_value r < 16 ^ 8"
  proof cases
    case two
    then have v: "194 \<le> byte a" "byte a \<le> 223" "128 \<le> byte b" "byte b \<le> 191"
      using len by (auto simp: rune_len_def is_cont_def second_range_def Let_def split: if_splits)
    let ?v = "(byte a - 192) * 64 + (byte b - 128)"
    have "?v div 64 = byte a - 192 \<and> ?v mod 64 = byte b - 128" using v by (intro divmod_parts) simp_all
    then have "utf8_enc ?v = [char_of (byte a), char_of (byte b)]"
      using v utf8_enc_branch(2) [of ?v] by simp
    with two v show ?thesis by simp
  next
    case three
    then have v: "224 \<le> byte a" "byte a \<le> 239" "128 \<le> byte b" "byte b \<le> 191" "128 \<le> byte c" "byte c \<le> 191"
      "byte a = 224 \<longrightarrow> 160 \<le> byte b"
      using len by (auto simp: rune_len_def is_cont_def second_range_def Let_def split: if_splits)
    let ?h = "(byte a - 224) * 64 + (byte b - 128)"
    let ?v = "?h * 64 + (byte c - 128)"
    have l: "?v div 64 = ?h \<and> ?v mod 64 = byte c - 128" using v by (intro divmod_parts) simp_all
    have h: "?h div 64 = byte a - 224 \<and> ?h mod 64 = byte b - 128" using v by (intro divmod_parts) simp_all
    have "?v div 4096 = ?v div 64 div 64" by (simp add: zdiv_zmult2_eq [symmetric])
    then have q: "?v div 4096 = byte a - 224" using l h by simp
    have "160 \<le> byte b \<or> 225 \<le> byte a" using v by (cases "byte a = 224") simp_all
    then have "2048 \<le> ?v" using v(1-6) by auto
    moreover have "?v < 65536" using v(1-6) by auto
    ultimately have big: "\<not> ?v < 128" "\<not> ?v < 2048" "?v < 65536" by simp_all
    have "utf8_enc ?v = [char_of (byte a), char_of (byte b), char_of (byte c)]"
      using utf8_enc_branch(3) [OF big] l h q by simp
    moreover have val: "rune_value r = ?v" by (simp add: three)
    ultimately show ?thesis unfolding val unfolding three using big by (simp only:) simp
  next
    case four
    then have v: "240 \<le> byte a" "byte a \<le> 244" "128 \<le> byte b" "byte b \<le> 191" "128 \<le> byte c" "byte c \<le> 191"
      "128 \<le> byte d" "byte d \<le> 191" "byte a = 240 \<longrightarrow> 144 \<le> byte b"
      using len by (auto simp: rune_len_def is_cont_def second_range_def Let_def split: if_splits)
    let ?g = "(byte a - 240) * 64 + (byte b - 128)"
    let ?h = "?g * 64 + (byte c - 128)"
    let ?v = "?h * 64 + (byte d - 128)"
    have l: "?v div 64 = ?h \<and> ?v mod 64 = byte d - 128" using v by (intro divmod_parts) simp_all
    have h: "?h div 64 = ?g \<and> ?h mod 64 = byte c - 128" using v by (intro divmod_parts) simp_all
    have g: "?g div 64 = byte a - 240 \<and> ?g mod 64 = byte b - 128" using v by (intro divmod_parts) simp_all
    have q: "?v div 4096 = ?v div 64 div 64" "?v div 262144 = ?v div 64 div 64 div 64" by (simp_all add: zdiv_zmult2_eq [symmetric])
    have "144 \<le> byte b \<or> 241 \<le> byte a" using v by (cases "byte a = 240") simp_all
    then have "65536 \<le> ?v" using v(1-8) by auto
    moreover have "?v < 4294967296" using v(1-8) by auto
    ultimately have big: "\<not> ?v < 128" "\<not> ?v < 2048" "\<not> ?v < 65536" "?v < 16 ^ 8" by simp_all
    have "utf8_enc ?v = [char_of (byte a), char_of (byte b), char_of (byte c), char_of (byte d)]"
      using utf8_enc_branch(4) [OF big(1-3)] l h g q by simp
    moreover have val: "rune_value r = ?v" by (simp add: four)
    ultimately show ?thesis unfolding val unfolding four using big by (simp only:) simp
  qed
  then show "utf8_enc (rune_value r) = r" and "0 \<le> rune_value r" and "rune_value r < 16 ^ 8" by simp_all
qed

section \<open>strconv.Quote\<close>

fun hex_text :: "nat \<Rightarrow> int \<Rightarrow> string" where
  "hex_text 0 v = []"
| "hex_text (Suc n) v = hex_text n (v div 16) @ [hex_digit (v mod 16)]"

definition hex_read :: "string \<Rightarrow> int" where
  "hex_read = foldl (\<lambda>a c. 16 * a + hex_val c) 0"

lemma length_hex_text [simp]: "length (hex_text n v) = n"
  by (induction n arbitrary: v) simp_all

lemma hex_read_text: "0 \<le> v \<Longrightarrow> v < 16 ^ n \<Longrightarrow> hex_read (hex_text n v) = v"
proof (induction n arbitrary: v)
  case (Suc n)
  have "v div 16 < 16 ^ n" using Suc.prems by simp
  with Suc have "hex_read (hex_text n (v div 16)) = v div 16" by simp
  then show ?case by (simp add: hex_read_def hex_digit_props)
qed (simp add: hex_read_def)

definition quote_escapes :: "(char \<times> char) list" where
  "quote_escapes =
     [(CHR 0x22, CHR 0x22), (CHR 0x5C, CHR 0x5C), (CHR 0x07, CHR ''a''), (CHR 0x08, CHR ''b''), (CHR 0x0C, CHR ''f''),
      (CHR 0x0A, CHR ''n''), (CHR 0x0D, CHR ''r''), (CHR 0x09, CHR ''t''), (CHR 0x0B, CHR ''v'')]"

definition quote_rune :: "(int \<Rightarrow> bool) \<Rightarrow> string \<Rightarrow> string" where
  "quote_rune pr r =
     (case r of
        [c] \<Rightarrow>
          (case map_of quote_escapes c of
             Some e \<Rightarrow> [CHR 0x5C, e]
           | None \<Rightarrow> if 32 \<le> byte c \<and> byte c < 127 then [c] else CHR 0x5C # CHR ''x'' # hex_text 2 (byte c))
      | _ \<Rightarrow>
          (if pr (rune_value r) then r
           else if rune_value r < 65536 then CHR 0x5C # CHR ''u'' # hex_text 4 (rune_value r)
           else CHR 0x5C # CHR ''U'' # hex_text 8 (rune_value r)))"

definition Quote :: "(int \<Rightarrow> bool) \<Rightarrow> string \<Rightarrow> string" where
  "Quote pr s = CHR 0x22 # concat (map (quote_rune pr) (runes s)) @ [CHR 0x22]"

section \<open>Reading a quoted string\<close>

definition unquote_rune :: "string \<Rightarrow> string \<times> string" where
  "unquote_rune s =
     (case s of
        b # e # u \<Rightarrow>
          (if b = CHR 0x5C then
             (if e = CHR ''x'' then ([char_of (hex_read (take 2 u))], drop 2 u)
              else if e = CHR ''u'' then (utf8_enc (hex_read (take 4 u)), drop 4 u)
              else if e = CHR ''U'' then (utf8_enc (hex_read (take 8 u)), drop 8 u)
              else ([the (map_of (map prod.swap quote_escapes) e)], u))
           else (take (rune_len s) s, drop (rune_len s) s))
      | _ \<Rightarrow> (s, []))"

lemma escapes_back:
  assumes "map_of quote_escapes c = Some e"
  shows "map_of (map prod.swap quote_escapes) e = Some c" and "e \<notin> {CHR ''x'', CHR ''u'', CHR ''U''}"
proof -
  have "list_all (\<lambda>(c, e). map_of (map prod.swap quote_escapes) e = Some c \<and> e \<notin> {CHR ''x'', CHR ''u'', CHR ''U''}) quote_escapes"
    by code_simp
  then show "map_of (map prod.swap quote_escapes) e = Some c" and "e \<notin> {CHR ''x'', CHR ''u'', CHR ''U''}"
    using assms by (auto simp: list_all_iff dest!: map_of_SomeD)
qed

lemma multi_shape: "multi r \<Longrightarrow> \<exists>a b l. r = a # b # l \<and> 128 \<le> byte a"
  by (cases r; cases "tl r") (auto simp: multi_def)

lemma unquote_quote_rune:
  assumes "(\<exists>c. r = [c]) \<or> multi r" and "t \<noteq> []"
  shows "unquote_rune (quote_rune pr r @ t) = (r, t)"
  using assms(1)
proof
  assume "\<exists>c. r = [c]"
  then obtain c where r: "r = [c]" by blast
  obtain t1 t2 where t: "t = t1 # t2" using assms(2) by (cases t) auto
  show ?thesis
  proof (cases "map_of quote_escapes c")
    case (Some e)
    with escapes_back [OF this] show ?thesis by (simp add: r quote_rune_def unquote_rune_def)
  next
    case None
    show ?thesis
    proof (cases "32 \<le> byte c \<and> byte c < 127")
      case True
      then have "runes (c # t) = [c] # runes t" by (intro runes_ascii) simp
      then have "rune_len (c # t) = 1" using rune_len_pos [of "c # t"] by (simp add: take_Cons' t split: if_splits)
      moreover have "c \<noteq> CHR 0x5C" using None by (auto simp: quote_escapes_def)
      ultimately show ?thesis using True None by (simp add: r t quote_rune_def unquote_rune_def)
    next
      case False
      have "hex_read (hex_text 2 (byte c)) = byte c" using byte_bounds [of c] by (intro hex_read_text) simp_all
      moreover have "quote_rune pr r = CHR 0x5C # CHR ''x'' # hex_text 2 (byte c)"
        using False None by (auto simp: r quote_rune_def)
      ultimately show ?thesis by (simp add: r unquote_rune_def)
    qed
  qed
next
  assume m: "multi r"
  note v = multi_value [OF m]
  obtain a b l where r: "r = a # b # l" "128 \<le> byte a" using multi_shape [OF m] by blast
  then have q: "quote_rune pr r = (if pr (rune_value r) then r
           else if rune_value r < 65536 then CHR 0x5C # CHR ''u'' # hex_text 4 (rune_value r)
           else CHR 0x5C # CHR ''U'' # hex_text 8 (rune_value r))"
    unfolding quote_rune_def by simp
  have "rune_len (r @ t) = length r" using m by (simp add: multi_def)
  moreover have "a \<noteq> CHR 0x5C" using r(2) by auto
  ultimately have plain: "unquote_rune (r @ t) = (r, t)" by (simp add: r(1) unquote_rune_def)
  have "hex_read (hex_text 8 (rune_value r)) = rune_value r" using v by (intro hex_read_text) simp_all
  moreover have "hex_read (hex_text 4 (rune_value r)) = rune_value r" if "rune_value r < 65536"
    using v that by (intro hex_read_text) simp_all
  ultimately show ?thesis unfolding q using plain v(1) by (auto simp: unquote_rune_def)
qed

lemma quote_rune_head:
  assumes "(\<exists>c. r = [c]) \<or> multi r"
  shows "\<exists>c l. quote_rune pr r = c # l \<and> c \<noteq> CHR 0x22"
  using assms
proof
  assume "\<exists>c. r = [c]"
  then show ?thesis by (auto simp: quote_rune_def split: option.split) (auto simp: quote_escapes_def)
next
  assume "multi r"
  from multi_shape [OF this] show ?thesis by (auto simp: quote_rune_def)
qed

lemma quoted_runes_cancel:
  assumes "\<forall>r \<in> set rs. (\<exists>c. r = [c]) \<or> multi r" and "\<forall>r \<in> set rs'. (\<exists>c. r = [c]) \<or> multi r"
    and "concat (map (quote_rune pr) rs) @ CHR 0x22 # u = concat (map (quote_rune pr) rs') @ CHR 0x22 # w"
  shows "rs = rs' \<and> u = w"
  using assms
proof (induction rs arbitrary: rs')
  case Nil
  then show ?case using quote_rune_head [of "hd rs'" pr] by (cases rs') auto
next
  case (Cons r rs)
  show ?case
  proof (cases rs')
    case Nil
    with Cons.prems show ?thesis using quote_rune_head [of r pr] by auto
  next
    case (Cons r' rest)
    let ?t = "concat (map (quote_rune pr) rs) @ CHR 0x22 # u" and ?t' = "concat (map (quote_rune pr) rest) @ CHR 0x22 # w"
    have "quote_rune pr r @ ?t = quote_rune pr r' @ ?t'" using Cons.prems(3) Cons by simp
    moreover have "unquote_rune (quote_rune pr r @ ?t) = (r, ?t)" "unquote_rune (quote_rune pr r' @ ?t') = (r', ?t')"
      using Cons.prems(1,2) Cons by (intro unquote_quote_rune; simp)+
    ultimately have "(r, ?t) = (r', ?t')" by (simp only:)
    then have "r = r'" and t: "?t = ?t'" by (simp_all only: prod.inject)
    moreover have "rs = rest \<and> u = w" by (rule Cons.IH [OF _ _ t]) (use Cons.prems(1,2) Cons in simp_all)
    ultimately show ?thesis using Cons by blast
  qed
qed

lemma Quote_cancel: "Quote pr s @ u = Quote pr t @ w \<longleftrightarrow> s = t \<and> u = w"
proof
  assume "Quote pr s @ u = Quote pr t @ w"
  then have "runes s = runes t \<and> u = w"
    using quoted_runes_cancel [of "runes s" "runes t" pr u w] runes_cases by (simp add: Quote_def)
  then show "s = t \<and> u = w" by (metis concat_runes)
qed simp

text \<open>A quoted string stays on one line.\<close>

lemma hex_text_one_line: "0 \<le> v \<Longrightarrow> CHR 0x0A \<notin> set (hex_text n v)"
proof (induction n arbitrary: v)
  case (Suc n)
  have "list_all (\<lambda>d. hex_digit d \<noteq> CHR 0x0A) [0..15]" by code_simp
  then have "hex_digit (v mod 16) \<noteq> CHR 0x0A" by (simp add: list_all_iff)
  with Suc show ?case by auto
qed simp

lemma quote_rune_one_line: "(\<exists>c. r = [c]) \<or> multi r \<Longrightarrow> CHR 0x0A \<notin> set (quote_rune pr r)"
proof (elim disjE exE)
  fix c assume r: "r = [c]"
  have "list_all (\<lambda>(c, e). e \<noteq> CHR 0x0A) quote_escapes" by code_simp
  then have "map_of quote_escapes c \<noteq> Some (CHR 0x0A)" by (auto simp: list_all_iff dest!: map_of_SomeD)
  with hex_text_one_line [of "byte c" 2] byte_bounds [of c] show ?thesis
    by (auto simp: r quote_rune_def split: option.split)
next
  assume m: "multi r"
  then have "CHR 0x0A \<notin> set r" by (auto simp: multi_def)
  with hex_text_one_line [OF multi_value(2) [OF m]] multi_shape [OF m] show ?thesis
    by (auto simp: quote_rune_def)
qed

lemma Quote_one_line: "CHR 0x0A \<notin> set (Quote pr s)"
  using quote_rune_one_line runes_cases by (auto simp: Quote_def)

lemma Quote_examples:
  "Quote pr ''c1'' = CHR 0x22 # ''c1'' @ [CHR 0x22]"
  "Quote (\<lambda>v. False) [CHR 0xC3, CHR 0xA9, CHR 0xFF, CHR 0x0A] = CHR 0x22 # CHR 0x5C # ''u00e9'' @ CHR 0x5C # ''xff'' @ CHR 0x5C # ''n'' @ [CHR 0x22]"
  by code_simp+

end
