(* ===== verification/Support.thy ===== *)
theory Support
  imports GoPath GoQuote Env
begin

text \<open>
  The small packages around the core: \<open>internal/utils/dotenv.go\<close>, \<open>internal/logging/logging.go\<close>,
  \<open>internal/config/watcher.go\<close>, \<open>internal/telemetry/manager.go\<close> and \<open>internal/powerscale/tracing.go\<close>.

  Parameters: godotenv's \<open>Load\<close> (\<open>dotenv\<close>), whether directories and files
  can be made (\<open>mkdir_ok\<close>, \<open>open_ok\<close>), the text of the operating system's error, the events fsnotify and the operating system deliver, and the
  OpenTelemetry SDK (whether an exporter and a resource can be made, and what a shutdown returns).
\<close>

section \<open>Dot-env files\<close>

text \<open>\<open>dotenv\<close> is \<open>godotenv.Load\<close>: the environment after it, and whether it succeeded.\<close>

fun load_first :: "(env \<Rightarrow> file_entry \<Rightarrow> env \<times> bool) \<Rightarrow> env \<Rightarrow> fs \<Rightarrow> string list \<Rightarrow> env" where
  "load_first dotenv env fs [] = env"
| "load_first dotenv env fs (p # ps) =
     (if fs p = Missing then load_first dotenv env fs ps
      else case dotenv env (fs p) of (env', ok) \<Rightarrow> if ok then env' else load_first dotenv env' fs ps)"

definition dotenv_paths :: "string \<Rightarrow> string list" where
  "dotenv_paths cfgPath = [''.env'', path_join (Dir cfgPath) ''.env'']"

definition LoadDotEnv :: "(env \<Rightarrow> file_entry \<Rightarrow> env \<times> bool) \<Rightarrow> env \<Rightarrow> fs \<Rightarrow> string \<Rightarrow> env" where
  "LoadDotEnv dotenv env fs cfgPath = load_first dotenv env fs (dotenv_paths cfgPath)"

text \<open>If \<open>Load\<close> keeps the variables that are set, as its documentation says, so does the search; and the
  files after the first one that can be loaded do not matter.\<close>

lemma load_first_keeps:
  "(\<And>env file. env \<subseteq>\<^sub>m fst (dotenv env file)) \<Longrightarrow> env \<subseteq>\<^sub>m load_first dotenv env fs ps"
proof (induction ps arbitrary: env)
  case (Cons p ps)
  obtain env' ok where d: "dotenv env (fs p) = (env', ok)" by (cases "dotenv env (fs p)")
  have keep: "env \<subseteq>\<^sub>m env'" using Cons.prems [of env "fs p"] d by simp
  moreover have "env' \<subseteq>\<^sub>m load_first dotenv env' fs ps" by (rule Cons.IH [OF Cons.prems])
  ultimately have "env \<subseteq>\<^sub>m load_first dotenv env' fs ps" by (rule map_le_trans)
  with keep Cons.IH [OF Cons.prems] d show ?case by simp
qed simp

lemma load_first_stops:
  "fs p \<noteq> Missing \<Longrightarrow> snd (dotenv env (fs p)) \<Longrightarrow> load_first dotenv env fs (p # ps) = load_first dotenv env fs [p]"
  by (cases "dotenv env (fs p)") simp

section \<open>Logging\<close>

datatype log_output = Stdout | StdoutAndFile string

datatype log_warning = LogDirectoryNotWritable string | LogFileNotWritable string

text \<open>The output chosen and what the error that is logged is about; the Go function's error result is always
  nil.\<close>

definition PrepareLogs ::
    "(string \<Rightarrow> bool) \<Rightarrow> (string \<Rightarrow> bool) \<Rightarrow> string \<Rightarrow> log_output \<times> log_warning option" where
  "PrepareLogs mkdir_ok open_ok logName =
     (if logName = [] then (Stdout, None)
      else
        (let dir = Dir logName
         in if dir \<noteq> ''.'' \<and> dir \<noteq> [] \<and> \<not> mkdir_ok dir then (Stdout, Some (LogDirectoryNotWritable dir))
            else if \<not> open_ok logName then (Stdout, Some (LogFileNotWritable logName))
            else (StdoutAndFile logName, None)))"

text \<open>The entries the package logs itself, tagged with the program's name: the last element of the path it
  was started as and its local start time.\<close>

record civil_time =
  cv_Year :: int
  cv_Month :: int
  cv_Day :: int
  cv_Hour :: int
  cv_Minute :: int
  cv_Second :: int

definition pad_to :: "nat \<Rightarrow> int \<Rightarrow> string" where
  "pad_to n i = replicate (n - length (Itoa i)) (CHR ''0'') @ Itoa i"

text \<open>The layout \<open>2006-01-02T15:04:05\<close>, for the years it was made for.\<close>

definition startTime :: "civil_time \<Rightarrow> string" where
  "startTime t =
     pad_to 4 (cv_Year t) @ ''-'' @ pad_to 2 (cv_Month t) @ ''-'' @ pad_to 2 (cv_Day t) @ ''T''
     @ pad_to 2 (cv_Hour t) @ '':'' @ pad_to 2 (cv_Minute t) @ '':'' @ pad_to 2 (cv_Second t)"

definition programName :: "string \<Rightarrow> civil_time \<Rightarrow> string" where
  "programName arg0 t = Base arg0 @ ''-'' @ startTime t"

datatype entry_level = InfoEntry | ErrorEntry

record log_entry =
  le_Level :: entry_level
  le_Job :: string
  le_Msg :: string

definition LogInfo :: "string \<Rightarrow> string \<Rightarrow> log_entry" where
  "LogInfo job msg = \<lparr>le_Level = InfoEntry, le_Job = job, le_Msg = msg\<rparr>"

definition LogError :: "string \<Rightarrow> string \<Rightarrow> log_entry" where
  "LogError job msg = \<lparr>le_Level = ErrorEntry, le_Job = job, le_Msg = msg\<rparr>"

fun warning_text :: "(int \<Rightarrow> bool) \<Rightarrow> string \<Rightarrow> log_warning \<Rightarrow> string" where
  "warning_text pr err (LogDirectoryNotWritable dir) =
     ''log directory '' @ Quote pr dir @ '' is not writable, logging to stdout only: '' @ err"
| "warning_text pr err (LogFileNotWritable name) =
     ''log file '' @ Quote pr name @ '' is not writable, logging to stdout only: '' @ err"

definition fallback_entry :: "(int \<Rightarrow> bool) \<Rightarrow> string \<Rightarrow> string \<Rightarrow> log_output \<times> log_warning option \<Rightarrow> log_entry option" where
  "fallback_entry pr job err r = map_option (\<lambda>w. LogError job (warning_text pr err w)) (snd r)"

lemma logging_examples:
  "programName ''/usr/bin/pscale_exporter'' \<lparr>cv_Year = 2026, cv_Month = 6, cv_Day = 2, cv_Hour = 9, cv_Minute = 5, cv_Second = 30\<rparr> =
     ''pscale_exporter-2026-06-02T09:05:30''"
  "fallback_entry (\<lambda>r. True) ''job'' ''permission denied'' (PrepareLogs (\<lambda>d. True) (\<lambda>f. False) ''/var/log/x.log'') =
     Some \<lparr>le_Level = ErrorEntry, le_Job = ''job'',
       le_Msg = ''log file \"/var/log/x.log\" is not writable, logging to stdout only: permission denied''\<rparr>"
  by code_simp+

text \<open>Standard output always carries the log; the entry of a fallback names what could not be written.\<close>

lemma PrepareLogs_output:
  "fst (PrepareLogs mkdir_ok open_ok name) = StdoutAndFile name \<longleftrightarrow>
     name \<noteq> [] \<and> snd (PrepareLogs mkdir_ok open_ok name) = None"
  "fst (PrepareLogs mkdir_ok open_ok name) \<in> {Stdout, StdoutAndFile name}"
  by (auto simp: PrepareLogs_def Let_def)

fun warning_about :: "log_warning \<Rightarrow> string" where
  "warning_about (LogDirectoryNotWritable dir) = dir"
| "warning_about (LogFileNotWritable name) = name"

lemma warning_names: "Contains (warning_text pr err w) (Quote pr (warning_about w))"
  unfolding Contains_iff
proof (cases w)
  case (LogDirectoryNotWritable dir)
  show "\<exists>ps ss. warning_text pr err w = ps @ Quote pr (warning_about w) @ ss"
    unfolding LogDirectoryNotWritable warning_text.simps warning_about.simps by (intro exI) (rule refl)
next
  case (LogFileNotWritable name)
  show "\<exists>ps ss. warning_text pr err w = ps @ Quote pr (warning_about w) @ ss"
    unfolding LogFileNotWritable warning_text.simps warning_about.simps by (intro exI) (rule refl)
qed

section \<open>Watching the configuration\<close>

datatype fs_op = Create | Write | Remove | Rename | Chmod

record fs_event =
  ev_Name :: string
  ev_Ops :: "fs_op list"

datatype watch_input = Event fs_event | EventsClosed | WatchError | ErrorsClosed

definition concerns_config :: "string \<Rightarrow> fs_event \<Rightarrow> bool" where
  "concerns_config configPath ev \<longleftrightarrow>
     Base (ev_Name ev) = Base configPath \<and> (Write \<in> set (ev_Ops ev) \<or> Create \<in> set (ev_Ops ev))"

text \<open>The watcher's goroutine: what it does with the inputs its \<open>select\<close> takes, in their order.\<close>

fun watch_loop :: "string \<Rightarrow> ('s \<Rightarrow> 's) \<Rightarrow> 's \<Rightarrow> watch_input list \<Rightarrow> 's" where
  "watch_loop configPath reload s [] = s"
| "watch_loop configPath reload s (Event ev # ins) =
     watch_loop configPath reload (if concerns_config configPath ev then reload s else s) ins"
| "watch_loop configPath reload s (WatchError # ins) = watch_loop configPath reload s ins"
| "watch_loop configPath reload s (EventsClosed # ins) = s"
| "watch_loop configPath reload s (ErrorsClosed # ins) = s"

text \<open>\<open>WatchConfigFile\<close> up to the goroutine: the directory watched, or the failure.\<close>

definition WatchConfigFile :: "bool \<Rightarrow> (string \<Rightarrow> bool) \<Rightarrow> string \<Rightarrow> string option" where
  "WatchConfigFile new_ok add_ok configPath =
     (if \<not> new_ok then None
      else (let configDir = Dir configPath in if add_ok configDir then Some configDir else None))"

text \<open>One reload per SIGHUP received.\<close>

fun sighup_loop :: "('s \<Rightarrow> 's) \<Rightarrow> 's \<Rightarrow> nat \<Rightarrow> 's" where
  "sighup_loop reload s 0 = s"
| "sighup_loop reload s (Suc n) = sighup_loop reload (reload s) n"

definition still_open :: "watch_input \<Rightarrow> bool" where
  "still_open i \<longleftrightarrow> i \<noteq> EventsClosed \<and> i \<noteq> ErrorsClosed"

fun reload_trigger :: "string \<Rightarrow> watch_input \<Rightarrow> bool" where
  "reload_trigger configPath (Event ev) = concerns_config configPath ev"
| "reload_trigger configPath _ = False"

lemma watch_loop_count:
  "watch_loop configPath reload s ins =
     sighup_loop reload s (length (filter (reload_trigger configPath) (takeWhile still_open ins)))"
  by (induction configPath reload s ins rule: watch_loop.induct) (simp_all add: still_open_def)

text \<open>The file watcher reloads exactly on changes of the configuration file: once for every
  write or creation event whose last path element is that of the configured path, before either
  channel is closed, however the file is replaced in its directory, and never for another name.\<close>

lemma watch_loop_reloads:
  "watch_loop configPath reload s ins =
     sighup_loop reload s (length (filter (reload_trigger configPath) (takeWhile still_open ins)))
   \<and> reload_trigger (dir @ ''/config.yaml'') (Event \<lparr>ev_Name = dir' @ ''/'' @ ''config.yaml'', ev_Ops = [Create]\<rparr>)
   \<and> \<not> reload_trigger (dir @ ''/config.yaml'') (Event \<lparr>ev_Name = dir' @ ''/'' @ ''config.yaml'', ev_Ops = [Remove, Chmod]\<rparr>)
   \<and> \<not> reload_trigger (dir @ ''/config.yaml'') (Event \<lparr>ev_Name = dir' @ ''/'' @ ''config.yaml.swp'', ev_Ops = [Write]\<rparr>)"
proof -
  have "Base (d @ ''/'' @ ''config.yaml'') = ''config.yaml''" "Base (d @ ''/'' @ ''config.yaml.swp'') = ''config.yaml.swp''" for d
    by (rule Base_append; simp)+
  then show ?thesis using watch_loop_count by (simp add: concerns_config_def)
qed

section \<open>Tracing\<close>

record TelemetryConfig =
  tc_Endpoint :: string
  tc_Insecure :: bool
  tc_SamplingRate :: f64
  tc_ServiceName :: string
  tc_ServiceVersion :: string

datatype exporter_option = WithEndpoint string | WithInsecureCredentials

datatype sampler = AlwaysSample | TraceIDRatioBased f64

record TracerProvider =
  tp_options :: "exporter_option list"
  tp_resource :: "(string \<times> string) list"
  tp_sampler :: sampler

record Manager =
  mg_enabled :: bool
  mg_provider :: "TracerProvider option"
  mg_config :: TelemetryConfig

datatype telemetry_error = ExporterFailed | ResourceFailed | ShutdownFailed

definition NewManager :: "TelemetryConfig \<Rightarrow> Manager" where
  "NewManager cfg = \<lparr>mg_enabled = False, mg_provider = None, mg_config = cfg\<rparr>"

definition exporterOptions :: "Manager \<Rightarrow> exporter_option list" where
  "exporterOptions m =
     [WithEndpoint (tc_Endpoint (mg_config m))]
     @ (if tc_Insecure (mg_config m) then [WithInsecureCredentials] else [])"

definition resource_attrs :: "string option \<Rightarrow> Manager \<Rightarrow> (string \<times> string) list" where
  "resource_attrs hostname m =
     [(''service.name'', tc_ServiceName (mg_config m)),
      (''service.version'', tc_ServiceVersion (mg_config m)),
      (''host.name'', case hostname of None \<Rightarrow> ''unknown'' | Some h \<Rightarrow> h)]"

fun at_least_one :: "f64 \<Rightarrow> bool" where
  "at_least_one NaN = False"
| "at_least_one (Inf neg) = (\<not> neg)"
| "at_least_one (Fin neg m) = (\<not> neg \<and> 1 \<le> m)"

definition sampler_of :: "Manager \<Rightarrow> sampler" where
  "sampler_of m =
     (if at_least_one (tc_SamplingRate (mg_config m)) then AlwaysSample
      else TraceIDRatioBased (tc_SamplingRate (mg_config m)))"

text \<open>\<open>Initialize\<close>: the manager, the process-wide provider, and the error.\<close>

definition Initialize ::
    "(exporter_option list \<Rightarrow> bool) \<Rightarrow> ((string \<times> string) list \<Rightarrow> bool) \<Rightarrow> string option \<Rightarrow> Manager
     \<Rightarrow> TracerProvider option \<Rightarrow> Manager \<times> TracerProvider option \<times> telemetry_error option" where
  "Initialize exporter_ok resource_ok hostname m global =
     (if \<not> exporter_ok (exporterOptions m) then (m, global, Some ExporterFailed)
      else if \<not> resource_ok (resource_attrs hostname m) then (m, global, Some ResourceFailed)
      else
        (let tp = \<lparr>tp_options = exporterOptions m, tp_resource = resource_attrs hostname m, tp_sampler = sampler_of m\<rparr>
         in (m\<lparr>mg_provider := Some tp, mg_enabled := True\<rparr>, Some tp, None)))"

definition ManagerShutdown :: "(TracerProvider \<Rightarrow> bool) \<Rightarrow> Manager \<Rightarrow> telemetry_error option" where
  "ManagerShutdown shutdown_ok m =
     (case mg_provider m of
        None \<Rightarrow> None
      | Some tp \<Rightarrow> if \<not> mg_enabled m then None else if shutdown_ok tp then None else Some ShutdownFailed)"

definition IsEnabled :: "Manager \<Rightarrow> bool" where
  "IsEnabled m = mg_enabled m"

definition provider_of :: "Manager \<Rightarrow> TracerProvider option" where
  "provider_of m = mg_provider m"

datatype tracer = NoopTracer string | SdkTracer TracerProvider string

definition NewTracerWrapper :: "TracerProvider option \<Rightarrow> string \<Rightarrow> tracer" where
  "NewTracerWrapper tp name = (case tp of None \<Rightarrow> NoopTracer name | Some p \<Rightarrow> SdkTracer p name)"

datatype span_kind = KindInternal | KindClient

datatype span = Span tracer string span_kind

definition StartSpan :: "tracer \<Rightarrow> string \<Rightarrow> span_kind \<Rightarrow> span" where
  "StartSpan w operation kind = Span w operation kind"

text \<open>\<open>initTracing\<close> of the server: its manager and provider, none when tracing is off or fails.\<close>

definition tracing_config :: "string \<Rightarrow> Config \<Rightarrow> TelemetryConfig" where
  "tracing_config ver cfg =
     (let tr = op_Tracing (cf_OpenTelemetry cfg)
      in \<lparr>tc_Endpoint = oc_Endpoint tr, tc_Insecure = oc_Insecure tr, tc_SamplingRate = oc_SamplingRate tr,
          tc_ServiceName = ''pscale-exporter'', tc_ServiceVersion = ver\<rparr>)"

definition initTracing ::
    "(exporter_option list \<Rightarrow> bool) \<Rightarrow> ((string \<times> string) list \<Rightarrow> bool) \<Rightarrow> string option \<Rightarrow> string \<Rightarrow> Config
     \<Rightarrow> TracerProvider option \<Rightarrow> Manager option \<times> TracerProvider option" where
  "initTracing exporter_ok resource_ok hostname ver cfg global =
     (if \<not> IsOTelTracingEnabled cfg then (None, global)
      else case Initialize exporter_ok resource_ok hostname (NewManager (tracing_config ver cfg)) global of
          (m, global', None) \<Rightarrow> (Some m, global')
        | (m, global', Some e) \<Rightarrow> (None, global'))"

text \<open>Tracing is all or nothing and never an obstacle: the server ends up with a manager exactly
  when tracing is enabled and the SDK gave an exporter and a resource, and then spans go to a
  provider for the configured endpoint; otherwise nothing is registered and spans are no-ops. With
  a validated configuration the provider samples everything at the rate 1, and a share below 1
  otherwise (or NaN, which validation lets through).\<close>

lemma initTracing_outcome:
  assumes "Validate c0 = Inr c"
  shows "case initTracing exporter_ok resource_ok hostname ver c global of
      (None, g) \<Rightarrow> g = global \<and> (\<not> IsOTelTracingEnabled c
          \<or> \<not> exporter_ok (exporterOptions (NewManager (tracing_config ver c)))
          \<or> \<not> resource_ok (resource_attrs hostname (NewManager (tracing_config ver c))))
        \<and> NewTracerWrapper None ''n'' = NoopTracer ''n''
    | (Some m, g) \<Rightarrow> IsOTelTracingEnabled c \<and> IsEnabled m
        \<and> (\<exists>tp. provider_of m = Some tp \<and> g = Some tp \<and> NewTracerWrapper (provider_of m) ''n'' = SdkTracer tp ''n''
            \<and> WithEndpoint (oc_Endpoint (op_Tracing (cf_OpenTelemetry c))) \<in> set (tp_options tp)
            \<and> (case oc_SamplingRate (op_Tracing (cf_OpenTelemetry c)) of
                 NaN \<Rightarrow> tp_sampler tp = TraceIDRatioBased NaN
               | Inf neg \<Rightarrow> False
               | Fin neg x \<Rightarrow> x \<le> 1 \<and> tp_sampler tp = (if \<not> neg \<and> x = 1 then AlwaysSample else TraceIDRatioBased (Fin neg x))))"
proof -
  have "\<not> rate_out_of_range (oc_SamplingRate (op_Tracing (cf_OpenTelemetry c)))" if "IsOTelTracingEnabled c"
    using assms that by (auto simp: Validate_Inr valid_config_def IsOTelTracingEnabled_def Let_def)
  then show ?thesis
    by (auto simp: initTracing_def Initialize_def NewManager_def IsEnabled_def provider_of_def NewTracerWrapper_def
        exporterOptions_def sampler_of_def tracing_config_def Let_def split: f64.split)
qed

definition traced_config :: Config where
  "traced_config = example_config\<lparr>cf_OpenTelemetry := (cf_OpenTelemetry example_config)
     \<lparr>op_Tracing := \<lparr>oc_Enabled = True, oc_Endpoint = ''otel:4317'', oc_Insecure = True, oc_Interval = [],
        oc_SamplingRate = Fin False (1 / 2)\<rparr>\<rparr>\<rparr>"

lemma initTracing_outcome_witness:
  "case initTracing (\<lambda>_. True) (\<lambda>_. True) None ''dev'' (SetDefaults traced_config) None of
     (None, g) \<Rightarrow> False
   | (Some m, g) \<Rightarrow> IsEnabled m \<and> provider_of m = g"
proof -
  have v: "Validate traced_config = Inr (SetDefaults traced_config)" by code_simp
  have "IsOTelTracingEnabled (SetDefaults traced_config)" by code_simp
  with initTracing_outcome [OF v, where exporter_ok = "\<lambda>_. True" and resource_ok = "\<lambda>_. True" and hostname = None
      and ver = "''dev''" and global = None] show ?thesis
    by (auto split: prod.splits option.splits)
qed

end
