(* ===== verification/Lifecycle.thy ===== *)
theory Lifecycle
  imports Server Support "HOL-Library.Sublist"
begin

text \<open>
  The properties that span the life of the server of \<open>main.go\<close>: what startup and a reload make of the same
  configuration file, the metrics page, progress, stale snapshots, health.
\<close>

section \<open>Startup and reload of the same file\<close>

lemma startup_is_load: "validateConfig decode env fs path = load_config decode fs (Some (ResolveSecrets env fs)) path"
  by (auto simp: validateConfig_def load_config_def ReadFile_def FileExists_def split: file_entry.split option.split)

lemma resolve_password_port: "resolve_password env fs (cl\<lparr>cc_Port := p\<rparr>) =
    res_bind (resolve_password env fs cl) (\<lambda>c. Inr (c\<lparr>cc_Port := p\<rparr>))"
  by (auto simp: resolve_password_def res_bind_def split: file_entry.split sum.split)

lemma resolve_cluster_port: "resolve_cluster env fs (cl\<lparr>cc_Port := p\<rparr>) =
    res_bind (resolve_cluster env fs cl) (\<lambda>c. Inr (c\<lparr>cc_Port := p\<rparr>))"
proof -
  have "resolve_password env fs (cl\<lparr>cc_Port := p, cc_InsecureSkipVerify := i, cc_Endpoint := e, cc_Username := u\<rparr>) =
      res_bind (resolve_password env fs (cl\<lparr>cc_InsecureSkipVerify := i, cc_Endpoint := e, cc_Username := u\<rparr>))
        (\<lambda>c. Inr (c\<lparr>cc_Port := p\<rparr>))" for i e u
    using resolve_password_port [where cl = "cl\<lparr>cc_InsecureSkipVerify := i, cc_Endpoint := e, cc_Username := u\<rparr>" and p = p]
    by (cases cl) simp
  then show ?thesis by (simp add: resolve_cluster_def) (simp add: res_bind_def split: sum.split)
qed

lemma resolve_defaults:
  assumes "resolve_cluster env fs cl = Inr cl"
  shows "resolve_cluster env fs (cluster_defaults cl) = Inr (cluster_defaults cl)"
  using assms by (simp add: cluster_defaults_def resolve_cluster_port)

lemma resolve_clusters_fixed:
  "list_all (\<lambda>cl. resolve_cluster env fs cl = Inr cl) cls \<Longrightarrow> resolve_clusters env fs cls = Inr cls"
  by (induction cls) simp_all

lemma resolve_clusters_each:
  "resolve_clusters env fs cls = Inr cls' \<Longrightarrow> list_all dollar_free cls' \<Longrightarrow>
     list_all (\<lambda>cl. resolve_cluster env fs cl = Inr cl) cls'"
  by (induction cls arbitrary: cls') (auto simp: res_iff resolve_cluster_again)

lemma dollar_free_defaults: "dollar_free (cluster_defaults cl) = dollar_free cl"
  by (simp add: dollar_free_def cluster_defaults_def)

lemma loaded_fixed:
  assumes "load_config decode fs (Some (ResolveSecrets env fs)) path = Inr c" and "list_all dollar_free (cf_Clusters c)"
  shows "ResolveSecrets env fs c = Inr c"
proof -
  obtain c0 cls where cls: "resolve_clusters env fs (cf_Clusters c0) = Inr cls"
    and c: "c = SetDefaults (c0\<lparr>cf_Clusters := cls\<rparr>)"
    using assms(1)
    by (auto simp: load_config_def ResolveSecrets_def res_iff split: file_entry.splits option.splits)
  have clusters: "cf_Clusters c = map cluster_defaults cls" by (simp add: c SetDefaults_def Let_def)
  have "list_all dollar_free cls"
    using assms(2) unfolding clusters by (simp add: list_all_iff dollar_free_defaults)
  from resolve_clusters_each [OF cls this]
  have "resolve_clusters env fs (cf_Clusters c) = Inr (cf_Clusters c)"
    unfolding clusters by (intro resolve_clusters_fixed) (auto simp: list_all_iff intro: resolve_defaults)
  then show ?thesis by (simp add: ResolveSecrets_def)
qed

text \<open>C18: Startup and reload agree on a file when no resolved credential contains a dollar sign: the
  command fails with the error a reload would report, or starts with the configuration a reload would
  load, and a reload of the unchanged file then finds no change.\<close>

theorem startup_agrees_with_reload:
  assumes "case load_config decode fs (Some (ResolveSecrets env fs)) path of
      Inl e \<Rightarrow> True | Inr c \<Rightarrow> list_all dollar_free (cf_Clusters c)"
  shows "case load_config decode fs (Some (ResolveSecrets env fs)) path of
      Inl e \<Rightarrow> startup decode env fs path = Inl e
    | Inr c \<Rightarrow> startup decode env fs path = Inr (NewSafeConfig c (Some (ResolveSecrets env fs)))
        \<and> ReloadConfig decode fs (NewSafeConfig c (Some (ResolveSecrets env fs))) path =
            (NewSafeConfig c (Some (ResolveSecrets env fs)), Inr False)"
proof (cases "load_config decode fs (Some (ResolveSecrets env fs)) path")
  case (Inl e)
  then show ?thesis by (simp add: startup_def startup_config_def startup_is_load)
next
  case (Inr c)
  with assms have "ResolveSecrets env fs c = Inr c" by (intro loaded_fixed) simp_all
  with Inr show ?thesis
    by (simp add: startup_def startup_config_def startup_is_load ReloadConfig_def NewSafeConfig_def)
qed

theorem startup_agrees_with_reload_witness:
  "\<exists>c. load_config (\<lambda>t. Some env_config) (\<lambda>p. Content []) (Some (ResolveSecrets example_env (\<lambda>p. Content []))) ''c.yaml'' = Inr c
     \<and> startup (\<lambda>t. Some env_config) example_env (\<lambda>p. Content []) ''c.yaml'' =
         Inr (NewSafeConfig c (Some (ResolveSecrets example_env (\<lambda>p. Content []))))"
proof -
  let ?l = "load_config (\<lambda>t. Some env_config) (\<lambda>p. Content []) (Some (ResolveSecrets example_env (\<lambda>p. Content []))) ''c.yaml''"
  have free: "case ?l of Inl e \<Rightarrow> False | Inr c \<Rightarrow> list_all dollar_free (cf_Clusters c)" by code_simp
  then have "case ?l of Inl e \<Rightarrow> True | Inr c \<Rightarrow> list_all dollar_free (cf_Clusters c)" by (cases ?l) simp_all
  from startup_agrees_with_reload [OF this] free show ?thesis by (cases ?l) simp_all
qed

definition password_file_config :: Config where
  "password_file_config =
     example_config\<lparr>cf_Clusters := [example_cluster\<lparr>cc_Password := [], cc_PasswordFile := ''/run/pw''\<rparr>]\<rparr>"

text \<open>What a second resolution makes of the password of a cluster.\<close>

lemma resolve_cluster_password:
  assumes "resolve_cluster env fs cl = Inr cl'"
  shows "cc_Name cl' = cc_Name cl"
    and "cc_Password cl \<noteq> [] \<Longrightarrow> ExpandEnvSecret env ''password'' (cc_Password cl) = Inr (cc_Password cl')"
  using assms
  by (auto simp: resolve_cluster_def resolve_password_def res_iff in_cluster_def split: sum.splits file_entry.splits if_splits)

lemma resolve_clusters_cases:
  "case resolve_clusters env fs cls of
     Inl e \<Rightarrow> \<exists>cl \<in> set cls. resolve_cluster env fs cl = Inl e
   | Inr cls' \<Rightarrow> list_all2 (\<lambda>cl cl'. resolve_cluster env fs cl = Inr cl') cls cls'"
proof (induction cls)
  case (Cons cl cls)
  then show ?case
    by (cases "resolve_cluster env fs cl"; cases "resolve_clusters env fs cls") (auto simp: res_bind_def)
qed simp

text \<open>C33: Startup resolves the secrets a second time, a reload does not: where a reload uses every password as
  it was read, startup expands the references it finds in the text of the password that was read. When
  one of them cannot be resolved the command refuses to start; otherwise it starts with the expanded
  text in place of the password. (The witness: a password file that holds \<open>a${B}c\<close>. Without a variable
  \<open>B\<close> the command does not start, with \<open>B\<close> set it logs in with another password than after a reload.)\<close>

theorem password_expanded_twice_at_startup:
  assumes "load_config decode fs (Some (ResolveSecrets env fs)) path = Inr c"
  shows "case startup decode env fs path of
      Inl e \<Rightarrow> \<exists>cl \<in> set (cf_Clusters c). resolve_cluster env fs cl = Inl e
    | Inr sc \<Rightarrow> list_all2 (\<lambda>cl cl'. resolve_cluster env fs cl = Inr cl' \<and> cc_Name cl' = cc_Name cl
          \<and> (cc_Password cl \<noteq> [] \<longrightarrow> ExpandEnvSecret env ''password'' (cc_Password cl) = Inr (cc_Password cl')))
        (cf_Clusters c) (cf_Clusters (sc_C sc))"
proof -
  have twice: "startup decode env fs path =
      res_bind (ResolveSecrets env fs c) (\<lambda>c'. Inr (NewSafeConfig c' (Some (ResolveSecrets env fs))))"
    by (simp add: startup_def startup_config_def startup_is_load assms)
  show ?thesis
    using resolve_clusters_cases [where env = env and fs = fs and cls = "cf_Clusters c"] unfolding twice ResolveSecrets_def
    by (cases "resolve_clusters env fs (cf_Clusters c)")
      (auto simp: NewSafeConfig_def resolve_cluster_password elim!: list.rel_mono_strong)
qed

definition b_env :: "string option \<Rightarrow> env" where
  "b_env v = (\<lambda>n. if n = ''B'' then v else example_env n)"

lemma reference_in_password_file:
  "let fs = example_fs(''c.yaml'' := Content []); decode = (\<lambda>t. Some password_file_config)
   in list_all (\<lambda>v. case load_config decode fs (Some (ResolveSecrets (b_env v) fs)) ''c.yaml'' of
         Inl e \<Rightarrow> False | Inr c \<Rightarrow> map cc_Password (cf_Clusters c) = [''a${B}c'']
           \<and> resolve_cluster (b_env None) fs (hd (cf_Clusters c)) = Inl (InCluster ''lab'' ''password'' (UnsetVariables [''B'']))
           \<and> ExpandEnvSecret (b_env (Some ''b'')) ''password'' ''a${B}c'' = Inr ''abc'') [None, Some ''b'']
     \<and> (case startup decode (b_env None) fs ''c.yaml'' of Inl e \<Rightarrow> True | Inr sc \<Rightarrow> False)
     \<and> (case startup decode (b_env (Some ''b'')) fs ''c.yaml'' of Inl e \<Rightarrow> False | Inr sc \<Rightarrow> True)"
  by code_simp

theorem password_expanded_twice_at_startup_witness:
  "let fs = example_fs(''c.yaml'' := Content []); decode = (\<lambda>t. Some password_file_config)
   in startup decode (b_env None) fs ''c.yaml'' = Inl (InCluster ''lab'' ''password'' (UnsetVariables [''B'']))
     \<and> (\<exists>sc. startup decode (b_env (Some ''b'')) fs ''c.yaml'' = Inr sc \<and> map cc_Password (cf_Clusters (sc_C sc)) = [''abc''])"
proof -
  let ?fs = "example_fs(''c.yaml'' := Content [])" and ?decode = "\<lambda>t. Some password_file_config"
  let ?load = "\<lambda>v. load_config ?decode ?fs (Some (ResolveSecrets (b_env v) ?fs)) ''c.yaml''"
  note facts = reference_in_password_file [unfolded Let_def list.pred_inject]
  obtain c where c: "?load None = Inr c" "map cc_Password (cf_Clusters c) = [''a${B}c'']"
    "resolve_cluster (b_env None) ?fs (hd (cf_Clusters c)) = Inl (InCluster ''lab'' ''password'' (UnsetVariables [''B'']))"
    using facts by (auto split: sum.splits)
  obtain c' where c': "?load (Some ''b'') = Inr c'" "map cc_Password (cf_Clusters c') = [''a${B}c'']"
    "ExpandEnvSecret (b_env (Some ''b'')) ''password'' ''a${B}c'' = Inr ''abc''"
    using facts by (auto split: sum.splits)
  obtain e where e: "startup ?decode (b_env None) ?fs ''c.yaml'' = Inl e" using facts by (auto split: sum.splits)
  obtain sc where sc: "startup ?decode (b_env (Some ''b'')) ?fs ''c.yaml'' = Inr sc" using facts by (auto split: sum.splits)
  have "e = InCluster ''lab'' ''password'' (UnsetVariables [''B''])"
    using password_expanded_twice_at_startup [OF c(1)] c(2,3) e by auto
  moreover have "map cc_Password (cf_Clusters (sc_C sc)) = [''abc'']"
    using password_expanded_twice_at_startup [OF c'(1)] c'(2,3) sc by (auto simp: list_all2_Cons1)
  ultimately show ?thesis using e sc by simp
qed

section \<open>Stopping the collection\<close>

lemma steps_reachable:
  "(server_step ou dumpDir tr g)\<^sup>*\<^sup>* s s' \<Longrightarrow> reachable ou dumpDir tr g sc s \<Longrightarrow> reachable ou dumpDir tr g sc s'"
  by (induction rule: rtranclp_induct) (auto intro: reachable.moved)

lemma stopped_all_cancelled: "loops_ok s \<Longrightarrow> list_all lp_cancelled (sr_loops (stopCollection ou s))"
proof (cases "sr_cancel s")
  case (Some k)
  assume "loops_ok s"
  with Some have "live_ok ((map lp_cancelled (sr_loops s))[k := True]) None (sr_restart s)"
    by (auto simp: loops_ok_def intro: live_ok_stop)
  then have "list_all id (map lp_cancelled (sr_loops (stopCollection ou s)))"
    by (simp add: stopCollection_def Some live_ok_def map_update)
  then show ?thesis by (simp add: list.pred_map)
qed (simp add: loops_ok_def live_ok_def stopCollection_def list_all_iff)

section \<open>The metrics page\<close>

text \<open>The constant build-information gauge, and what the registry gathers from both collectors.\<close>

definition NewBuildInfoCollector :: "string \<Rightarrow> string \<Rightarrow> Metric" where
  "NewBuildInfoCollector ver goversion =
     \<lparr>mt_Name = ''pscale_exporter_build_info'', mt_Labels = [(''goversion'', goversion), (''version'', ver)], mt_Value = 1\<rparr>"

definition metrics_page ::
    "const_check \<Rightarrow> (string list \<Rightarrow> string list) \<Rightarrow> string \<Rightarrow> string \<Rightarrow> 'e Snapshot \<Rightarrow> Metric list option" where
  "metrics_page ok o1 ver goversion snap =
     map_option (\<lambda>ms. ms @ [NewBuildInfoCollector ver goversion]) (Collect ok o1 snap)"

lemma build_info_apart:
  "''pscale_exporter_build_info'' \<notin> set health_names" "map_of metric_schema ''pscale_exporter_build_info'' = None"
  by code_simp+

text \<open>C1: In every state the running exporter can reach, through any interleaving of collection
  cycles and reloads, a scrape of the metrics page never carries two series with the same metric name
  and label set (the registry would reject the whole scrape), whatever the clusters answered,
  whatever order the runtime ranges over the maps in, and whatever label sets \<open>NewConstMetric\<close>
  refuses.\<close>

theorem metrics_page_no_duplicates:
  assumes "reachable ou dumpDir tr sdk sc s" and "is_order ord"
    and "metrics_page ok (ord j) ver goversion (Load (sr_store s)) = Some page"
  shows "distinct (map (\<lambda>m. (mt_Name m, mt_Labels m)) page)"
proof -
  obtain ms where ms: "Collect ok (ord j) (Load (sr_store s)) = Some ms"
    and page: "page = ms @ [NewBuildInfoCollector ver goversion]"
    using assms(3) by (auto simp: metrics_page_def)
  obtain ord1 i results where snap: "is_order ord1" "Load (sr_store s) = BuildSnapshot (ord1 i) results"
    and conf: "list_all conforms (all_samples results)"
    using reachable_good [OF assms(1)] scrape_all_conform unfolding scraped_snapshot_def by blast
  let ?ord = "\<lambda>k. if k = 0 then ord1 i else ord j"
  have "is_order ?ord" using snap(1) assms(2) by (simp add: is_order_def)
  note names = collect_names [OF this conf, of ok 1 0 ms]
  have "mt_Name m \<noteq> ''pscale_exporter_build_info''" if "m \<in> set ms" for m
  proof
    assume "mt_Name m = ''pscale_exporter_build_info''"
    with names [of m] that ms build_info_apart show False by (simp add: snap(2))
  qed
  with Collect_no_duplicates [OF assms(1,2) ms] show ?thesis
    unfolding page NewBuildInfoCollector_def by fastforce
qed

theorem metrics_page_no_duplicates_witness:
  "\<exists>s page. reachable example_outside [] False example_sdk example_safe s
     \<and> metrics_page same_length (id_order 0) ''1.0'' ''go1.27'' (Load (sr_store s)) = Some page \<and> length page = 2
     \<and> distinct (map (\<lambda>m. (mt_Name m, mt_Labels m)) page)"
proof -
  obtain s where s: "reachable example_outside [] False example_sdk example_safe s"
    "Load (sr_store s) = BuildSnapshot id [Some (down_snapshot ''lab'')]"
    using example_reachable by blast
  have "map_option length (Collect same_length (id_order 0) (BuildSnapshot id [Some (down_snapshot ''lab'')])) = Some 1"
    by code_simp
  then obtain page where page: "metrics_page same_length (id_order 0) ''1.0'' ''go1.27'' (Load (sr_store s)) = Some page" "length page = 2"
    by (auto simp: s(2) metrics_page_def)
  from metrics_page_no_duplicates [OF s(1) is_order_id page(1)] s(1) page show ?thesis by blast
qed

section \<open>Progress\<close>

lemma collectAll_total: "\<exists>snap pool' h'. collectAll ops ords now d o1 pool h snap pool' h'"
proof -
  obtain ts h' rs where "(cycle_step ops ords now d)\<^sup>*\<^sup>* (start_tasks pool, h) (ts, h')" "map task_final ts = map Some rs"
    using cycle_finishes by blast
  from collectAll.wait [OF this] show ?thesis by blast
qed

lemma some_orders: "all_orders (\<lambda>_. id_order) id_order"
  by (simp add: all_orders_def)

lemma startCollection_total: "\<exists>s'. startCollection ou dumpDir tr once s s'"
proof -
  let ?cfg = "sc_C (sr_cfg s)" and ?ws = "map (\<lambda>_. undefined) (cf_Clusters (sc_C (sr_cfg s)))"
  obtain snap pool' h' where "collectAll (any_ops ou) (\<lambda>_. id_order) (clock ou) False (id_order 0)
      (buildClients ou False dumpDir tr ?cfg ?ws) no_explanations snap pool' h'"
    using collectAll_total by metis
  then show ?thesis by (intro exI) (rule startCollection.start [OF refl _ some_orders], simp_all)
qed

lemma count_down: "i < length xs \<Longrightarrow> P (xs ! i) \<Longrightarrow> \<not> P x \<Longrightarrow> length (filter P (xs[i := x])) < length (filter P xs)"
proof (induction xs arbitrary: i)
  case (Cons y ys)
  then show ?case by (cases i) (auto dest: Suc_lessI)
qed simp

text \<open>A loop that is cancelled can be brought to its end in at most two steps.\<close>

definition at_rest :: "('n, 's, 'e) Loop \<Rightarrow> bool" where
  "at_rest l \<longleftrightarrow> lp_phase l = Stopped \<or> lp_phase l = Panicked"

lemma loop_drains:
  assumes "i < length (sr_loops s)" and "lp_cancelled (sr_loops s ! i)" and "\<not> at_rest (sr_loops s ! i)"
  shows "\<exists>s' l. (server_step ou dumpDir tr g)\<^sup>*\<^sup>* s s' \<and> sr_loops s' = (sr_loops s)[i := l] \<and> at_rest l \<and> lp_cancelled l"
proof -
  let ?stop = "\<lambda>s. s\<lparr>sr_loops := (sr_loops s)[i := (sr_loops s ! i)\<lparr>lp_phase := Stopped\<rparr>]\<rparr>"
  have stop: "server_step ou dumpDir tr g t (?stop t)"
    if "i < length (sr_loops t)" "lp_phase (sr_loops t ! i) = Waiting" "lp_cancelled (sr_loops t ! i)" for t
    using that by (rule server_step.stop)
  show ?thesis
  proof (cases "lp_phase (sr_loops s ! i)")
    case Waiting
    with stop [of s] assms show ?thesis by (intro exI [of _ "?stop s"]) (auto simp: at_rest_def)
  next
    case Collecting
    obtain snap pool' h' where c: "collectAll (any_ops ou) (\<lambda>_. id_order) (clock ou) True (id_order 0)
        (lp_pool (sr_loops s ! i)) (lp_hw (sr_loops s ! i)) snap pool' h'"
      using collectAll_total by metis
    let ?t = "s\<lparr>sr_store := Store (sr_store s) snap, sr_loops := (sr_loops s)[i := (sr_loops s ! i)
        \<lparr>lp_phase := Waiting, lp_pool := pool', lp_hw := h'\<rparr>]\<rparr>"
    have "server_step ou dumpDir tr g s ?t"
      by (rule server_step.publish [OF assms(1) Collecting _ some_orders c]) (simp add: assms(2))
    moreover have "server_step ou dumpDir tr g ?t (?stop ?t)"
      using assms by (intro stop) simp_all
    ultimately have "(server_step ou dumpDir tr g)\<^sup>*\<^sup>* s (?stop ?t)" by (meson r_into_rtranclp rtranclp_trans)
    then show ?thesis using assms by (intro exI [of _ "?stop ?t"]) (auto simp: at_rest_def)
  qed (use assms(3) in \<open>simp_all add: at_rest_def\<close>)
qed

lemma loops_drain:
  assumes "list_all lp_cancelled (sr_loops s)"
  shows "\<exists>s'. (server_step ou dumpDir tr g)\<^sup>*\<^sup>* s s' \<and> list_all at_rest (sr_loops s')"
  using assms
proof (induction "length (filter (\<lambda>l. \<not> at_rest l) (sr_loops s))" arbitrary: s rule: less_induct)
  case less
  show ?case
  proof (cases "list_all at_rest (sr_loops s)")
    case False
    then obtain i where i: "i < length (sr_loops s)" "\<not> at_rest (sr_loops s ! i)"
      by (auto simp: list_all_length)
    moreover have "lp_cancelled (sr_loops s ! i)" using less.prems i(1) by (simp add: list_all_length)
    ultimately obtain s1 l where s1: "(server_step ou dumpDir tr g)\<^sup>*\<^sup>* s s1" "sr_loops s1 = (sr_loops s)[i := l]"
      "at_rest l" "lp_cancelled l"
      using loop_drains by blast
    have "length (filter (\<lambda>l. \<not> at_rest l) (sr_loops s1)) < length (filter (\<lambda>l. \<not> at_rest l) (sr_loops s))"
      unfolding s1(2) using i s1(3) by (intro count_down) simp_all
    moreover have "list_all lp_cancelled (sr_loops s1)"
      using less.prems s1(4) unfolding s1(2) list_all_iff by (metis insertE set_update_subset_insert subsetD)
    ultimately obtain s' where "(server_step ou dumpDir tr g)\<^sup>*\<^sup>* s1 s'" "list_all at_rest (sr_loops s')"
      using less.hyps by blast
    with s1(1) show ?thesis by (meson rtranclp_trans)
  qed blast
qed

text \<open>C7: The server never gets stuck: from every reachable state a stopped collection can come to
  rest, each of its loops ending after the cycle it may be in (a loop whose period is not positive is at
  the panic that ends the process), and a reload that has stopped the old collection can always start
  the new one, which ends with a snapshot of the configured clusters.\<close>

theorem server_progress:
  assumes "reachable ou dumpDir tr sdk sc s"
  shows "(\<exists>s'. (server_step ou dumpDir tr sdk)\<^sup>*\<^sup>* (stopCollection ou s) s' \<and> list_all at_rest (sr_loops s'))
    \<and> (if sr_restart s then \<exists>s'. server_step ou dumpDir tr sdk s s' \<and> \<not> sr_restart s'
          \<and> set (map_keys (sh_PerCluster (Load (sr_store s')))) = cc_Name ` set (cf_Clusters (sc_C (sr_cfg s)))
        else True)"
proof
  show "\<exists>s'. (server_step ou dumpDir tr sdk)\<^sup>*\<^sup>* (stopCollection ou s) s' \<and> list_all at_rest (sr_loops s')"
    by (rule loops_drain [OF stopped_all_cancelled [OF reachable_loops_ok [OF assms]]])
  obtain s1 where s1: "startCollection ou dumpDir tr False s s1" using startCollection_total by blast
  from server_step.reload_start [OF _ this] startCollection_keys [OF s1]
  show "if sr_restart s then \<exists>s'. server_step ou dumpDir tr sdk s s' \<and> \<not> sr_restart s'
          \<and> set (map_keys (sh_PerCluster (Load (sr_store s')))) = cc_Name ` set (cf_Clusters (sc_C (sr_cfg s)))
        else True"
    by (auto simp: reload_instruments_def split: option.splits intro!: exI)
qed

theorem server_progress_witness:
  "\<exists>s s'. reachable example_outside [] False example_sdk example_safe s
     \<and> (server_step example_outside [] False example_sdk)\<^sup>*\<^sup>* (stopCollection example_outside s) s' \<and> list_all at_rest (sr_loops s')"
  using example_reachable server_progress by blast

section \<open>A stale snapshot\<close>

definition moved_config :: Config where
  "moved_config = SetDefaults (example_config\<lparr>cf_Clusters := [example_cluster\<lparr>cc_Name := ''new''\<rparr>]\<rparr>)"

abbreviation (input) example_steps :: "(unit, unit, string) Server \<Rightarrow> (unit, unit, string) Server \<Rightarrow> bool" where
  "example_steps \<equiv> server_step example_outside [] False example_sdk"

lemma otlp_frame [simp]:
  "sr_cfg (initOTLP g s) = sr_cfg s" "sr_loops (initOTLP g s) = sr_loops s"
  "sr_cancel (initOTLP g s) = sr_cancel s" "sr_restart (initOTLP g s) = sr_restart s"
  "sr_cfg (reload_instruments g s) = sr_cfg s" "sr_loops (reload_instruments g s) = sr_loops s"
  "sr_restart (reload_instruments g s) = sr_restart s"
  by (auto simp: initOTLP_def reload_instruments_def split: option.split prod.split)

lemma example_first_state:
  "\<exists>s h. reachable example_outside [] False example_sdk example_safe s \<and> sr_cfg s = example_safe
     \<and> sr_loops s = [new_loop (SetDefaults example_config) (map example_lazy (cf_Clusters (SetDefaults example_config))) h]
     \<and> sr_cancel s = Some 0 \<and> \<not> sr_restart s"
proof -
  let ?s0 = "NewServer (id_order 0) example_safe :: (unit, unit, string) Server"
  have cfg: "sc_C (sr_cfg ?s0) = SetDefaults example_config"
    by (simp add: NewServer_def example_safe_def NewSafeConfig_def)
  let ?s1 = "\<lambda>h. ?s0\<lparr>sr_store := Store (sr_store ?s0) (BuildSnapshot id (map (\<lambda>cl. Some (down_snapshot (cc_Name cl)))
            (cf_Clusters (SetDefaults example_config)))),
        sr_loops := sr_loops ?s0 @ [new_loop (SetDefaults example_config) (map example_lazy (cf_Clusters (SetDefaults example_config))) h],
        sr_cancel := Some (length (sr_loops ?s0))\<rparr>"
  obtain h where run: "startCollection example_outside [] False False ?s0 (?s1 h)"
    using example_start [OF cfg] by blast
  from reachable.started [OF is_order_id run, of example_sdk] show ?thesis
    by (intro exI [of _ "initOTLP example_sdk (?s1 h)"] exI [of _ h] conjI) (assumption, simp_all add: NewServer_def)
qed

text \<open>C22: A reload does not wait for the cycle the old loop is in: if that cycle ends after the new
  collection has published its first snapshot, its result replaces it, and until the next cycle the
  exporter reports the clusters of the old configuration and none of the new one.\<close>

theorem stale_snapshot_after_reload:
  "\<exists>s. reachable example_outside [] False example_sdk example_safe s \<and> \<not> sr_restart s
     \<and> map cc_Name (cf_Clusters (sc_C (sr_cfg s))) = [''new''] \<and> map_keys (sh_PerCluster (Load (sr_store s))) = [''lab'']"
proof -
  let ?reach = "reachable example_outside [] False example_sdk example_safe"
  let ?old = "map example_lazy (cf_Clusters (SetDefaults example_config))"
  obtain s h where s: "?reach s" "sr_cfg s = example_safe" "sr_loops s = [new_loop (SetDefaults example_config) ?old h]"
    "sr_cancel s = Some 0" "\<not> sr_restart s"
    using example_first_state by blast
  have "0 < GetCollectionInterval (SetDefaults example_config)" by code_simp
  then have waiting: "lp_phase (sr_loops s ! 0) = Waiting" by (simp add: s(3) new_loop_def)
  let ?s1 = "s\<lparr>sr_loops := (sr_loops s)[0 := (sr_loops s ! 0)\<lparr>lp_phase := Collecting\<rparr>]\<rparr>"
  have s1: "?reach ?s1" by (rule reachable.moved [OF s(1) server_step.tick [OF _ waiting]]) (simp add: s(3))
  let ?sc = "example_safe\<lparr>sc_C := moved_config\<rparr>"
  have "Validate (example_config\<lparr>cf_Clusters := [example_cluster\<lparr>cc_Name := ''new''\<rparr>]\<rparr>) = Inr moved_config" by code_simp
  moreover have "cf_Clusters (SetDefaults example_config) \<noteq> cf_Clusters moved_config" by code_simp
  ultimately have reload: "ReloadConfig (\<lambda>t. Some (example_config\<lparr>cf_Clusters := [example_cluster\<lparr>cc_Name := ''new''\<rparr>]\<rparr>))
      (\<lambda>p. Content []) (sr_cfg ?s1) ''c.yaml'' = (?sc, Inr True)"
    by (simp add: ReloadConfig_def load_config_def s(2) example_safe_def NewSafeConfig_def)
  let ?s2 = "stopCollection example_outside (?s1\<lparr>sr_cfg := ?sc, sr_restart := True\<rparr>)"
  have s2: "?reach ?s2" by (rule reachable.moved [OF s1 server_step.reload_stop [OF _ reload]]) (simp add: s(5))
  have f2: "sr_restart ?s2" "sc_C (sr_cfg ?s2) = moved_config" "length (sr_loops ?s2) = 1"
    "sr_loops ?s2 ! 0 = (new_loop (SetDefaults example_config) ?old h)\<lparr>lp_phase := Collecting, lp_cancelled := True\<rparr>"
    by (simp_all add: stopCollection_def s)
  obtain s3 where run: "startCollection example_outside [] False False ?s2 s3"
    and f3: "sr_cfg s3 = sr_cfg ?s2" "length (sr_loops s3) = 2" "sr_loops s3 ! 0 = sr_loops ?s2 ! 0"
  proof -
    obtain h' where r: "startCollection example_outside [] False False ?s2
     (?s2\<lparr>sr_store := Store (sr_store ?s2) (BuildSnapshot id (map (\<lambda>cl. Some (down_snapshot (cc_Name cl))) (cf_Clusters moved_config))),
        sr_loops := sr_loops ?s2 @ [new_loop moved_config (map example_lazy (cf_Clusters moved_config)) h'],
        sr_cancel := Some (length (sr_loops ?s2))\<rparr>)"
      using example_start [OF f2(2)] by blast
    from that [OF r] f2 show ?thesis by (simp add: nth_append)
  qed
  let ?s3 = "reload_instruments example_sdk (s3\<lparr>sr_restart := False\<rparr>)"
  have s3: "?reach ?s3" by (rule reachable.moved [OF s2 server_step.reload_start [OF f2(1) run]])
  let ?snap = "BuildSnapshot (id_order 0) [Some (down_snapshot ''lab'')]"
  have names: "map (\<lambda>cl. Some (down_snapshot (cc_Name cl))) (cf_Clusters (SetDefaults example_config)) = [Some (down_snapshot ''lab'')]"
    by code_simp
  obtain h' where c: "collectAll (any_ops example_outside) (\<lambda>_. id_order) (clock example_outside) True (id_order 0)
      (lp_pool (sr_loops ?s3 ! 0)) (lp_hw (sr_loops ?s3 ! 0)) ?snap ?old h'"
    using example_collectAll [of "\<lambda>_. id_order" True "id_order 0" "cf_Clusters (SetDefaults example_config)"]
    by (auto simp: f3(3) f2(4) new_loop_def names)
  let ?s4 = "?s3\<lparr>sr_store := Store (sr_store ?s3) ?snap,
      sr_loops := (sr_loops ?s3)[0 := (sr_loops ?s3 ! 0)\<lparr>lp_phase := Waiting, lp_pool := ?old, lp_hw := h'\<rparr>]\<rparr>"
  have "example_steps ?s3 ?s4"
    by (rule server_step.publish [OF _ _ _ some_orders c]) (simp_all add: f2 f3)
  note s4 = reachable.moved [OF s3 this]
  have "map cc_Name (cf_Clusters moved_config) = [''new'']" by code_simp
  moreover have "map_keys (sh_PerCluster ?snap) = [''lab'']" by code_simp
  ultimately show ?thesis by (intro exI [of _ ?s4] conjI s4) (simp_all add: f3 f2)
qed

section \<open>Health\<close>

definition outcome_ok :: "'e ClusterSnapshot \<Rightarrow> bool" where
  "outcome_ok cs \<longleftrightarrow> (cs_Up cs \<longleftrightarrow> cs_ScrapeError cs = None) \<and> cs_LastScrape cs \<noteq> None"

lemma collectCluster_time: "cs_LastScrape (fst (collectCluster ops ord now d c w h)) = Some (now w)"
  by (simp add: collectCluster_def Let_def new_snapshot_def split: prod.split sum.split)

lemma scrape_outcome: "outcome_ok (fst (scrape (any_ops ou) ord now d cw))"
proof -
  obtain cs c' w' h' where r: "collectCluster (any_ops ou) ord now d (fst cw) (snd cw) \<lparr>ex_seen = [], ex_log = []\<rparr> = (cs, c', w', h')"
    by (metis prod_cases4)
  then have "fst (scrape (any_ops ou) ord now d cw) = cs" by (simp add: scrape_def)
  moreover have "cs_LastScrape cs = Some (now (snd cw))" using collectCluster_time by (metis fst_conv r)
  ultimately show ?thesis using any.collect_outcome(3) [OF r] by (auto simp: outcome_ok_def split: if_splits)
qed

lemma per_cluster_entry:
  assumes "(n, cs) \<in> set (sh_PerCluster (BuildSnapshot o1 results))"
  shows "Some cs \<in> set results \<and> cs_Cluster cs = n"
proof -
  have "map_of (sh_PerCluster (BuildSnapshot o1 results)) n = Some cs"
    using assms wf_per_cluster [of "[]" results "[]"] by (simp add: BuildSnapshot_sel map_of_in_set)
  then have "find (\<lambda>c. cs_Cluster c = n) (rev (List.map_filter id results)) = Some cs"
    by (auto simp: BuildSnapshot_sel per_cluster_lookup split: option.splits)
  from find_SomeD [OF this] show ?thesis by (auto simp: List.map_filter_def)
qed

text \<open>C14: The health endpoint always answers 200 and reports every cluster of the published snapshot
  exactly once, under its own name and with the time of its last scrape, as healthy exactly when it
  has no error to show.\<close>

theorem health_reports_each:
  assumes "reachable ou dumpDir tr sdk sc s" and "is_order ord"
  shows "case healthHandler (ord j) (Load (sr_store s)) of (code, body) \<Rightarrow>
      code = 200 \<and> distinct (map ch_Cluster body)
      \<and> set (map ch_Cluster body) = set (map_keys (sh_PerCluster (Load (sr_store s))))
      \<and> list_all (\<lambda>h. (ch_OK h \<longleftrightarrow> ch_Err h = None) \<and> ch_LastScrape h \<noteq> None) body"
proof -
  obtain ord1 i ords d pool where snap: "Load (sr_store s) =
      BuildSnapshot (ord1 i) (map (\<lambda>(cs, c, w). Some cs) (scrape_all (any_ops ou) ords (clock ou) d pool))"
    (is "_ = BuildSnapshot _ ?rs")
    using reachable_good [OF assms(1)] unfolding scraped_snapshot_def by blast
  let ?pc = "sh_PerCluster (Load (sr_store s))" and ?f = "\<lambda>(name, cs). cs_Cluster cs"
  have entry: "cs_Cluster cs = n \<and> outcome_ok cs" if "(n, cs) \<in> set ?pc" for n cs
  proof -
    have "Some cs \<in> set ?rs" "cs_Cluster cs = n" using per_cluster_entry that unfolding snap by blast+
    moreover from this(1) have "outcome_ok cs" by (auto simp: scrape_all_def case_prod_beta intro: scrape_outcome)
    ultimately show ?thesis by simp
  qed
  have wf: "wf_map ?pc" using wf_per_cluster [of "[]" ?rs "[]"] by (simp add: snap BuildSnapshot_sel)
  note ms = mset_range_map [OF assms(2) wf, of j]
  then have set: "set (range_map (ord j) ?pc) = set ?pc" by (metis set_mset_mset)
  have "map ?f (range_map (ord j) ?pc) = map fst (range_map (ord j) ?pc)"
    using entry set by (auto intro!: map_cong)
  then have names: "map ch_Cluster (snd (healthHandler (ord j) (Load (sr_store s)))) = map fst (range_map (ord j) ?pc)"
    by (simp add: healthHandler_def comp_def case_prod_beta)
  have dist: "distinct (map fst (range_map (ord j) ?pc))"
    using wf ms unfolding wf_map_def map_keys_def by (metis mset_eq_imp_distinct_iff mset_map)
  have keys: "set (map fst (range_map (ord j) ?pc)) = set (map_keys ?pc)" by (simp add: set map_keys_def)
  have "list_all (\<lambda>h. (ch_OK h \<longleftrightarrow> ch_Err h = None) \<and> ch_LastScrape h \<noteq> None)
      (snd (healthHandler (ord j) (Load (sr_store s))))"
    using entry unfolding set [symmetric] by (auto simp: healthHandler_def list_all_iff outcome_ok_def)
  moreover have "fst (healthHandler (ord j) (Load (sr_store s))) = 200" by (simp add: healthHandler_def)
  ultimately show ?thesis unfolding case_prod_beta names using dist keys by blast
qed

theorem health_reports_each_witness:
  "\<exists>s. reachable example_outside [] False example_sdk example_safe s
     \<and> (case healthHandler (id_order 0) (Load (sr_store s)) of (code, body) \<Rightarrow> code = 200 \<and> set (map ch_Cluster body) = {''lab''})"
proof -
  obtain s where s: "reachable example_outside [] False example_sdk example_safe s"
    "Load (sr_store s) = BuildSnapshot id [Some (down_snapshot ''lab'')]"
    using example_reachable by blast
  have "map_keys (sh_PerCluster (BuildSnapshot id [Some (down_snapshot ''lab'')])) = [''lab'']" by code_simp
  then have keys: "set (map_keys (sh_PerCluster (Load (sr_store s)))) = {''lab''}" by (simp only: s(2)) simp
  obtain code body where h: "healthHandler (id_order 0) (Load (sr_store s)) = (code, body)" by fastforce
  from health_reports_each [OF s(1) is_order_id, of 0] have "code = 200 \<and> set (map ch_Cluster body) = {''lab''}"
    by (simp only: h prod.case keys simp_thms)
  then show ?thesis using s(1) h by (intro exI [of _ s]) simp
qed

end
