(* ===== verification/Attribution.thy ===== *)
theory Attribution
  imports Lifecycle
begin

text \<open>
  Whose data the exporter shows, in every state a run can reach: the clusters of the running loop are the
  configured ones, and every series of the metrics page belongs to a cluster of the published snapshot
  that was scraped. Properties that need the composition of configuration, reload, collection,
  snapshot and export.
\<close>

section \<open>The clusters of the loops\<close>

definition pool_clusters :: "('n, 's, 'e) Outside \<Rightarrow> ('n, 's, 'e) pool \<Rightarrow> string list" where
  "pool_clusters ou pool = map (ops_Name (any_ops ou) \<circ> fst) pool"

definition configured :: "SafeConfig \<Rightarrow> string list" where
  "configured sc = map cc_Name (cf_Clusters (sc_C sc))"

text \<open>The loop the server would cancel collects the configured clusters and has not been stopped.\<close>

definition live_loop_ok :: "('n, 's, 'e) Outside \<Rightarrow> ('n, 's, 'e) Server \<Rightarrow> bool" where
  "live_loop_ok ou s \<longleftrightarrow>
     (case sr_cancel s of
        None \<Rightarrow> True
      | Some k \<Rightarrow> k < length (sr_loops s) \<and> \<not> lp_cancelled (sr_loops s ! k)
          \<and> pool_clusters ou (lp_pool (sr_loops s ! k)) = configured (sr_cfg s))"

definition loop_ok :: "('n, 's, 'e) Outside \<Rightarrow> ('n, 's, 'e) Loop \<Rightarrow> bool" where
  "loop_ok ou l \<longleftrightarrow> distinct (pool_clusters ou (lp_pool l)) \<and> (lp_phase l = Stopped \<longrightarrow> lp_cancelled l)"

definition clusters_ok :: "('n, 's, 'e) Outside \<Rightarrow> ('n, 's, 'e) Server \<Rightarrow> bool" where
  "clusters_ok ou s \<longleftrightarrow> distinct (configured (sr_cfg s)) \<and> list_all (loop_ok ou) (sr_loops s) \<and> live_loop_ok ou s"

text \<open>A snapshot of scrapes of different clusters.\<close>

definition own_snapshot :: "('n, 's, 'e) Outside \<Rightarrow> 'e client_error Snapshot \<Rightarrow> bool" where
  "own_snapshot ou snap \<longleftrightarrow>
     (\<exists>ord i ords d pool. is_order ord \<and> distinct (pool_clusters ou pool)
        \<and> snap = BuildSnapshot (ord i) (map (\<lambda>(cs, c, w). Some cs) (scrape_all (any_ops ou) ords (clock ou) d pool)))"

lemma scrape_client:
  "ops_Name (any_ops ou) (fst (snd (scrape (any_ops ou) ord now d cw))) = ops_Name (any_ops ou) (fst cw)"
proof -
  obtain cs c' w' h' where r: "collectCluster (any_ops ou) ord now d (fst cw) (snd cw) \<lparr>ex_seen = [], ex_log = []\<rparr> = (cs, c', w', h')"
    by (metis prod_cases4)
  from any.collect_outcome(2) [OF r] show ?thesis by (simp add: scrape_def r)
qed

lemma collectAll_clusters:
  assumes "collectAll (any_ops ou) ords now d o1 pool h snap pool' h'"
  shows "pool_clusters ou pool' = pool_clusters ou pool"
  using collectAll_result [OF assms]
  by (auto simp: pool_clusters_def scrape_all_def scrape_client comp_def intro: nth_equalityI)

lemma collectAll_keys:
  assumes "collectAll (any_ops ou) ords now d o1 pool h snap pool' h'"
  shows "set (map_keys (sh_PerCluster snap)) = set (pool_clusters ou pool)"
  using collectAll_result [OF assms] scrape_all_names [of ou ords now d pool]
  by (simp only: per_cluster_keys pool_clusters_def)

lemma collectAll_own:
  assumes "collectAll (any_ops ou) ords (clock ou) d (ord i) pool h snap pool' h'" and "is_order ord"
    and "distinct (pool_clusters ou pool)"
  shows "own_snapshot ou snap"
  using collectAll_result [OF assms(1)] assms(2,3) unfolding own_snapshot_def by blast

lemma clusters_ok_start:
  assumes "startCollection ou dumpDir tr False s s'" and "distinct (configured (sr_cfg s))"
    and "list_all (loop_ok ou) (sr_loops s)"
  shows "clusters_ok ou s' \<and> own_snapshot ou (Load (sr_store s'))"
  using assms(1)
proof cases
  case (start cfg ws ords ord snap pool' h')
  let ?pool = "buildClients ou False dumpDir tr cfg ws"
  have names: "pool_clusters ou ?pool = configured (sr_cfg s)"
    using pool_names [OF start(3)] start(2) by (simp add: pool_clusters_def configured_def)
  moreover have "own_snapshot ou snap"
    using collectAll_own [where ord = ord and i = 0, OF start(5)] start(4) assms(2) names by (simp add: all_orders_def)
  ultimately show ?thesis
    using collectAll_clusters [OF start(5)] assms(2,3)
    by (simp add: start(1) clusters_ok_def live_loop_ok_def loop_ok_def new_loop_def nth_append)
qed

lemma reload_configured:
  assumes "ReloadConfig decode fs sc path = (sc', r)" and "distinct (configured sc)"
  shows "distinct (configured sc')" and "r \<noteq> Inr True \<Longrightarrow> configured sc' = configured sc"
proof -
  show "r \<noteq> Inr True \<Longrightarrow> configured sc' = configured sc"
    using assms(1) by (auto simp: ReloadConfig_def configured_def split: sum.splits)
  show "distinct (configured sc')"
  proof (cases "load_config decode fs (sc_resolver sc) path")
    case (Inl e)
    with assms show ?thesis by (simp add: ReloadConfig_def)
  next
    case (Inr c)
    with load_config_valid [OF this] assms(1) show ?thesis
      by (auto simp: ReloadConfig_def configured_def valid_config_def)
  qed
qed

lemma clusters_ok_frame:
  "clusters_ok ou (initOTLP g s) = clusters_ok ou s" "clusters_ok ou (reload_instruments g s) = clusters_ok ou s"
  "clusters_ok ou (s\<lparr>sr_store := st, sr_loops := ls\<rparr>) = clusters_ok ou (s\<lparr>sr_loops := ls\<rparr>)"
  "clusters_ok ou (s\<lparr>sr_restart := r\<rparr>) = clusters_ok ou s"
  by (simp_all add: clusters_ok_def live_loop_ok_def initOTLP_def reload_instruments_def split: option.split prod.split)

text \<open>A step of one loop that keeps its clusters and its cancellation keeps the invariant.\<close>

lemma clusters_ok_loop:
  assumes "clusters_ok ou s" and "loop_ok ou l" and "lp_cancelled l = lp_cancelled (sr_loops s ! i)"
    and "pool_clusters ou (lp_pool l) = pool_clusters ou (lp_pool (sr_loops s ! i))"
  shows "clusters_ok ou (s\<lparr>sr_loops := (sr_loops s)[i := l]\<rparr>)"
  using assms
  by (cases "i < length (sr_loops s)")
    (auto simp: clusters_ok_def live_loop_ok_def list_all_iff nth_list_update dest!: set_update_subset_insert [THEN subsetD]
      split: option.splits)

lemma reachable_clusters_ok:
  assumes "reachable ou dumpDir tr sdk sc s" and "distinct (configured sc)"
  shows "clusters_ok ou s \<and> own_snapshot ou (Load (sr_store s))"
  using assms(1)
proof (induction rule: reachable.induct)
  case (started ord s)
  from clusters_ok_start [OF started(2)] assms(2) show ?case by (simp add: NewServer_def clusters_ok_frame)
next
  case (moved s s')
  then have ok: "clusters_ok ou s" and own: "own_snapshot ou (Load (sr_store s))" by simp_all
  have loop: "loop_ok ou (sr_loops s ! i)" if "i < length (sr_loops s)" for i
    using ok that by (simp add: clusters_ok_def list_all_length)
  from moved.hyps(2) show ?case
  proof (cases rule: server_step.cases)
    case (tick i)
    then show ?thesis using own loop [of i] clusters_ok_loop [OF ok] by (simp add: loop_ok_def)
  next
    case (stop i)
    then show ?thesis using own loop [of i] clusters_ok_loop [OF ok] by (simp add: loop_ok_def)
  next
    case (publish i d ords ord snap pool' h')
    have "distinct (pool_clusters ou (lp_pool (sr_loops s ! i)))" using loop publish(2) by (simp add: loop_ok_def)
    moreover have "is_order ord" using publish(5) by (simp add: all_orders_def)
    ultimately have "own_snapshot ou snap" using collectAll_own [where ord = ord and i = 0, OF publish(6)] by simp
    moreover have "clusters_ok ou (s\<lparr>sr_loops := (sr_loops s)
        [i := (sr_loops s ! i)\<lparr>lp_phase := Waiting, lp_pool := pool', lp_hw := h'\<rparr>]\<rparr>)"
      using loop [OF publish(2)] collectAll_clusters [OF publish(6)]
      by (intro clusters_ok_loop [OF ok]) (simp_all add: loop_ok_def)
    ultimately show ?thesis by (simp add: publish(1) clusters_ok_frame)
  next
    case (reload_error decode fs path sc' e)
    then show ?thesis using ok own reload_configured [OF reload_error(3)]
      by (simp add: clusters_ok_def live_loop_ok_def split: option.splits)
  next
    case (reload_same decode fs path sc')
    then show ?thesis using ok own reload_configured [OF reload_same(3)]
      by (simp add: clusters_ok_def live_loop_ok_def split: option.splits)
  next
    case (reload_stop decode fs path sc')
    have "distinct (configured sc')" using ok reload_configured(1) [OF reload_stop(3)] by (simp add: clusters_ok_def)
    then show ?thesis using ok own reload_stop(1)
      by (auto simp: clusters_ok_def live_loop_ok_def stopCollection_def loop_ok_def list_all_iff split: option.splits
          dest!: set_update_subset_insert [THEN subsetD])
  next
    case (reload_start s1)
    have "clusters_ok ou s1 \<and> own_snapshot ou (Load (sr_store s1))"
      using ok by (intro clusters_ok_start [OF reload_start(3)]) (simp_all add: clusters_ok_def)
    then show ?thesis by (simp add: reload_start(1) clusters_ok_frame)
  qed
qed

section \<open>The series of the page\<close>

lemma find_key_distinct: "distinct (map f xs) \<Longrightarrow> x \<in> set xs \<Longrightarrow> find (\<lambda>y. f y = f x) xs = Some x"
  by (induction xs) (auto simp: image_iff)

lemma scraped_cluster:
  assumes "distinct (pool_clusters ou pool)"
    and "Some cs \<in> set (map (\<lambda>(cs, c, w). Some cs) (scrape_all (any_ops ou) ords now d pool))" (is "_ \<in> set ?rs")
  shows "map_of (sh_PerCluster (BuildSnapshot o1 ?rs)) (cs_Cluster cs) = Some cs"
proof -
  let ?cs = "map fst (scrape_all (any_ops ou) ords now d pool)"
  have id: "List.map_filter id ?rs = ?cs" by (simp add: map_filter_def comp_def case_prod_beta)
  have "map cs_Cluster ?cs = pool_clusters ou pool"
    using scrape_all_names [of ou ords now d pool] by (simp add: pool_clusters_def comp_def split_def)
  then have "distinct (map cs_Cluster (rev ?cs))" using assms(1) by (simp flip: rev_map)
  moreover have "cs \<in> set (rev ?cs)" using assms(2) by force
  ultimately have "find (\<lambda>c. cs_Cluster c = cs_Cluster cs) (rev ?cs) = Some cs" by (rule find_key_distinct)
  then show ?thesis by (simp add: BuildSnapshot_sel per_cluster_lookup id)
qed

text \<open>A sample of a scrape carries the name of its cluster, which is up.\<close>

definition names_cluster :: "string \<Rightarrow> Sample \<Rightarrow> bool" where
  "names_cluster c s \<longleftrightarrow> sm_Labels s \<noteq> [] \<and> hd (sm_Labels s) = label ''cluster'' c"

lemma built_names: "s \<in> set (BuildSamples ord cn ivt st) \<Longrightarrow> names_cluster cn s"
proof (cases ivt)
  case (Some iv)
  assume "s \<in> set (BuildSamples ord cn ivt st)"
  moreover have "list_all (of_cluster cn (ci_GUID (iv_Cluster iv))) (BuildSamples ord cn ivt st)"
    by (simp add: Some BuildSamples_def builders_of_cluster Let_def)
  ultimately have "take 2 (sm_Labels s) = baseLabels cn (ci_GUID (iv_Cluster iv))"
    by (auto simp: list_all_iff of_cluster_def)
  then show ?thesis by (cases "sm_Labels s") (auto simp: baseLabels_def names_cluster_def)
qed (simp add: BuildSamples_def)

lemma scrape_sample:
  assumes "s \<in> set (cs_Samples (fst (scrape (any_ops ou) ord now d cw)))"
  shows "cs_Up (fst (scrape (any_ops ou) ord now d cw))
    \<and> names_cluster (cs_Cluster (fst (scrape (any_ops ou) ord now d cw))) s"
proof -
  let ?ops = "any_ops ou"
  obtain c w where cw: "cw = (c, w)" by (cases cw)
  obtain v c1 w1 where v: "ops_APIVersion ?ops d c w = (v, c1, w1)" by (metis prod_cases3)
  obtain i c2 w2 where i: "ops_GetInventory ?ops d c1 w1 = (i, c2, w2)" by (metis prod_cases3)
  obtain st c3 w3 where st: "ops_GetStatistics ?ops d c2 w2 = (st, c3, w3)" by (metis prod_cases3)
  have names: "ops_Name ?ops c3 = ops_Name ?ops c"
    using any.version_name [OF v] any.inventory_name [OF i] any.statistics_name [OF st] by simp
  from assms show ?thesis
    by (auto simp: cw scrape_phases v i st end_inventory_def end_statistics_def new_snapshot_def names Let_def
        dest: built_names split: sum.splits)
qed

lemma snapshot_sample:
  assumes "own_snapshot ou snap" and "s \<in> set (SamplesByName snap n)"
  shows "conforms s \<and> sm_Name s = n \<and> (\<exists>c cs. map_of (sh_PerCluster snap) c = Some cs \<and> cs_Up cs \<and> names_cluster c s)"
proof -
  obtain ord i ords d pool where pool: "distinct (pool_clusters ou pool)"
    and snap: "snap = BuildSnapshot (ord i) (map (\<lambda>(cs, c, w). Some cs) (scrape_all (any_ops ou) ords (clock ou) d pool))"
    (is "_ = BuildSnapshot _ ?rs")
    using assms(1) unfolding own_snapshot_def by blast
  have s: "s \<in> set (all_samples ?rs)" "sm_Name s = n" using assms(2) unfolding snap SamplesByName_Build by simp_all
  then obtain j where j: "j < length pool" "s \<in> set (cs_Samples (fst (scrape (any_ops ou) (ords j) (clock ou) d (pool ! j))))"
    unfolding all_samples_Some by (auto simp: scrape_all_def case_prod_beta)
  let ?cs = "fst (scrape (any_ops ou) (ords j) (clock ou) d (pool ! j))"
  have "Some ?cs \<in> set ?rs" using j(1) by (force simp: scrape_all_def case_prod_beta)
  from scraped_cluster [OF pool this, of "ord i"] have "map_of (sh_PerCluster snap) (cs_Cluster ?cs) = Some ?cs"
    by (simp only: snap)
  moreover have "conforms s" using bspec [OF scrape_all_conform [unfolded list_all_iff] s(1)] .
  ultimately show ?thesis using scrape_sample [OF j(2)] s(2) by blast
qed

text \<open>C5: No series without a scrape: in every reachable state each series of the metrics page, other than
  the build information, names in its \<open>cluster\<close> label a cluster of the published snapshot, and a
  series that is not one of the health metrics names a cluster the page reports as up. So a cluster
  that is down or was removed has no data on the page.\<close>

theorem series_attributed:
  assumes "reachable ou dumpDir tr sdk sc s" and "distinct (configured sc)" and "is_order ord"
    and "metrics_page ok (ord j) ver goversion (Load (sr_store s)) = Some page"
    and "m \<in> set page" and "mt_Name m \<noteq> ''pscale_exporter_build_info''"
  shows "\<exists>c. map_of (mt_Labels m) ''cluster'' = Some c \<and> c \<in> set (map_keys (sh_PerCluster (Load (sr_store s))))
    \<and> (mt_Name m \<notin> set health_names \<longrightarrow> const_metric ''powerscale_up'' [''cluster''] [c] 1 \<in> set page)"
proof -
  let ?snap = "Load (sr_store s)"
  obtain ms where ms: "Collect ok (ord j) ?snap = Some ms" and page: "page = ms @ [NewBuildInfoCollector ver goversion]"
    using assms(4) by (auto simp: metrics_page_def)
  have own: "own_snapshot ou ?snap" using reachable_clusters_ok [OF assms(1,2)] by blast
  have wf: "wf_map (sh_PerCluster ?snap)" using own by (auto simp: own_snapshot_def BuildSnapshot_sel wf_per_cluster)
  note parts = Collect_Some [OF ms]
  have range: "set (range_map (ord j) (sh_PerCluster ?snap)) = set (sh_PerCluster ?snap)"
    by (rule set_range_map [OF assms(3) wf])
  have up: "const_metric ''powerscale_up'' [''cluster''] [c] 1 \<in> set page"
    if "map_of (sh_PerCluster ?snap) c = Some cs" "cs_Up cs" for c cs
  proof -
    have "(c, cs) \<in> set (range_map (ord j) (sh_PerCluster ?snap))" using that(1) range by (simp add: map_of_SomeD)
    moreover have "const_metric ''powerscale_up'' [''cluster''] [c] 1 \<in> set (health_metrics (c, cs))"
      using that(2) by (simp add: health_metrics_def health_requests_def)
    ultimately show ?thesis unfolding page parts by auto
  qed
  have "m \<in> set ms" using assms(5,6) page by (auto simp: NewBuildInfoCollector_def)
  then consider (health) p where "p \<in> set (range_map (ord j) (sh_PerCluster ?snap))" "m \<in> set (health_metrics p)"
    | (data) n where "m \<in> set (emit_name ok ?snap n)"
    unfolding parts by auto
  then show ?thesis
  proof cases
    case health
    then have "fst p \<in> set (map_keys (sh_PerCluster ?snap))" using range by (auto simp: map_keys_def)
    with health_metrics_facts [OF health(2)] show ?thesis by auto
  next
    case data
    then obtain s1 ss where ss: "SamplesByName ?snap n = s1 # ss"
      using emit_name_mem(2) [OF data] by (cases "SamplesByName ?snap n") auto
    then have "m \<in> set (emit_samples ok n (sampleLabelNames s1) [] (s1 # ss))" using data by (simp add: emit_name_def)
    from emit_samples_new [OF this] obtain x where x: "x \<in> set (SamplesByName ?snap n)"
      and m: "m = const_metric n (sampleLabelNames s1) (sampleLabelValues x) (sm_Value x)" unfolding ss by blast
    from snapshot_sample [OF own x] obtain c cs where c: "map_of (sh_PerCluster ?snap) c = Some cs" "cs_Up cs"
      "names_cluster c x" "conforms x" "sm_Name x = n" by blast
    moreover have "conforms s1" "sm_Name s1 = n" using snapshot_sample [OF own, of s1 n] ss by simp_all
    ultimately have "mt_Labels m = zip (sampleLabelNames x) (sampleLabelValues x)"
      using conforms_labels [of s1 x] by (simp add: m const_metric_def)
    then have "map_of (mt_Labels m) ''cluster'' = Some c"
      using c(3) by (cases "sm_Labels x") (auto simp: names_cluster_def sampleLabelNames_def sampleLabelValues_def)
    moreover have "c \<in> set (map_keys (sh_PerCluster ?snap))" using c(1) by (auto simp: set_map_keys)
    ultimately show ?thesis using up [OF c(1,2)] by blast
  qed
qed

theorem series_attributed_witness:
  "\<exists>s page m. reachable example_outside [] False example_sdk example_safe s
     \<and> metrics_page same_length (id_order 0) ''1.0'' ''go1.27'' (Load (sr_store s)) = Some page
     \<and> m \<in> set page \<and> mt_Name m = ''powerscale_up'' \<and> (\<exists>c. map_of (mt_Labels m) ''cluster'' = Some c
         \<and> c \<in> set (map_keys (sh_PerCluster (Load (sr_store s)))))"
proof -
  obtain s where s: "reachable example_outside [] False example_sdk example_safe s"
    "Load (sr_store s) = BuildSnapshot id [Some (down_snapshot ''lab'')]"
    using example_reachable by blast
  have "map_option (map mt_Name) (Collect same_length (id_order 0) (BuildSnapshot id [Some (down_snapshot ''lab'')]))
      = Some [''powerscale_up'']" by code_simp
  then obtain m where "Collect same_length (id_order 0) (Load (sr_store s)) = Some [m]" and m: "mt_Name m = ''powerscale_up''"
    by (auto simp: s(2))
  then obtain page where page: "metrics_page same_length (id_order 0) ''1.0'' ''go1.27'' (Load (sr_store s)) = Some page" "m \<in> set page"
    by (auto simp: metrics_page_def)
  have "distinct (configured example_safe)" by code_simp
  with series_attributed [OF s(1) _ is_order_id page] m s(1) page show ?thesis by auto
qed

text \<open>C6: The exporter collects what is configured: in every reachable state the names of the
  configured clusters are distinct, the loop that runs collects exactly them, and when that loop ends
  a cycle the snapshot it publishes is of exactly the configured clusters.\<close>

theorem live_loop_current:
  assumes "reachable ou dumpDir tr sdk sc s" and "distinct (configured sc)" and "sr_cancel s = Some k"
  shows "distinct (configured (sr_cfg s))
    \<and> pool_clusters ou (lp_pool (sr_loops s ! k)) = configured (sr_cfg s)
    \<and> (\<forall>s'. server_step ou dumpDir tr sdk s s' \<longrightarrow> lp_phase (sr_loops s ! k) = Collecting \<longrightarrow>
        lp_phase (sr_loops s' ! k) = Waiting \<longrightarrow>
        set (map_keys (sh_PerCluster (Load (sr_store s')))) = set (configured (sr_cfg s')))"
proof (intro conjI allI impI)
  have ok: "clusters_ok ou s" using reachable_clusters_ok [OF assms(1,2)] by blast
  then show "distinct (configured (sr_cfg s))" by (simp add: clusters_ok_def)
  show names: "pool_clusters ou (lp_pool (sr_loops s ! k)) = configured (sr_cfg s)"
    using ok assms(3) by (simp add: clusters_ok_def live_loop_ok_def)
  have k: "k < length (sr_loops s)" and restart: "\<not> sr_restart s"
    using reachable_loops_ok [OF assms(1)] assms(3) by (simp_all add: loops_ok_def live_ok_def)
  fix s' assume step: "server_step ou dumpDir tr sdk s s'" and ph: "lp_phase (sr_loops s ! k) = Collecting"
    "lp_phase (sr_loops s' ! k) = Waiting"
  from step show "set (map_keys (sh_PerCluster (Load (sr_store s')))) = set (configured (sr_cfg s'))"
  proof (cases rule: server_step.cases)
    case (publish i d ords ord snap pool' h')
    then have "i = k" using ph k by (auto simp: nth_list_update split: if_splits)
    then show ?thesis using publish(1) collectAll_keys [OF publish(6)] names by simp
  qed (use ph k restart assms(3) in \<open>auto simp: nth_list_update stopCollection_def split: if_splits\<close>)
qed

theorem live_loop_current_witness:
  "\<exists>s. reachable example_outside [] False example_sdk example_safe s \<and> sr_cancel s = Some 0
     \<and> pool_clusters example_outside (lp_pool (sr_loops s ! 0)) = [''lab'']"
proof -
  obtain s where s: "reachable example_outside [] False example_sdk example_safe s" "sr_cfg s = example_safe" "sr_cancel s = Some 0"
    using example_first_state by blast
  have "configured example_safe = [''lab'']" by code_simp
  with live_loop_current [OF s(1) _ s(3)] s show ?thesis by auto
qed

text \<open>C23: A stale snapshot heals: from every reachable state in which a loop runs that did not panic on its
  period, a cycle of that loop can end, which leaves the configuration as it is and the snapshot with
  exactly the configured clusters.\<close>

theorem stale_snapshot_heals:
  assumes "reachable ou dumpDir tr sdk sc s" and "distinct (configured sc)" and "sr_cancel s = Some k"
    and "lp_phase (sr_loops s ! k) \<noteq> Panicked"
  shows "\<exists>s'. (server_step ou dumpDir tr sdk)\<^sup>*\<^sup>* s s' \<and> sr_cfg s' = sr_cfg s
    \<and> set (map_keys (sh_PerCluster (Load (sr_store s')))) = set (configured (sr_cfg s'))"
proof -
  have ok: "clusters_ok ou s" using reachable_clusters_ok [OF assms(1,2)] by blast
  then have k: "k < length (sr_loops s)" "\<not> lp_cancelled (sr_loops s ! k)" "loop_ok ou (sr_loops s ! k)"
    and names: "pool_clusters ou (lp_pool (sr_loops s ! k)) = configured (sr_cfg s)"
    using assms(3) by (auto simp: clusters_ok_def live_loop_ok_def list_all_length)
  have cycle: "\<exists>s'. server_step ou dumpDir tr sdk t s' \<and> sr_cfg s' = sr_cfg s
      \<and> set (map_keys (sh_PerCluster (Load (sr_store s')))) = set (configured (sr_cfg s'))"
    if t: "k < length (sr_loops t)" "lp_phase (sr_loops t ! k) = Collecting" "sr_cfg t = sr_cfg s"
      "lp_pool (sr_loops t ! k) = lp_pool (sr_loops s ! k)" for t
  proof -
    obtain snap pool' h' where c: "collectAll (any_ops ou) (\<lambda>_. id_order) (clock ou) False (id_order 0)
        (lp_pool (sr_loops t ! k)) (lp_hw (sr_loops t ! k)) snap pool' h'"
      using collectAll_total by metis
    let ?t = "t\<lparr>sr_store := Store (sr_store t) snap,
        sr_loops := (sr_loops t)[k := (sr_loops t ! k)\<lparr>lp_phase := Waiting, lp_pool := pool', lp_hw := h'\<rparr>]\<rparr>"
    have "server_step ou dumpDir tr sdk t ?t" by (rule server_step.publish [OF t(1,2) _ some_orders c]) simp
    with collectAll_keys [OF c] names t(3,4) show ?thesis by (intro exI [of _ ?t]) simp
  qed
  show ?thesis
  proof (cases "lp_phase (sr_loops s ! k)")
    case Waiting
    let ?t = "s\<lparr>sr_loops := (sr_loops s)[k := (sr_loops s ! k)\<lparr>lp_phase := Collecting\<rparr>]\<rparr>"
    have "server_step ou dumpDir tr sdk s ?t" by (rule server_step.tick [OF k(1) Waiting])
    moreover obtain s' where "server_step ou dumpDir tr sdk ?t s'" "sr_cfg s' = sr_cfg s"
      "set (map_keys (sh_PerCluster (Load (sr_store s')))) = set (configured (sr_cfg s'))"
      using cycle [of ?t] k(1) by auto
    ultimately show ?thesis by (meson converse_rtranclp_into_rtranclp r_into_rtranclp)
  next
    case Collecting
    with cycle [of s] k(1) show ?thesis by blast
  next
    case Stopped
    with k(2,3) show ?thesis by (simp add: loop_ok_def)
  qed (use assms(4) in simp)
qed

theorem stale_snapshot_heals_witness:
  "\<exists>s s'. reachable example_outside [] False example_sdk example_safe s
     \<and> (server_step example_outside [] False example_sdk)\<^sup>*\<^sup>* s s'
     \<and> set (map_keys (sh_PerCluster (Load (sr_store s')))) = {''lab''}"
proof -
  obtain s h where s: "reachable example_outside [] False example_sdk example_safe s" "sr_cfg s = example_safe"
    "sr_loops s = [new_loop (SetDefaults example_config) (map example_lazy (cf_Clusters (SetDefaults example_config))) h]"
    "sr_cancel s = Some 0"
    using example_first_state by blast
  have names: "configured example_safe = [''lab'']" by code_simp
  have "GetCollectionInterval (SetDefaults example_config) > 0" by code_simp
  then have "lp_phase (sr_loops s ! 0) \<noteq> Panicked" by (simp add: s(3) new_loop_def)
  with stale_snapshot_heals [OF s(1) _ s(4)] names obtain s' where
    "(server_step example_outside [] False example_sdk)\<^sup>*\<^sup>* s s'" "sr_cfg s' = sr_cfg s"
    "set (map_keys (sh_PerCluster (Load (sr_store s')))) = set (configured (sr_cfg s'))"
    by auto
  with s(1,2) names show ?thesis by (intro exI [of _ s] exI [of _ s']) simp
qed

end
