(* ===== verification/GoFormat.thy ===== *)
theory GoFormat
  imports GoFloat GoJsonText
begin

text \<open>
  What the program prints with \<open>fmt\<close>: \<open>%v\<close> of a \<open>float64\<close>, the shortest decimal that
  \<open>strconv.ParseFloat\<close> reads back as the same double, and \<open>%q\<close> of a string. Both read back.
\<close>

section \<open>Powers of ten and the decimal exponent\<close>

definition pow10 :: "int \<Rightarrow> rat" where
  "pow10 e = (if 0 \<le> e then 10 ^ nat e else 1 / 10 ^ nat (- e))"

lemma pow10_powi: "pow10 e = 10 powi e"
  by (simp add: pow10_def power_int_def field_simps)

lemma pow10_pos [simp]: "0 < pow10 e"
  by (simp add: pow10_def)

lemma pow10_nonzero [simp]: "pow10 e \<noteq> 0"
  using pow10_pos [of e] by linarith

lemma pow10_add: "pow10 (a + b) = pow10 a * pow10 b"
  by (simp add: pow10_powi power_int_add)

lemma pow10_nat [simp]: "pow10 (int n) = 10 ^ n"
  by (simp add: pow10_def)

lemma pow10_strict_mono: "a < b \<Longrightarrow> pow10 a < pow10 b"
  by (simp add: pow10_powi power_int_strict_increasing)

lemma pow10_less_iff [simp]: "pow10 a < pow10 b \<longleftrightarrow> a < b"
  using pow10_strict_mono [of a b] pow10_strict_mono [of b a] by (cases a b rule: linorder_cases) auto

lemma pow10_le_iff [simp]: "pow10 a \<le> pow10 b \<longleftrightarrow> a \<le> b"
  by (simp add: not_less [symmetric])

lemma nat_digits_bounds: "0 < n \<Longrightarrow> 10 ^ (length (nat_digits n) - 1) \<le> n \<and> n < 10 ^ length (nat_digits n)"
proof (induction n rule: nat_digits.induct)
  case (1 n)
  show ?case
  proof (cases "n < 10")
    case True
    with "1.prems" show ?thesis by (simp add: nat_digits.simps [of n])
  next
    case False
    let ?l = "length (nat_digits (n div 10))"
    have ih: "10 ^ (?l - 1) \<le> n div 10" "n div 10 < 10 ^ ?l" using False "1.IH" by simp_all
    have "0 < ?l" using nat_digits_props [of "n div 10"] False by simp
    then have p: "(10::int) ^ ?l = 10 * 10 ^ (?l - 1)" by (simp add: power_eq_if)
    have "10 * 10 ^ (?l - 1) \<le> n" using ih(1) by linarith
    moreover have "n < 10 * 10 ^ ?l" using ih(2) by linarith
    moreover have "length (nat_digits n) = Suc ?l" using False by (simp add: nat_digits.simps [of n])
    ultimately show ?thesis unfolding p by (simp only: diff_Suc_1 power_Suc p)
  qed
qed

text \<open>The exponent of the leading decimal digit of a positive rational.\<close>

definition ilog10 :: "rat \<Rightarrow> int" where
  "ilog10 x =
     (let (p, q) = quotient_of x; l = int (length (nat_digits p)) - int (length (nat_digits q))
      in if pow10 l \<le> x then l else l - 1)"

lemma digits_of_int:
  assumes "0 < p"
  shows "pow10 (int (length (nat_digits p)) - 1) \<le> of_int p" and "of_int p < pow10 (int (length (nat_digits p)))"
proof -
  let ?l = "length (nat_digits p)"
  have l: "0 < ?l" using nat_digits_props [of p] assms by simp
  have "(of_int (10 ^ (?l - 1)) :: rat) \<le> of_int p" "(of_int p :: rat) < of_int (10 ^ ?l)"
    using nat_digits_bounds [OF assms] by (simp_all only: of_int_le_iff of_int_less_iff)
  moreover have "int ?l - 1 = int (?l - 1)" using l by linarith
  ultimately show "pow10 (int ?l - 1) \<le> of_int p" and "of_int p < pow10 (int ?l)"
    by (simp_all only: pow10_nat of_int_power of_int_numeral)
qed

lemma ilog10_bounds:
  assumes "0 < x"
  shows "pow10 (ilog10 x) \<le> x" and "x < pow10 (ilog10 x + 1)"
proof -
  obtain p q where pq: "quotient_of x = (p, q)" by force
  then have q: "0 < q" by (rule quotient_of_denom_pos)
  have x: "x = of_int p / of_int q" by (rule quotient_of_div [OF pq])
  have p: "0 < p" using assms q unfolding x by (simp add: zero_less_divide_iff)
  let ?a = "int (length (nat_digits p))" and ?b = "int (length (nat_digits q))"
  have "x < pow10 ?a / pow10 (?b - 1)"
    unfolding x using digits_of_int [OF p] digits_of_int [OF q] p q by (intro frac_less) simp_all
  also have "\<dots> = pow10 (?a - ?b + 1)"
    by (simp add: pow10_powi power_int_diff power_int_add)
  finally have up: "x < pow10 (?a - ?b + 1)" .
  have "pow10 (?a - ?b - 1) = pow10 (?a - 1) / pow10 ?b"
    by (simp add: pow10_powi power_int_diff)
  also have "\<dots> \<le> x"
    unfolding x using digits_of_int [OF p] digits_of_int [OF q] p q by (intro frac_le) auto
  finally have lo: "pow10 (?a - ?b - 1) \<le> x" .
  show "pow10 (ilog10 x) \<le> x" and "x < pow10 (ilog10 x + 1)"
    using up lo by (auto simp: ilog10_def pq Let_def)
qed

section \<open>The shortest decimal\<close>

text \<open>The multiples of \<open>s\<close> next to \<open>x\<close>, the nearer one first.\<close>

definition candidates :: "rat \<Rightarrow> rat \<Rightarrow> int list" where
  "candidates x s = (let c = round_even (x / s) in [c, if of_int c \<le> x / s then c + 1 else c - 1])"

text \<open>A decimal of at most \<open>n\<close> digits that rounds to \<open>x\<close>; 17 digits are always enough.\<close>

definition unit_at :: "nat \<Rightarrow> rat \<Rightarrow> rat" where
  "unit_at n x = pow10 (ilog10 x - int n + 1)"

definition decimal_at :: "nat \<Rightarrow> rat \<Rightarrow> int option" where
  "decimal_at n x = find (\<lambda>c. rnd_mag (of_int c * unit_at n x) = x) (candidates x (unit_at n x))"

fun shortest_from :: "nat \<Rightarrow> nat \<Rightarrow> rat \<Rightarrow> int \<times> nat" where
  "shortest_from 0 n x = (round_even (x / unit_at n x), n)"
| "shortest_from (Suc k) n x = (case decimal_at n x of Some c \<Rightarrow> (c, n) | None \<Rightarrow> shortest_from k (Suc n) x)"

definition shortest :: "rat \<Rightarrow> int \<times> nat" where
  "shortest x = shortest_from 16 1 x"

text \<open>Two doubles differ by at least \<open>2 ^ -53\<close> of the larger one.\<close>

lemma doubles_apart:
  assumes "is_double a" and "is_double b" and "a < b"
  shows "b \<le> (b - a) * 2 ^ 53"
proof -
  obtain m e where a: "a = of_int m * pow2 e" "m < 2 ^ 53" using assms(1) unfolding is_double_def by blast
  obtain n f where b: "b = of_int n * pow2 f" "n < 2 ^ 53" using assms(2) unfolding is_double_def by blast
  have below: "of_int k < (2 ^ 53 :: rat)" if "k < 2 ^ 53" for k
  proof -
    have "(of_int k :: rat) < of_int (2 ^ 53)" using that by (simp only: of_int_less_iff)
    then show ?thesis by simp
  qed
  show ?thesis
  proof (cases "f \<le> e")
    case True
    then have "pow2 e = 2 ^ nat (e - f) * pow2 f" using pow2_add [of "e - f" f] by (simp add: pow2_def [of "e - f"])
    then have "a = of_int (m * 2 ^ nat (e - f)) * pow2 f" using a(1) by simp
    then have d: "b - a = of_int (n - m * 2 ^ nat (e - f)) * pow2 f" using b(1) by (simp add: algebra_simps)
    then have "0 < n - m * 2 ^ nat (e - f)" using assms(3)
      by (metis diff_gt_0_iff_gt of_int_0_less_iff pow2_pos zero_less_mult_pos2)
    then have "1 \<le> n - m * 2 ^ nat (e - f)" by linarith
    then have "(of_int 1 :: rat) \<le> of_int (n - m * 2 ^ nat (e - f))" by (simp only: of_int_le_iff)
    then have "pow2 f \<le> b - a" unfolding d using mult_right_mono [of "1 :: rat" _ "pow2 f"] by simp
    moreover have "b \<le> 2 ^ 53 * pow2 f" unfolding b(1) using below [OF b(2)] by (intro mult_right_mono) simp_all
    ultimately show ?thesis by simp
  next
    case False
    then have f: "pow2 f = 2 ^ nat (f - e) * pow2 e" using pow2_add [of "f - e" e] by (simp add: pow2_def [of "f - e"])
    have a_le: "a \<le> (2 ^ 53 - 1) * pow2 e"
    proof -
      have "m \<le> 2 ^ 53 - 1" using a(2) by simp
      then have "(of_int m :: rat) \<le> of_int (2 ^ 53 - 1)" by (simp only: of_int_le_iff)
      then show ?thesis unfolding a(1) by (intro mult_right_mono) simp_all
    qed
    show ?thesis
    proof (cases "b \<le> 2 ^ 53 * pow2 e")
      case True
      have "b = of_int (n * 2 ^ nat (f - e)) * pow2 e" using b(1) f by simp
      then have d: "b - a = of_int (n * 2 ^ nat (f - e) - m) * pow2 e" using a(1) by (simp add: algebra_simps)
      then have "0 < n * 2 ^ nat (f - e) - m" using assms(3)
        by (metis diff_gt_0_iff_gt of_int_0_less_iff pow2_pos zero_less_mult_pos2)
      then have "1 \<le> n * 2 ^ nat (f - e) - m" by linarith
      then have "(of_int 1 :: rat) \<le> of_int (n * 2 ^ nat (f - e) - m)" by (simp only: of_int_le_iff)
      then have "pow2 e \<le> b - a" unfolding d using mult_right_mono [of "1 :: rat" _ "pow2 e"] by simp
      with True show ?thesis by simp
    next
      case False
      with a_le show ?thesis by (simp add: algebra_simps)
    qed
  qed
qed

lemma seventeen_digits:
  assumes "is_double x" and "0 < x"
  shows "rnd_mag (of_int (round_even (x / unit_at 17 x)) * unit_at 17 x) = x"
proof -
  let ?s = "unit_at 17 x"
  let ?c = "round_even (x / ?s)"
  let ?d = "of_int ?c * ?s"
  have s: "0 < ?s" "?s = pow10 (ilog10 x - 16)" by (simp_all add: unit_at_def)
  have "pow10 (ilog10 x) = 10 ^ 16 * ?s" using pow10_add [of 16 "ilog10 x - 16"] by (simp add: s(2) pow10_def [of 16])
  then have small: "10 ^ 16 * ?s \<le> x" using ilog10_bounds(1) [OF assms(2)] by simp
  have "\<bar>of_int ?c - x / ?s\<bar> \<le> 1 / 2"
  proof -
    have "of_int \<lfloor>x / ?s\<rfloor> \<le> x / ?s" "x / ?s < of_int \<lfloor>x / ?s\<rfloor> + 1" by linarith+
    then show ?thesis
      using round_even_nearest [of "x / ?s" "\<lfloor>x / ?s\<rfloor>"] round_even_nearest [of "x / ?s" "\<lfloor>x / ?s\<rfloor> + 1"] by auto
  qed
  then have "\<bar>of_int ?c - x / ?s\<bar> * ?s \<le> 1 / 2 * ?s" using s(1) by (intro mult_right_mono) simp_all
  moreover have "\<bar>of_int ?c - x / ?s\<bar> * ?s = \<bar>?d - x\<bar>"
  proof -
    have "(of_int ?c - x / ?s) * ?s = ?d - x" using s(1) by (simp add: left_diff_distrib)
    then show ?thesis using s(1) by (metis abs_mult abs_of_pos)
  qed
  ultimately have near: "2 * \<bar>?d - x\<bar> \<le> ?s" by simp
  have "1 * ?s \<le> 10 ^ 16 * ?s" using s(1) by (intro mult_right_mono) simp_all
  with small have "?s \<le> x" by simp
  moreover have "0 < d" if "x - d \<le> a" "2 * a \<le> s" "s \<le> x" "0 < s" for d s a :: rat
    using that by linarith
  moreover have "x - ?d \<le> \<bar>?d - x\<bar>" using abs_ge_minus_self [of "?d - x"] by simp
  ultimately have pos: "0 < ?d" using near s(1) by blast
  let ?y = "rnd_mag ?d"
  have "\<bar>?y - ?d\<bar> \<le> \<bar>x - ?d\<bar>" by (rule rnd_mag_nearest [OF pos assms(1)])
  moreover have "\<bar>?y - x\<bar> \<le> \<bar>?y - ?d\<bar> + \<bar>?d - x\<bar>" using abs_triangle_ineq [of "?y - ?d" "?d - x"] by simp
  ultimately have close: "\<bar>?y - x\<bar> \<le> ?s" using near abs_minus_commute [of x ?d] by simp
  show ?thesis
  proof (rule ccontr)
    assume "?y \<noteq> x"
    then have "x \<le> \<bar>?y - x\<bar> * 2 ^ 53"
      using doubles_apart [OF is_double_rnd_mag assms(1), of ?d] doubles_apart [OF assms(1) is_double_rnd_mag, of ?d]
      by (cases "?y < x") auto
    also have "\<dots> \<le> ?s * 2 ^ 53" using close by (intro mult_right_mono) simp_all
    also have "\<dots> < 10 ^ 16 * ?s" using s(1) by simp
    finally show False using small by simp
  qed
qed

lemma shortest_rounds:
  assumes "is_double x" and "0 < x" and "shortest x = (c, n)"
  shows "rnd_mag (of_int c * unit_at n x) = x"
proof -
  have "rnd_mag (of_int c * unit_at n x) = x" if "shortest_from k m x = (c, n)" "m + k = 17" for k m
    using that
  proof (induction k arbitrary: m)
    case 0
    then show ?case using seventeen_digits [OF assms(1,2)] by auto
  next
    case (Suc k)
    show ?case
    proof (cases "decimal_at m x")
      case None
      with Suc show ?thesis by simp
    next
      case (Some c')
      then show ?thesis using Suc.prems by (auto simp: decimal_at_def dest: find_SomeD)
    qed
  qed
  with assms(3) show ?thesis by (simp add: shortest_def)
qed

text \<open>No decimal of fewer digits rounds to \<open>x\<close>: the result is the shortest there is.\<close>

lemma rnd_mag_mono:
  assumes "x \<le> y"
  shows "rnd_mag x \<le> rnd_mag y"
proof (cases "0 < x")
  case True
  show ?thesis
  proof (rule ccontr)
    assume less: "\<not> rnd_mag x \<le> rnd_mag y"
    have "\<bar>p - x\<bar> \<le> \<bar>q - x\<bar> \<Longrightarrow> \<bar>q - y\<bar> \<le> \<bar>p - y\<bar> \<Longrightarrow> q < p \<Longrightarrow> x \<le> y \<Longrightarrow> x = y" for p q :: rat
      by (simp add: abs_if split: if_splits)
    from this [OF rnd_mag_nearest [OF True is_double_rnd_mag] rnd_mag_nearest [OF _ is_double_rnd_mag]] less True assms
    have "x = y" by simp
    with less show False by simp
  qed
next
  case False
  then have "rnd_mag x = 0" by (simp add: rnd_mag_def)
  then show ?thesis by (simp add: rnd_mag_nonneg)
qed

lemma candidates_set: "set (candidates x s) = {\<lfloor>x / s\<rfloor>, \<lfloor>x / s\<rfloor> + 1}"
proof -
  let ?t = "x / s"
  have f: "of_int \<lfloor>?t\<rfloor> \<le> ?t" "?t < of_int \<lfloor>?t\<rfloor> + 1" by linarith+
  have "round_even ?t = \<lfloor>?t\<rfloor> \<or> round_even ?t = \<lfloor>?t\<rfloor> + 1" by (simp add: round_even_def Let_def)
  with f show ?thesis by (auto simp: candidates_def Let_def)
qed

lemma decimal_complete:
  assumes "is_double x" and "0 < x" and "rnd_mag (of_int m * pow10 k) = x" and "m < 10 ^ j" and "0 < j"
  shows "decimal_at j x \<noteq> None"
proof -
  let ?s = "unit_at j x" and ?e = "ilog10 x" and ?d = "of_int m * pow10 k"
  let ?lo = "\<lfloor>x / ?s\<rfloor>"
  have s: "0 < ?s" by (simp add: unit_at_def)
  have same: "rnd_mag x = x" by (rule rnd_mag_id [OF assms(1)])
  have lead: "pow10 ?e = of_int (10 ^ (j - 1)) * ?s"
  proof -
    have "?e = int (j - 1) + (?e - int j + 1)" using assms(5) by linarith
    then have "pow10 ?e = pow10 (int (j - 1)) * pow10 (?e - int j + 1)" by (metis pow10_add)
    then show ?thesis by (simp only: unit_at_def pow10_nat of_int_power of_int_numeral)
  qed
  have "pow10 ?e / ?s \<le> x / ?s" using ilog10_bounds(1) [OF assms(2)] s by (intro divide_right_mono) simp_all
  then have lead_lo: "10 ^ (j - 1) \<le> ?lo" unfolding lead using s by (simp add: le_floor_iff)
  have grid: "\<exists>M. ?d = of_int M * ?s" if "?e - int j + 1 \<le> k"
  proof -
    have "pow10 k = 10 ^ nat (k - (?e - int j + 1)) * ?s"
      using that pow10_add [of "k - (?e - int j + 1)" "?e - int j + 1"]
      by (simp add: unit_at_def pow10_def [of "k - (?e - int j + 1)"])
    then show ?thesis by (intro exI [of _ "m * 10 ^ nat (k - (?e - int j + 1))"]) simp
  qed
  have below: "?d < pow10 ?e" if "\<not> ?e - int j + 1 \<le> k"
  proof -
    have "(of_int m :: rat) < of_int (10 ^ j)" using assms(4) by (simp only: of_int_less_iff)
    then have "?d < 10 ^ j * pow10 k" by (intro mult_strict_right_mono) simp_all
    also have "\<dots> = pow10 (int j + k)" by (simp add: pow10_add)
    also have "\<dots> \<le> pow10 ?e" using that by simp
    finally show ?thesis .
  qed
  have "\<exists>c \<in> set (candidates x ?s). rnd_mag (of_int c * ?s) = x"
  proof (cases "?d \<le> x")
    case True
    have le: "of_int ?lo * ?s \<le> x" using s by (simp add: pos_le_divide_eq [symmetric])
    have "?d \<le> of_int ?lo * ?s"
    proof (cases "?e - int j + 1 \<le> k")
      case on: True
      then obtain M where M: "?d = of_int M * ?s" using grid by blast
      then have "of_int M \<le> x / ?s" using True s by (simp add: pos_le_divide_eq)
      then have "M \<le> ?lo" by (simp add: le_floor_iff)
      then have "(of_int M :: rat) \<le> of_int ?lo" by (simp only: of_int_le_iff)
      then show ?thesis unfolding M using s by (intro mult_right_mono) simp_all
    next
      case False
      have "(of_int (10 ^ (j - 1)) :: rat) \<le> of_int ?lo" using lead_lo by (simp only: of_int_le_iff)
      then have "of_int (10 ^ (j - 1)) * ?s \<le> of_int ?lo * ?s" using s by (intro mult_right_mono) simp_all
      with below [OF False] show ?thesis unfolding lead by simp
    qed
    from rnd_mag_mono [OF this] rnd_mag_mono [OF le] assms(3) same have "rnd_mag (of_int ?lo * ?s) = x" by simp
    then show ?thesis by (simp add: candidates_set)
  next
    case False
    have "?e - int j + 1 \<le> k"
    proof (rule ccontr)
      assume "\<not> ?e - int j + 1 \<le> k"
      from below [OF this] ilog10_bounds(1) [OF assms(2)] False show False by simp
    qed
    then obtain M where M: "?d = of_int M * ?s" using grid by blast
    have "x / ?s < of_int M" using False s M by (simp add: pos_divide_less_eq)
    then have "?lo + 1 \<le> M" by (simp add: floor_less_iff [symmetric])
    then have "(of_int (?lo + 1) :: rat) \<le> of_int M" by (simp only: of_int_le_iff)
    then have hi: "of_int (?lo + 1) * ?s \<le> ?d" unfolding M using s by (intro mult_right_mono) simp_all
    have "x / ?s \<le> of_int (?lo + 1)" by linarith
    then have "x \<le> of_int (?lo + 1) * ?s" using s by (simp add: pos_divide_le_eq)
    from rnd_mag_mono [OF this] rnd_mag_mono [OF hi] assms(3) same have "rnd_mag (of_int (?lo + 1) * ?s) = x" by simp
    then show ?thesis by (simp add: candidates_set)
  qed
  then show ?thesis by (auto simp: decimal_at_def find_None_iff)
qed

lemma shortest_least:
  assumes "is_double x" and "0 < x" and "shortest x = (c, n)"
    and "rnd_mag (of_int m * pow10 k) = x" and "m < 10 ^ j" and "0 < j"
  shows "n \<le> j"
proof -
  have "n \<le> j" if "shortest_from i l x = (c, n)" "l + i = 17" "l \<le> j" for i l
    using that
  proof (induction i arbitrary: l)
    case (Suc i)
    show ?case
    proof (cases "decimal_at l x")
      case None
      with decimal_complete [OF assms(1,2,4,5,6)] have "l \<noteq> j" by auto
      with None Suc show ?thesis by simp
    next
      case (Some c')
      with Suc.prems show ?thesis by simp
    qed
  qed simp
  from this [of 16 1] assms(3,6) show ?thesis by (simp add: shortest_def)
qed

section \<open>strconv.FormatFloat(v, 'g', -1, 64)\<close>

definition strip_zeros :: "string \<Rightarrow> string" where
  "strip_zeros ds = rev (dropWhile (\<lambda>c. c = CHR ''0'') (rev ds))"

text \<open>The digits \<open>d1 d2 ...\<close> and the position of the point, for the value \<open>0.d1d2... * 10 ^ dp\<close>.\<close>

definition decimal_digits :: "rat \<Rightarrow> string \<times> int" where
  "decimal_digits x =
     (let (c, n) = shortest x; ds = nat_digits c
      in (strip_zeros ds, ilog10 x - int n + 1 + int (length ds)))"

definition exponent_text :: "int \<Rightarrow> string" where
  "exponent_text e =
     ''e'' @ (if e < 0 then ''-'' else ''+'') @ (if \<bar>e\<bar> < 10 then ''0'' else []) @ nat_digits \<bar>e\<bar>"

definition point :: "string \<Rightarrow> string" where
  "point f = (if f = [] then [] else ''.'' @ f)"

text \<open>The form with an exponent (\<open>%e\<close>) and the form without (\<open>%f\<close>), which is used for exponents from -4 to 5.\<close>

definition fmtE :: "string \<Rightarrow> int \<Rightarrow> string" where
  "fmtE ds e = [hd ds] @ point (tl ds) @ exponent_text e"

definition fmtF :: "string \<Rightarrow> int \<Rightarrow> string" where
  "fmtF ds dp =
     (if dp \<le> 0 then ''0'' @ point (replicate (nat (- dp)) (CHR ''0'') @ ds)
      else take (nat dp) ds @ replicate (nat dp - length ds) (CHR ''0'') @ point (drop (nat dp) ds))"

definition format_mag :: "rat \<Rightarrow> string" where
  "format_mag x =
     (if x = 0 then ''0''
      else let (ds, dp) = decimal_digits x
           in if dp - 1 < -4 \<or> 6 \<le> dp - 1 then fmtE ds (dp - 1) else fmtF ds dp)"

fun FormatFloat :: "f64 \<Rightarrow> string" where
  "FormatFloat NaN = ''NaN''"
| "FormatFloat (Inf n) = (if n then ''-Inf'' else ''+Inf'')"
| "FormatFloat (Fin n x) = (if n then ''-'' else []) @ format_mag x"

section \<open>Reading it back\<close>

lemma foldl_digits: "foldl (\<lambda>a c. 10 * a + digit_val c) m ds = m * 10 ^ length ds + digits_val ds"
proof (induction ds arbitrary: m)
  case (Cons c ds)
  have "digits_val (c # ds) = digit_val c * 10 ^ length ds + digits_val ds"
    using Cons [of "digit_val c"] by (simp add: digits_val_def)
  with Cons [of "10 * m + digit_val c"] show ?case by (simp add: algebra_simps)
qed (simp add: digits_val_def)

lemma digits_val_append: "digits_val (ds @ es) = digits_val ds * 10 ^ length es + digits_val es"
  using foldl_digits [of "digits_val ds" es] by (simp add: digits_val_def)

lemma digits_val_Nil [simp]: "digits_val [] = 0"
  by (simp add: digits_val_def)

lemma digits_val_Cons: "digits_val (c # ds) = digit_val c * 10 ^ length ds + digits_val ds"
  using digits_val_append [of "[c]" ds] by (simp add: digits_val_def)

lemma digits_val_zeros [simp]: "digits_val (replicate k (CHR ''0'')) = 0"
  by (induction k) (simp_all add: digits_val_Cons digit_val_def)

lemma digits_val_nonneg: "list_all is_digit ds \<Longrightarrow> 0 \<le> digits_val ds"
  by (induction ds) (auto simp: digits_val_Cons dest: digit_val_bounds)

lemma scan_digits:
  "list_all is_digit ds \<Longrightarrow> scan_mant False dot m k sd (ds @ r) =
     scan_mant False dot (m * 10 ^ length ds + digits_val ds) (if dot then k + int (length ds) else k) (sd \<or> ds \<noteq> []) r"
proof (induction ds arbitrary: m k sd)
  case (Cons c ds)
  then have "c \<noteq> CHR ''_''" "c \<noteq> CHR ''.''" "is_digit c" by (auto simp: is_digit_def)
  with Cons show ?case by (auto simp: digits_val_Cons algebra_simps Let_def)
qed simp

lemma scan_exp_digits:
  "list_all is_digit ds \<Longrightarrow> 0 \<le> e \<Longrightarrow> e * 10 ^ length ds + digits_val ds < 10000 \<Longrightarrow>
     scan_exp e ds = (e * 10 ^ length ds + digits_val ds, [])"
proof (induction ds arbitrary: e)
  case (Cons c ds)
  have c: "c \<noteq> CHR ''_''" "is_digit c" "0 \<le> digit_val c" using Cons.prems(1) digit_val_bounds by (auto simp: is_digit_def)
  have val: "(10 * e + digit_val c) * 10 ^ length ds + digits_val ds = e * 10 ^ length (c # ds) + digits_val (c # ds)"
    by (simp add: digits_val_Cons algebra_simps)
  have "0 \<le> digits_val (c # ds)" using Cons.prems(1) by (rule digits_val_nonneg)
  then have "e * 10 ^ length (c # ds) < 10000" using Cons.prems(3) by linarith
  moreover have "e * 1 \<le> e * 10 ^ length (c # ds)" using Cons.prems(2) by (intro mult_left_mono one_le_power) simp_all
  ultimately have "e < 10000" by linarith
  with c Cons.IH [of "10 * e + digit_val c"] Cons.prems val show ?case by simp
qed simp

lemma is_digit_zero [simp]: "is_digit (CHR ''0'')"
  by (simp add: is_digit_def)

lemma exponent_read:
  assumes "\<bar>e\<bar> < 10000"
  shows "scan_exp_part False (exponent_text e) = Some (e, [])"
proof -
  let ?ds = "(if \<bar>e\<bar> < 10 then ''0'' else []) @ nat_digits \<bar>e\<bar>"
  have ds: "list_all is_digit ?ds" "digits_val ?ds = \<bar>e\<bar>" "?ds \<noteq> []"
    using nat_digits_props [of "\<bar>e\<bar>"] by (auto simp: digits_val_append digits_val_Cons digit_val_def)
  then obtain c l where cl: "?ds = c # l" "is_digit c" by (cases ?ds) auto
  have "scan_exp 0 ?ds = (\<bar>e\<bar>, [])" using scan_exp_digits [OF ds(1), of 0] ds(2) assms by simp
  then show ?thesis using cl by (auto simp: exponent_text_def scan_exp_part_def lower_bit_def split_sign_def Let_def)
qed

text \<open>A number written with integer digits, fraction digits and an exponent.\<close>

lemma parse_written:
  assumes i: "list_all is_digit i" "i \<noteq> []" and f: "list_all is_digit f"
    and ep: "ep = [] \<and> e = 0 \<or> ep = exponent_text e \<and> \<bar>e\<bar> < 10000"
  shows "parse_number (i @ point f @ ep) = Some (of_int (digits_val (i @ f)) * pow10 (e - int (length f)))"
proof -
  let ?s = "i @ point f @ ep"
  have e_char: "\<not> is_digit (CHR ''e'')" by (simp add: is_digit_def)
  have ep_head: "ep = [] \<or> (\<exists>r. ep = CHR ''e'' # r)" using ep by (auto simp: exponent_text_def)
  have nohex: "\<not> is_hex_prefix ?s"
  proof -
    obtain a l where a: "i = a # l" using i(2) by (cases i) auto
    have "lower_bit b \<noteq> 120" if "is_digit b \<or> b = CHR ''.'' \<or> b = CHR ''e''" for b
      using that by (auto simp: lower_bit_def is_digit_def)
    then show ?thesis using i(1) f ep_head
      by (cases l; cases f; cases ep) (auto simp: a point_def is_hex_prefix_def)
  qed
  have no_underscore: "CHR ''_'' \<notin> set ?s"
  proof -
    have "CHR ''_'' \<notin> set ds" if "list_all is_digit ds" for ds
      using that by (auto simp: list_all_iff is_digit_def)
    moreover have "list_all is_digit (nat_digits \<bar>e\<bar>)" using nat_digits_props [of "\<bar>e\<bar>"] by simp
    ultimately show ?thesis using i(1) f ep by (auto simp: point_def exponent_text_def split: if_splits)
  qed
  have stop: "scan_mant False dot m k sd ep = (m, k, sd, ep)" for dot m k sd
    using ep_head e_char by auto
  have scan: "scan_mant False False 0 0 False ?s = (digits_val (i @ f), int (length f), True, ep)"
  proof (cases "f = []")
    case True
    then show ?thesis using scan_digits [OF i(1), of False 0 0 False ep] i(2) by (simp add: point_def stop)
  next
    case False
    have "scan_mant False False 0 0 False ?s = scan_mant False False (digits_val i) 0 True (CHR ''.'' # f @ ep)"
      using scan_digits [OF i(1), of False 0 0 False "CHR ''.'' # f @ ep"] i(2) False by (simp add: point_def)
    also have "\<dots> = scan_mant False True (digits_val i) 0 True (f @ ep)" by simp
    also have "\<dots> = (digits_val (i @ f), int (length f), True, ep)"
      using scan_digits [OF f, of True "digits_val i" 0 True ep] by (simp add: stop digits_val_append)
    finally show ?thesis .
  qed
  have exp: "scan_exp_part False ep = Some (e, [])"
  proof (cases "ep = []")
    case True
    then show ?thesis using ep by (auto simp: scan_exp_part_def exponent_text_def)
  next
    case False
    then show ?thesis using ep exponent_read by blast
  qed
  show ?thesis
    using nohex no_underscore by (simp add: parse_number_def scan exp pow10_def)
qed

lemma strip_zeros_split: "\<exists>k. ds = strip_zeros ds @ replicate k (CHR ''0'')"
proof -
  let ?z = "\<lambda>c. c = CHR ''0''"
  have "rev ds = takeWhile ?z (rev ds) @ dropWhile ?z (rev ds)" by simp
  moreover have "takeWhile ?z l = replicate (length (takeWhile ?z l)) (CHR ''0'')" for l
    by (induction l) auto
  ultimately have "rev ds = replicate (length (takeWhile ?z (rev ds))) (CHR ''0'') @ dropWhile ?z (rev ds)" by metis
  then have "ds = strip_zeros ds @ rev (replicate (length (takeWhile ?z (rev ds))) (CHR ''0''))"
    by (metis rev_append rev_rev_ident strip_zeros_def)
  then show ?thesis by (metis rev_replicate)
qed

text \<open>The digits of a double and their value.\<close>

lemma decimal_digits_value:
  assumes "is_double x" and "0 < x" and "decimal_digits x = (ds, dp)"
  shows "list_all is_digit ds" and "ds \<noteq> []"
    and "rnd_mag (of_int (digits_val ds) * pow10 (dp - int (length ds))) = x"
proof -
  obtain c n where cn: "shortest x = (c, n)" by (cases "shortest x") auto
  have r: "rnd_mag (of_int c * unit_at n x) = x" by (rule shortest_rounds [OF assms(1,2) cn])
  have c: "0 < c"
  proof (rule ccontr)
    assume "\<not> 0 < c"
    then have "of_int c * unit_at n x \<le> 0" by (simp add: mult_nonpos_nonneg unit_at_def less_imp_le)
    then have "rnd_mag (of_int c * unit_at n x) = 0" by (simp add: rnd_mag_def)
    with r assms(2) show False by simp
  qed
  let ?all = "nat_digits c"
  have all: "list_all is_digit ?all" "digits_val ?all = c" using nat_digits_props [of c] c by simp_all
  have ds: "ds = strip_zeros ?all" and dp: "dp = ilog10 x - int n + 1 + int (length ?all)"
    using assms(3) by (simp_all add: decimal_digits_def cn Let_def)
  obtain k where k: "?all = ds @ replicate k (CHR ''0'')" using strip_zeros_split [of ?all] unfolding ds by blast
  show "list_all is_digit ds" using all(1) unfolding k by simp
  have val: "c = digits_val ds * 10 ^ k" using all(2) unfolding k by (simp add: digits_val_append)
  with c show "ds \<noteq> []" by auto
  have "int (length ?all) = int (length ds) + int k" using arg_cong [OF k, of length] by simp
  then have "dp - int (length ds) = int k + (ilog10 x - int n + 1)" using dp by linarith
  then have "pow10 (dp - int (length ds)) = pow10 (int k + (ilog10 x - int n + 1))" by (rule arg_cong)
  then have "of_int (digits_val ds) * pow10 (dp - int (length ds)) = of_int c * unit_at n x"
    unfolding pow10_add [of "int k"] by (simp add: val unit_at_def)
  with r show "rnd_mag (of_int (digits_val ds) * pow10 (dp - int (length ds))) = x" by simp
qed

lemma fmtE_reads:
  assumes "list_all is_digit ds" and "ds \<noteq> []" and "\<bar>e\<bar> < 10000"
  shows "parse_number (fmtE ds e) = Some (of_int (digits_val ds) * pow10 (e + 1 - int (length ds)))"
proof -
  obtain d ds' where ds: "ds = d # ds'" using assms(2) by (cases ds) auto
  with assms(1,3) parse_written [of "[d]" ds' "exponent_text e" e]
  show ?thesis by (simp add: fmtE_def add.commute)
qed

lemma fmtF_reads:
  assumes "list_all is_digit ds" and "ds \<noteq> []"
  shows "parse_number (fmtF ds dp) = Some (of_int (digits_val ds) * pow10 (dp - int (length ds)))"
proof -
  have zeros: "list_all is_digit (replicate k (CHR ''0''))" for k by (simp add: list_all_iff)
  show ?thesis
  proof (cases "dp \<le> 0")
    case True
    let ?f = "replicate (nat (- dp)) (CHR ''0'') @ ds"
    have "parse_number (''0'' @ point ?f @ []) = Some (of_int (digits_val (''0'' @ ?f)) * pow10 (0 - int (length ?f)))"
      using assms(1) zeros by (intro parse_written) simp_all
    moreover have "digits_val (''0'' @ ?f) = digits_val ds"
      by (simp add: digits_val_append digits_val_Cons digit_val_def)
    ultimately show ?thesis using True by (simp add: fmtF_def)
  next
    case False
    let ?i = "take (nat dp) ds @ replicate (nat dp - length ds) (CHR ''0'')" and ?f = "drop (nat dp) ds"
    have "list_all is_digit (take (nat dp) ds)" "list_all is_digit ?f"
      using assms(1) by (auto simp: list_all_iff dest: in_set_takeD in_set_dropD)
    then have "parse_number (?i @ point ?f @ []) = Some (of_int (digits_val (?i @ ?f)) * pow10 (0 - int (length ?f)))"
      using zeros False assms(2) by (intro parse_written) simp_all
    moreover have "of_int (digits_val (?i @ ?f)) * pow10 (0 - int (length ?f))
        = (of_int (digits_val ds) * pow10 (dp - int (length ds)) :: rat)"
    proof (cases "length ds \<le> nat dp")
      case True
      then have "dp - int (length ds) = int (nat dp - length ds)" using False by simp
      with True show ?thesis by (simp only: pow10_nat) (simp add: digits_val_append pow10_def)
    next
      case False
      then have "0 - int (length ?f) = dp - int (length ds)" using \<open>\<not> dp \<le> 0\<close> by simp
      with False show ?thesis by simp
    qed
    ultimately show ?thesis using False by (simp add: fmtF_def)
  qed
qed

lemma pow10_le_pow2: "e \<le> 0 \<Longrightarrow> pow10 e \<le> pow2 e"
  by (auto simp: pow10_def pow2_def intro!: divide_left_mono power_mono)

lemma pow2_le_pow10: "0 \<le> e \<Longrightarrow> pow2 e \<le> pow10 e"
  by (auto simp: pow10_def pow2_def intro!: power_mono)

lemma decimal_exponent:
  assumes "is_double x" and "0 < x" and "x < 2 ^ 1024"
  shows "\<bar>ilog10 x\<bar> < 2000"
proof -
  have "pow2 (-1074) \<le> x"
  proof -
    obtain m e where x: "x = of_int m * pow2 e" "-1074 \<le> e" using assms(1) unfolding is_double_def by blast
    then have "0 < m" using assms(2) pow2_pos [of e] by (auto simp add: zero_less_mult_iff)
    then have "(of_int 1 :: rat) \<le> of_int m" by (simp only: of_int_le_iff)
    then have "pow2 e \<le> x" unfolding x using mult_right_mono [of "1 :: rat" "of_int m" "pow2 e"] by simp
    moreover have "pow2 (-1074) \<le> pow2 e" using x(2) by simp
    ultimately show ?thesis by (rule order_trans [rotated])
  qed
  moreover have "pow10 (-1074) \<le> pow2 (-1074)" by (rule pow10_le_pow2) simp
  ultimately have "pow10 (-1074) < pow10 (ilog10 x + 1)" using ilog10_bounds(2) [OF assms(2)] by linarith
  moreover have "x < pow2 1024" using assms(3) by (simp only: pow2_def) simp
  then have "pow10 (ilog10 x) < pow10 1024"
    using ilog10_bounds(1) [OF assms(2)] pow2_le_pow10 [of 1024] by linarith
  ultimately show ?thesis by simp
qed

lemma shortest_bounds:
  assumes "0 < x" and "shortest x = (c, n)"
  shows "1 \<le> n" and "n \<le> 17" and "c \<le> 10 ^ n"
proof -
  have "m \<le> n \<and> n \<le> m + k \<and> c \<in> set (candidates x (unit_at n x))" if "shortest_from k m x = (c, n)" for k m
    using that
  proof (induction k arbitrary: m)
    case (Suc k)
    then show ?case by (auto simp: decimal_at_def split: option.splits dest: find_SomeD) force+
  qed (auto simp: candidates_def Let_def)
  from this [of 16 1] assms(2) have n: "1 \<le> n" "n \<le> 17" and c: "c \<in> set (candidates x (unit_at n x))"
    by (simp_all add: shortest_def)
  then show "1 \<le> n" and "n \<le> 17" by simp_all
  have "x < pow10 (int n + (ilog10 x - int n + 1))" using ilog10_bounds(2) [OF assms(1)] by simp
  then have "x / unit_at n x < 10 ^ n"
    unfolding pow10_add [of "int n"] by (simp add: pos_divide_less_eq unit_at_def)
  then have "\<lfloor>x / unit_at n x\<rfloor> < 10 ^ n" by (simp add: floor_less_iff)
  with c show "c \<le> 10 ^ n" by (auto simp: candidates_set)
qed

lemma decimal_point:
  assumes "0 < x" and "decimal_digits x = (ds, dp)"
  shows "ilog10 x - 16 \<le> dp" and "dp \<le> ilog10 x + 2"
proof -
  obtain c n where cn: "shortest x = (c, n)" by (cases "shortest x") auto
  note b = shortest_bounds [OF assms(1) cn]
  let ?l = "length (nat_digits c)"
  have dp: "dp = ilog10 x - int n + 1 + int ?l" using assms(2) by (simp add: decimal_digits_def cn Let_def)
  have "?l \<le> n + 1"
  proof (cases "0 < c")
    case True
    then have "(10::int) ^ (?l - 1) \<le> 10 ^ n" using nat_digits_bounds [of c] b(3) by linarith
    then have "?l - 1 \<le> n" by simp
    then show ?thesis by linarith
  qed (simp add: nat_digits.simps [of c])
  then show "ilog10 x - 16 \<le> dp" and "dp \<le> ilog10 x + 2" using dp b(2) by linarith+
qed

lemma format_mag_reads:
  assumes "is_double x" and "0 \<le> x" and "x < 2 ^ 1024"
  shows "\<exists>d. parse_number (format_mag x) = Some d \<and> rnd_mag d = x"
proof (cases "x = 0")
  case True
  moreover have "parse_number ''0'' = Some 0" by code_simp
  ultimately show ?thesis by (simp add: format_mag_def rnd_mag_def)
next
  case False
  then have pos: "0 < x" using assms(2) by simp
  obtain ds dp where d: "decimal_digits x = (ds, dp)" by (cases "decimal_digits x") auto
  note v = decimal_digits_value [OF assms(1) pos d]
  show ?thesis
  proof (cases "dp - 1 < -4 \<or> 6 \<le> dp - 1")
    case True
    have "\<bar>dp - 1\<bar> < 10000" using decimal_exponent [OF assms(1) pos assms(3)] decimal_point [OF pos d] by linarith
    from fmtE_reads [OF v(1,2) this] v(3) True False d show ?thesis by (simp add: format_mag_def)
  next
    case no_exp: False
    with False d fmtF_reads [OF v(1,2), of dp] v(3) show ?thesis by (simp add: format_mag_def)
  qed
qed

lemma format_mag_head:
  assumes "is_double x" and "0 \<le> x"
  shows "\<exists>c r. format_mag x = c # r \<and> is_digit c"
proof (cases "x = 0")
  case True
  then show ?thesis by (simp add: format_mag_def)
next
  case False
  then have pos: "0 < x" using assms(2) by simp
  obtain ds dp where d: "decimal_digits x = (ds, dp)" by (cases "decimal_digits x") auto
  note v = decimal_digits_value [OF assms(1) pos d]
  then obtain a l where al: "ds = a # l" "is_digit a" by (cases ds) auto
  have "\<exists>r. take (nat dp) ds = a # r" if "0 < dp" using that al by (cases "nat dp") auto
  with al d False show ?thesis by (auto simp: format_mag_def fmtE_def fmtF_def)
qed

text \<open>The text of a double is read as that double.\<close>

lemma FormatFloat_reads_back:
  assumes "wf_f64 v"
  shows "ParseFloat (FormatFloat v) = Some v"
proof (cases v)
  case (Inf n)
  have "ParseFloat ''-Inf'' = Some (Inf True)" "ParseFloat ''+Inf'' = Some (Inf False)" by code_simp+
  with Inf show ?thesis by simp
next
  case (Fin n x)
  with assms have r: "rnd_mag x = x" and top: "x < 2 ^ 1024" by simp_all
  have x: "is_double x" "0 \<le> x" using is_double_rnd_mag [of x] rnd_mag_nonneg [of x] by (simp_all add: r)
  obtain c s where head: "format_mag x = c # s" "is_digit c" using format_mag_head [OF x] by blast
  obtain d where d: "parse_number (format_mag x) = Some d" "rnd_mag d = x" using format_mag_reads [OF x top] by blast
  have other: "c \<noteq> CHR ''-''" "c \<noteq> CHR ''+''" "ascii_lower c \<noteq> CHR ''i''" "ascii_lower c \<noteq> CHR ''n''"
    using head(2) by (auto simp: is_digit_def ascii_lower_def)
  have sign: "split_sign (FormatFloat v) = (n, format_mag x)"
    using other head(1) by (simp add: Fin split_sign_def)
  have "map ascii_lower (FormatFloat v) \<noteq> ''nan''"
  proof (cases n)
    case True
    have "ascii_lower (CHR ''-'') \<noteq> CHR ''n''" by code_simp
    with True show ?thesis by (simp add: Fin)
  next
    case False
    with other head(1) show ?thesis by (simp add: Fin)
  qed
  moreover have "map ascii_lower (format_mag x) \<noteq> ''inf'' \<and> map ascii_lower (format_mag x) \<noteq> ''infinity''"
    using other head(1) by simp
  moreover have "mk n d = Fin n x" using d(2) top by (simp add: mk_def)
  ultimately have "ParseFloat (FormatFloat v) = Some (Fin n x)" by (simp add: ParseFloat_def sign d(1) Let_def)
  then show ?thesis unfolding Fin .
next
  case NaN
  have "ParseFloat ''NaN'' = Some NaN" by code_simp
  with NaN show ?thesis by simp
qed

lemma FormatFloat_inj: "wf_f64 v \<Longrightarrow> wf_f64 w \<Longrightarrow> FormatFloat v = FormatFloat w \<longleftrightarrow> v = w"
  by (metis FormatFloat_reads_back option.inject)

lemma FormatFloat_examples:
  "FormatFloat (Fin False 2) = ''2''" "FormatFloat (Fin True (1 / 4)) = ''-0.25''"
  "FormatFloat (Fin False 1000000) = ''1e+06''" "FormatFloat (Fin False 1234567) = ''1.234567e+06''"
  "FormatFloat (Fin False 123456) = ''123456''" "FormatFloat (mk False (1 / 10)) = ''0.1''"
  "FormatFloat (mk False (1 / 100000)) = ''1e-05''"
  by code_simp+

end
