(* ===== verification/Dump.thy ===== *)
theory Dump
  imports Snapshot GoFormat GoQuote "HOL-Library.Char_ord" "HOL-Library.List_Lexorder"
begin

text \<open>
  \<open>dumpSamples\<close> of \<open>main.go\<close>: every sample of a snapshot as a line in the style of the exposition
  format, sorted. \<open>pr\<close> says which runes beyond ASCII are printable.
\<close>

section \<open>The lines\<close>

definition label_text :: "(int \<Rightarrow> bool) \<Rightarrow> Label \<Rightarrow> string" where
  "label_text pr l = lb_Name l @ ''='' @ Quote pr (lb_Value l)"

definition sample_line :: "(int \<Rightarrow> bool) \<Rightarrow> Sample \<Rightarrow> string" where
  "sample_line pr s =
     sm_Name s @ ''{'' @ Join (map (label_text pr) (sm_Labels s)) '','' @ ''} '' @ FormatFloat (sm_Value s)"

definition dump_lines :: "(int \<Rightarrow> bool) \<Rightarrow> (string list \<Rightarrow> string list) \<Rightarrow> 'e Snapshot \<Rightarrow> string list" where
  "dump_lines pr o1 snap =
     sort (concat (map (\<lambda>(name, cs). map (sample_line pr) (cs_Samples cs)) (range_map o1 (sh_PerCluster snap))))"

definition dumpSamples :: "(int \<Rightarrow> bool) \<Rightarrow> (string list \<Rightarrow> string list) \<Rightarrow> 'e Snapshot \<Rightarrow> string" where
  "dumpSamples pr o1 snap = concat (map (\<lambda>l. l @ [CHR 0x0A]) (dump_lines pr o1 snap))"

text \<open>All samples a snapshot holds.\<close>

definition held_samples :: "'e Snapshot \<Rightarrow> Sample list" where
  "held_samples snap = concat (map (\<lambda>(name, cs). cs_Samples cs) (sh_PerCluster snap))"

section \<open>A line tells its sample\<close>

text \<open>Names of metrics and labels are words of letters, digits and underscores.\<close>

definition word_char :: "char \<Rightarrow> bool" where
  "word_char c \<longleftrightarrow> c = CHR ''_'' \<or> is_digit c \<or> 97 \<le> byte c \<and> byte c \<le> 122"

lemma schema_words: "list_all (\<lambda>(n, ls). list_all word_char n \<and> list_all (list_all word_char) ls) metric_schema"
  by code_simp

lemma conforms_words:
  assumes "conforms s"
  shows "list_all word_char (sm_Name s)" and "\<forall>l \<in> set (sm_Labels s). list_all word_char (lb_Name l)"
proof -
  have "(sm_Name s, map lb_Name (sm_Labels s)) \<in> set metric_schema"
    using assms by (simp add: conforms_def map_of_SomeD)
  from bspec [OF schema_words [unfolded list_all_iff [of _ metric_schema]] this]
  have "list_all word_char (sm_Name s)" and ls: "list_all (list_all word_char) (map lb_Name (sm_Labels s))"
    by (simp_all only: prod.case)
  then show "list_all word_char (sm_Name s)" by blast
  from ls show "\<forall>l \<in> set (sm_Labels s). list_all word_char (lb_Name l)"
    unfolding list_all_iff [of "list_all word_char"] by simp
qed

lemma word_no_brace:
  assumes "list_all word_char w"
  shows "CHR ''{'' \<notin> set w" and "CHR 0x0A \<notin> set w"
proof -
  have "\<not> word_char (CHR ''{'')" "\<not> word_char (CHR 0x0A)" by code_simp+
  then show "CHR ''{'' \<notin> set w" and "CHR 0x0A \<notin> set w" using assms unfolding list_all_iff by blast+
qed

text \<open>Labels with the same names: the text of the values, and where the braces close, are determined.\<close>

lemma labels_cancel:
  assumes "length xs = length ys" and "map lb_Name xs = map lb_Name ys"
    and "Join (map (label_text pr) xs) '','' @ ''}'' @ u = Join (map (label_text pr) ys) '','' @ ''}'' @ w"
  shows "xs = ys \<and> u = w"
  using assms
proof (induction xs ys rule: list_induct2)
  case (Cons x xs y ys)
  have names: "lb_Name x = lb_Name y" "map lb_Name xs = map lb_Name ys" using Cons.prems(1) by simp_all
  show ?case
  proof (cases xs)
    case Nil
    then have "ys = []" using Cons.hyps by simp
    with Cons.prems(2) names Nil show ?thesis by (simp add: label_text_def Quote_cancel)
  next
    case xs: (Cons x' xs')
    then obtain y' ys' where ys: "ys = y' # ys'" using Cons.hyps by (cases ys) auto
    have "Quote pr (lb_Value x) @ '','' @ Join (map (label_text pr) xs) '','' @ ''}'' @ u
        = Quote pr (lb_Value y) @ '','' @ Join (map (label_text pr) ys) '','' @ ''}'' @ w"
      using Cons.prems(2) names(1) by (simp add: xs ys label_text_def [of pr x] label_text_def [of pr y])
    then have "lb_Value x = lb_Value y"
      "Join (map (label_text pr) xs) '','' @ ''}'' @ u = Join (map (label_text pr) ys) '','' @ ''}'' @ w"
      by (simp_all only: Quote_cancel) simp_all
    with Cons.IH [OF names(2)] names(1) show ?thesis by simp
  qed
qed simp

definition printable_sample :: "Sample \<Rightarrow> bool" where
  "printable_sample s \<longleftrightarrow> conforms s \<and> wf_f64 (sm_Value s)"

lemma sample_line_inj:
  assumes "printable_sample s" and "printable_sample t"
  shows "sample_line pr s = sample_line pr t \<longleftrightarrow> s = t"
proof
  assume eq: "sample_line pr s = sample_line pr t"
  have c: "conforms s" "conforms t" "wf_f64 (sm_Value s)" "wf_f64 (sm_Value t)"
    using assms by (simp_all add: printable_sample_def)
  let ?r = "\<lambda>s. Join (map (label_text pr) (sm_Labels s)) '','' @ ''}'' @ '' '' @ FormatFloat (sm_Value s)"
  have "sm_Name s @ CHR ''{'' # ?r s = sm_Name t @ CHR ''{'' # ?r t"
    using eq by (simp add: sample_line_def)
  then have "sm_Name s = sm_Name t \<and> ?r s = ?r t"
    by (rule append_sep_inj) (use c conforms_words word_no_brace in blast)+
  then have name: "sm_Name s = sm_Name t" and rest: "?r s = ?r t" by simp_all
  have names: "map lb_Name (sm_Labels s) = map lb_Name (sm_Labels t)"
    using c(1,2) name by (simp add: conforms_def)
  then have "length (sm_Labels s) = length (sm_Labels t)" by (rule map_eq_imp_length_eq)
  from labels_cancel [OF this names rest]
  have "sm_Labels s = sm_Labels t" "FormatFloat (sm_Value s) = FormatFloat (sm_Value t)" by simp_all
  then show "s = t" using name FormatFloat_inj [OF c(3,4)] by simp
qed simp

lemma inj_on_lines: "\<forall>s \<in> S. printable_sample s \<Longrightarrow> inj_on (sample_line pr) S"
  by (auto intro: inj_onI simp: sample_line_inj)

section \<open>The dump tells the samples\<close>

lemma point_one_line: "CHR 0x0A \<notin> set f \<Longrightarrow> CHR 0x0A \<notin> set (point f)"
  by (simp add: point_def)

lemma digits_one_line: "list_all is_digit ds \<Longrightarrow> CHR 0x0A \<notin> set ds"
proof
  assume "list_all is_digit ds" and "CHR 0x0A \<in> set ds"
  then have "is_digit (CHR 0x0A)" by (simp add: list_all_iff)
  moreover have "\<not> is_digit (CHR 0x0A)" by code_simp
  ultimately show False by blast
qed

lemma format_one_line:
  assumes "wf_f64 v"
  shows "CHR 0x0A \<notin> set (FormatFloat v)"
proof (cases v)
  case (Fin n x)
  have "rnd_mag x = x" using assms by (simp add: Fin)
  then have x: "is_double x" "0 \<le> x" using is_double_rnd_mag [of x] rnd_mag_nonneg [of x] by simp_all
  have "CHR 0x0A \<notin> set (format_mag x)"
  proof (cases "x = 0")
    case False
    then have pos: "0 < x" using x(2) by simp
    obtain ds dp where d: "decimal_digits x = (ds, dp)" by (cases "decimal_digits x") auto
    note v = decimal_digits_value [OF x(1) pos d]
    have ds: "CHR 0x0A \<notin> set ds" by (rule digits_one_line [OF v(1)])
    then have parts: "CHR 0x0A \<notin> set (take k ds)" "CHR 0x0A \<notin> set (drop k ds)" "CHR 0x0A \<notin> set (tl ds)" for k
      using v(2) by (auto dest: in_set_takeD in_set_dropD list.set_sel(2))
    have "CHR 0x0A \<noteq> hd ds" using ds v(2) by (metis list.set_sel(1))
    moreover have "CHR 0x0A \<notin> set (nat_digits \<bar>e\<bar>)" for e
      using nat_digits_props [of "\<bar>e\<bar>"] digits_one_line by simp
    then have "CHR 0x0A \<notin> set (exponent_text e)" for e by (simp add: exponent_text_def)
    ultimately have "CHR 0x0A \<notin> set (fmtE ds e)" for e
      using point_one_line [OF parts(3)] by (simp add: fmtE_def)
    moreover have "CHR 0x0A \<notin> set (fmtF ds dp)"
      using point_one_line parts ds by (simp add: fmtF_def)
    ultimately show ?thesis using False d by (simp add: format_mag_def)
  qed (simp add: format_mag_def)
  then show ?thesis by (simp add: Fin)
qed simp_all

lemma Join_one_line: "CHR 0x0A \<notin> set sep \<Longrightarrow> \<forall>x \<in> set xs. CHR 0x0A \<notin> set x \<Longrightarrow> CHR 0x0A \<notin> set (Join xs sep)"
  by (induction xs sep rule: Join.induct) auto

lemma line_one_line:
  assumes "printable_sample s"
  shows "CHR 0x0A \<notin> set (sample_line pr s)"
proof -
  have c: "conforms s" "wf_f64 (sm_Value s)" using assms by (simp_all add: printable_sample_def)
  have "CHR 0x0A \<notin> set (label_text pr l)" if "l \<in> set (sm_Labels s)" for l
    using conforms_words(2) [OF c(1)] that word_no_brace(2) Quote_one_line by (simp add: label_text_def)
  then have "CHR 0x0A \<notin> set (Join (map (label_text pr) (sm_Labels s)) '','')"
    by (intro Join_one_line) auto
  then show ?thesis
    using word_no_brace(2) [OF conforms_words(1) [OF c(1)]] format_one_line [OF c(2)] by (simp add: sample_line_def)
qed

lemma lines_inj:
  assumes "\<forall>l \<in> set ls. c \<notin> set l" and "\<forall>l \<in> set ls'. c \<notin> set l"
    and "concat (map (\<lambda>l. l @ [c]) ls) = concat (map (\<lambda>l. l @ [c]) ls')"
  shows "ls = ls'"
  using assms
proof (induction ls arbitrary: ls')
  case Nil
  then show ?case by (cases ls') auto
next
  case (Cons l ls)
  then obtain l' rest where ls': "ls' = l' # rest" by (cases ls') auto
  have "l @ c # concat (map (\<lambda>l. l @ [c]) ls) = l' @ c # concat (map (\<lambda>l. l @ [c]) rest)"
    using Cons.prems(3) by (simp add: ls')
  then have "l = l' \<and> concat (map (\<lambda>l. l @ [c]) ls) = concat (map (\<lambda>l. l @ [c]) rest)"
    by (rule append_sep_inj) (use Cons.prems ls' in auto)
  with Cons.IH [of rest] Cons.prems ls' show ?case by simp
qed

lemma mset_dump_lines:
  assumes "is_order ord" and "wf_map (sh_PerCluster snap)"
  shows "mset (dump_lines pr (ord i) snap) = image_mset (sample_line pr) (mset (held_samples snap))"
proof -
  let ?f = "\<lambda>(name, cs). map (sample_line pr) (cs_Samples cs)"
  have "mset (dump_lines pr (ord i) snap) = (\<Sum>p \<in># mset (range_map (ord i) (sh_PerCluster snap)). mset (?f p))"
    by (simp add: dump_lines_def mset_concat sum_mset_sum_list [symmetric] image_mset.compositionality comp_def)
  also have "\<dots> = (\<Sum>p \<in># mset (sh_PerCluster snap). mset (?f p))"
    by (simp only: mset_range_map [OF assms])
  also have "\<dots> = image_mset (sample_line pr) (mset (held_samples snap))"
  proof -
    have "(\<Sum>p \<in># mset m. mset (?f p)) = image_mset (sample_line pr) (mset (concat (map (\<lambda>(name, cs). cs_Samples cs) m)))"
      for m by (induction m) auto
    then show ?thesis by (simp add: held_samples_def)
  qed
  finally show ?thesis .
qed

definition printable_snapshot :: "'e Snapshot \<Rightarrow> bool" where
  "printable_snapshot snap \<longleftrightarrow> wf_map (sh_PerCluster snap) \<and> list_all printable_sample (held_samples snap)"

lemma dump_lines_one_line:
  assumes "is_order ord" and "printable_snapshot snap" and "l \<in> set (dump_lines pr (ord i) snap)"
  shows "CHR 0x0A \<notin> set l"
proof -
  have "set (dump_lines pr (ord i) snap) = sample_line pr ` set (held_samples snap)"
    using mset_dump_lines [OF assms(1), of snap pr i] assms(2)
    by (metis printable_snapshot_def set_image_mset set_mset_mset)
  with assms show ?thesis by (auto simp: printable_snapshot_def list_all_iff line_one_line)
qed

text \<open>Two dumps are the same text exactly when the snapshots hold the same samples, whatever order the
  runtime ranges over the clusters in.\<close>

lemma dump_faithful:
  assumes "is_order ord" and "is_order ord'" and "printable_snapshot snap" and "printable_snapshot snap'"
  shows "dumpSamples pr (ord i) snap = dumpSamples pr (ord' j) snap' \<longleftrightarrow> mset (held_samples snap) = mset (held_samples snap')"
proof -
  let ?ls = "dump_lines pr (ord i) snap" and ?ls' = "dump_lines pr (ord' j) snap'"
  have wf: "wf_map (sh_PerCluster snap)" "wf_map (sh_PerCluster snap')"
    using assms(3,4) by (simp_all add: printable_snapshot_def)
  have m: "mset ?ls = image_mset (sample_line pr) (mset (held_samples snap))"
    "mset ?ls' = image_mset (sample_line pr) (mset (held_samples snap'))"
    using mset_dump_lines assms wf by blast+
  have "dumpSamples pr (ord i) snap = dumpSamples pr (ord' j) snap' \<longleftrightarrow> ?ls = ?ls'"
  proof
    assume "dumpSamples pr (ord i) snap = dumpSamples pr (ord' j) snap'"
    then show "?ls = ?ls'"
      using assms by (intro lines_inj [of ?ls "CHR 0x0A" ?ls']) (auto simp: dumpSamples_def dest: dump_lines_one_line)
  qed (simp add: dumpSamples_def)
  also have "\<dots> \<longleftrightarrow> mset ?ls = mset ?ls'"
  proof
    assume eq: "mset ?ls = mset ?ls'"
    have "sorted ?ls" "sorted ?ls'" by (simp_all add: dump_lines_def)
    with eq show "?ls = ?ls'" by (metis properties_for_sort)
  qed simp
  also have "\<dots> \<longleftrightarrow> mset (held_samples snap) = mset (held_samples snap')"
  proof
    assume "mset ?ls = mset ?ls'"
    then have eq: "image_mset (sample_line pr) (mset (held_samples snap)) = image_mset (sample_line pr) (mset (held_samples snap'))"
      by (simp only: m)
    let ?S = "set (held_samples snap) \<union> set (held_samples snap')"
    have inj: "inj_on (sample_line pr) ?S"
      using assms(3,4) by (intro inj_on_lines) (auto simp: printable_snapshot_def list_all_iff)
    have undo: "image_mset (inv_into ?S (sample_line pr)) (image_mset (sample_line pr) (mset xs)) = mset xs"
      if "set xs \<subseteq> ?S" for xs
    proof -
      have "map (\<lambda>x. inv_into ?S (sample_line pr) (sample_line pr x)) xs = xs"
        using that inj by (intro map_idI inv_into_f_f) auto
      then show ?thesis
        unfolding mset_map [symmetric] map_map comp_def by (rule arg_cong)
    qed
    show "mset (held_samples snap) = mset (held_samples snap')"
      using arg_cong [OF eq, of "image_mset (inv_into ?S (sample_line pr))"] undo [of "held_samples snap"] undo [of "held_samples snap'"]
      by simp
  qed (simp only: m)
  finally show ?thesis .
qed

end
