(* ===== verification/ExampleLive.thy ===== *)
theory ExampleLive
  imports Server Dump
begin

text \<open>
  A cluster that answers, for the runs that show the properties on data: the bodies of four requests, and
  an error for every other one. Sessions can be made once three attempts have failed; the state of the
  network counts the attempts.
\<close>

text \<open>What a cycle collects when the runtime ranges over maps in the order of insertion.\<close>

definition scraped :: "('n, 's, 'e) Outside \<Rightarrow> string \<Rightarrow> bool \<Rightarrow> Config \<Rightarrow> 'n World list \<Rightarrow> 'e client_error Snapshot" where
  "scraped ou dumpDir tr cfg ws =
     BuildSnapshot (id_order 0) (map (\<lambda>(cs, c, w). Some cs)
       (scrape_all (any_ops ou) (\<lambda>_. id_order) (clock ou) False (buildClients ou False dumpDir tr cfg ws)))"

text \<open>The bodies of four requests, and an error for every other one.\<close>

definition live_reply :: "string \<Rightarrow> string option" where
  "live_reply = map_of
    [(''platform/3/cluster/config'', ''{\"name\":\"lab\",\"guid\":\"0050\",\"onefs_version\":{\"release\":\"9.5\"}}''),
     (''platform/3/cluster/nodes'', ''{\"nodes\":[{\"id\":1,\"lnn\":7,\"hardware\":{},\"drives\":[{\"present\":true,\"ui_state\":\"HEALTHY\"}]}]}''),
     (''platform/25/quota/quotas'', ''{\"quotas\":[]}''),
     (''platform/1/statistics/current'', ''{\"stats\":[]}'')]"

definition live_outside :: "(nat, unit, string) Outside" where
  "live_outside =
     \<lparr>ou_New = (\<lambda>d url user pw insecure n. if n < 3 then (Inl ''no route to host'', n + 1) else (Inr (), n)),
      ou_Get = (\<lambda>s d path ps n. (case live_reply path of Some b \<Rightarrow> Inr b | None \<Rightarrow> Inl ''404'', n)),
      ou_Version = (\<lambda>s. 25), ou_JSONError = (\<lambda>e. None), ou_HTMLError = (\<lambda>e. None),
      ou_Now = (\<lambda>n. 5000000000), ou_Mkdir = (\<lambda>d f. True), ou_Write = (\<lambda>d f. True),
      ou_Left = (\<lambda>d f b. None), ou_Int = (\<lambda>v. 0)\<rparr>"

definition live_world :: "nat \<Rightarrow> nat World" where
  "live_world n = \<lparr>wo_net = n, wo_trace = [], wo_files = []\<rparr>"

definition live_client :: "unit ClusterClient" where
  "live_client = \<lparr>cl_name = ''lab'', cl_cli = (), cl_baseURL = ''https://10.0.0.1:8080'', cl_dumpDir = [], cl_trace = False\<rparr>"

definition live_node :: Node where
  "live_node =
     \<lparr>nd_ID = 1, nd_LNN = 7, nd_Readonly = False, nd_Smartfail = False, nd_DrivesByState = [(''HEALTHY'', 1)],
      nd_PowerSupplies = 0, nd_PowerSupplyFailures = 0, nd_Temperatures = [], nd_Fans = [], nd_Product = [],
      nd_Series = [], nd_HWGen = []\<rparr>"

definition live_inventory :: Inventory where
  "live_inventory =
     \<lparr>iv_Cluster = \<lparr>ci_Name = ''lab'', ci_GUID = ''0050'', ci_Release = ''9.5''\<rparr>, iv_Nodes = [live_node], iv_Quotas = [],
      iv_Counts = \<lparr>ct_NFSExports = 0, ct_SMBShares = 0, ct_Snapshots = 0\<rparr>, iv_Snapshot = \<lparr>ss_UsedBytes = 0\<rparr>,
      iv_SyncPolicies = [], iv_Events = [], iv_Dedupe = \<lparr>dd_LogicalSavedBytes = 0, dd_DeduplicatedBytes = 0\<rparr>,
      iv_Licenses = [], iv_StoragePools = []\<rparr>"

definition live_statistics :: Statistics where
  "live_statistics = \<lparr>st_Current = [], st_Proto = [], st_Drives = [], st_Clients = [], st_Workloads = []\<rparr>"

definition live_samples :: "Sample list" where
  "live_samples =
     (let base = [label ''cluster'' ''lab'', label ''cluster_id'' ''0050'']; node = base @ [label ''node'' ''7'']
      in [sample ''powerscale_nfs_exports'' base 0, sample ''powerscale_smb_shares'' base 0,
          sample ''powerscale_snapshots'' base 0, sample ''powerscale_node_readonly'' node 0,
          sample ''powerscale_node_smartfail'' node 0,
          sample ''powerscale_node_drives'' (node @ [label ''state'' ''HEALTHY'']) 1,
          sample ''powerscale_snapshot_used_bytes'' base 0, sample ''powerscale_dedupe_logical_saved_bytes'' base 0,
          sample ''powerscale_dedupe_deduplicated_bytes'' base 0])"

lemma live_built: "BuildSamples id_order ''lab'' (Some live_inventory) (Some live_statistics) = live_samples"
  by code_simp

lemma live_pool: "buildClients live_outside False [] False (SetDefaults example_config) [live_world 3] = [(Direct live_client, (live_world 3))]"
proof -
  have "map (\<lambda>cl. (cc_Name cl, BaseURL cl)) (cf_Clusters (SetDefaults example_config)) = [(''lab'', ''https://10.0.0.1:8080'')]"
    by code_simp
  then show ?thesis
    by (auto simp: buildClients_def build_client_def NewClusterClient_def live_outside_def live_client_def live_world_def)
qed

text \<open>The requests: their bodies read, and the paths without one.\<close>

lemma live_config: "map_option ParseClusterConfig (live_reply ''platform/3/cluster/config'') = Some (Inr (iv_Cluster live_inventory))"
  by code_simp

lemma live_nodes: "map_option ParseNodes (live_reply ''platform/3/cluster/nodes'') = Some (Inr [live_node])"
  by code_simp

lemma live_quotas: "map_option ParseQuotas (live_reply ''platform/25/quota/quotas'') = Some (Inr [])"
  by code_simp

lemma live_stats: "map_option ParseStatCurrent (live_reply ''platform/1/statistics/current'') = Some (Inr [])"
  by code_simp

lemma live_missing:
  "list_all (\<lambda>p. live_reply p = None)
    [''platform/4/protocols/nfs/exports'', ''platform/1/protocols/smb/shares'', ''platform/1/snapshot/snapshots'',
     ''platform/1/snapshot/snapshots-summary'', ''platform/7/sync/policies'', ''platform/3/event/eventgroup-occurrences'',
     ''platform/1/dedupe/dedupe-summary'', ''platform/5/license/licenses'', ''platform/1/storagepool/storagepools'',
     ''platform/3/statistics/summary/drive'', ''platform/3/statistics/summary/client'',
     ''platform/4/statistics/summary/workload'', ''platform/3/statistics/summary/protocol'']"
  by code_simp

lemma live_paths: "quota_path live_outside live_client = ''platform/25/quota/quotas''"
  "protocol_path live_outside live_client = ''platform/3/statistics/summary/protocol''"
  by code_simp+

lemma live_get:
  "getRawParams live_outside live_client d path ps w =
     (case live_reply path of Some b \<Rightarrow> Inr b | None \<Rightarrow> Inl (GetFailed ''lab'' ''https://10.0.0.1:8080'' path ''404''), w)"
  by (cases w) (simp add: getRawParams_def live_outside_def live_client_def traceResponse_def dump_def Let_def split: option.split)

lemma live_fetch:
  "map_option parse (live_reply path) = Some (Inr x) \<Longrightarrow> fetch live_outside live_client d path ps what parse w = (Inr x, w)"
  by (auto simp: fetch_def live_get)

lemma live_best_effort: "live_reply path = None \<Longrightarrow> best_effort live_outside live_client d path parse x w = (x, w)"
  by (simp add: best_effort_def getRaw_def live_get)

lemma live_calls:
  "GetInventory live_outside live_client d w = (Inr live_inventory, w)"
  "GetStatistics live_outside live_client d w = (Inr live_statistics, w)"
proof -
  note best = live_missing [unfolded list.pred_inject]
  show "GetInventory live_outside live_client d w = (Inr live_inventory, w)"
    by (simp add: GetInventory_def on_ok_def live_paths live_fetch [OF live_config] live_fetch [OF live_nodes]
        live_fetch [OF live_quotas] inventory_rest_def inventoryCounts_def count_total_def snapshotSummary_def
        syncPolicies_def activeEvents_def dedupeSummary_def licenses_def storagePools_def live_best_effort best)
      (simp add: live_inventory_def)
  show "GetStatistics live_outside live_client d w = (Inr live_statistics, w)"
    by (simp add: GetStatistics_def on_ok_def live_paths live_fetch [OF live_stats] driveSummary_def clientSummary_def
        workloadSummary_def live_best_effort best live_statistics_def)
qed

definition live_snapshot :: "string client_error Snapshot" where
  "live_snapshot =
     BuildSnapshot (id_order 0) [Some \<lparr>cs_Cluster = ''lab'', cs_Up = True, cs_APIVersion = 25, cs_ScrapeError = None,
       cs_LastScrape = Some 5000000000, cs_Samples = live_samples\<rparr>]"

lemma live_scraped: "scraped live_outside [] False (SetDefaults example_config) [live_world 3] = live_snapshot"
proof -
  have "fst (scrape (any_ops live_outside) id_order (clock live_outside) False (Direct live_client, (live_world 3))) =
     \<lparr>cs_Cluster = ''lab'', cs_Up = True, cs_APIVersion = 25, cs_ScrapeError = None, cs_LastScrape = Some 5000000000, cs_Samples = live_samples\<rparr>"
    by (simp add: scrape_phases end_inventory_def end_statistics_def any_ops_def Let_def wrap_def cluster_ops_def
        live_calls APIVersion_def new_snapshot_def)
      (simp add: live_outside_def live_client_def live_built clock_def)
  then show ?thesis by (simp add: scraped_def live_snapshot_def live_pool scrape_all_def case_prod_beta)
qed

section \<open>The cluster comes up late\<close>

definition live_cluster :: ClusterConfig where
  "live_cluster = hd (cf_Clusters (SetDefaults example_config))"

lemma live_clusters: "cf_Clusters (SetDefaults example_config) = [live_cluster]"
  by code_simp

lemma live_cluster_sel: "cc_Name live_cluster = ''lab''" "BaseURL live_cluster = ''https://10.0.0.1:8080''"
  by code_simp+

definition live_lazy :: "(nat, unit, string) AnyClient" where
  "live_lazy = Lazy (NewLazyClient ''lab'' (\<lambda>d. NewClusterClient live_outside d live_cluster [] False))"

lemma live_create:
  "NewClusterClient live_outside d live_cluster [] False (live_world n) =
     (if n < 3 then (Inl (AuthFailed ''lab'' ''no route to host''), live_world (n + 1)) else (Inr live_client, live_world n))"
  by (simp add: NewClusterClient_def live_outside_def live_world_def live_client_def live_cluster_sel)

lemma late_pool: "buildClients live_outside False [] False (SetDefaults example_config) [live_world 0] = [(live_lazy, live_world (Suc 0))]"
  by (simp add: buildClients_def live_clusters build_client_def live_create live_lazy_def live_cluster_sel)

text \<open>The first cycle finds the cluster down, the second one up.\<close>

lemma late_first:
  "scrape (any_ops live_outside) id_order (clock live_outside) False (live_lazy, live_world (Suc 0)) =
     (down_snapshot ''lab'', live_lazy, live_world 3)"
  by (simp add: scrape_phases end_inventory_def live_lazy_def any_ops_def Let_def wrap_def lazy_ops_def delegate_def
      lazy_get_def NewLazyClient_def live_create new_snapshot_def down_snapshot_def)
    (simp add: clock_def live_outside_def numeral_3_eq_3)

lemma late_second:
  "fst (scrape (any_ops live_outside) id_order (clock live_outside) False (live_lazy, live_world 3)) =
     \<lparr>cs_Cluster = ''lab'', cs_Up = True, cs_APIVersion = 25, cs_ScrapeError = None,
      cs_LastScrape = Some 5000000000, cs_Samples = live_samples\<rparr>"
  by (simp add: scrape_phases end_inventory_def end_statistics_def live_lazy_def any_ops_def Let_def wrap_def lazy_ops_def
      delegate_def lazy_get_def NewLazyClient_def live_create new_snapshot_def live_calls cluster_ops_def APIVersion_def)
    (simp add: live_outside_def live_client_def live_built clock_def)

end
