(* ===== verification/Agreement.thy ===== *)
theory Agreement
  imports Attribution ExampleLive
begin

text \<open>
  The two export paths compared: in every state a run can reach, an OTLP push observes, of the metrics
  with an instrument, the same series with the same values as the metrics page shows, once repeated
  label sets are dropped; and an instrument is only made at startup and when a reload changes the
  clusters.
\<close>

section \<open>Instruments of a reachable state\<close>

lemma ensure_distinct: "distinct (ot_registered e) \<Longrightarrow> distinct (ot_registered (fst (EnsureInstruments g e store)))"
  using ensure_loop_reg [of g "ot_registered e" "MetricNames (Load store)"]
  by (auto simp: EnsureInstruments_def split: prod.splits)

definition instruments_ok :: "('n, 's, 'e) Server \<Rightarrow> bool" where
  "instruments_ok s \<longleftrightarrow> (case sr_otlp s of None \<Rightarrow> True | Some e \<Rightarrow> distinct (ot_registered e))"

lemma new_exporter: "NewOTLPExporter sdk oc ver = Some e \<Longrightarrow> ot_registered e = []"
  by (auto simp: NewOTLPExporter_def newOTLPExporter_def Let_def split: if_splits)

lemma instruments_init: "sr_otlp s = None \<Longrightarrow> instruments_ok (initOTLP sdk s)"
proof (cases "NewOTLPExporter sdk (op_Metrics (cf_OpenTelemetry (sc_C (sr_cfg s)))) (ms_version sdk)")
  case (Some e)
  moreover assume "sr_otlp s = None"
  ultimately show ?thesis using ensure_distinct [of e "ms_gauge sdk" "sr_store s"] new_exporter [OF Some]
    by (auto simp: initOTLP_def instruments_ok_def split: prod.splits)
qed (simp add: initOTLP_def instruments_ok_def)

lemma instruments_reload: "instruments_ok s \<Longrightarrow> instruments_ok (reload_instruments sdk s)"
  by (auto simp: reload_instruments_def instruments_ok_def intro: ensure_distinct split: option.splits)

lemma start_otlp: "startCollection ou dumpDir tr once s s' \<Longrightarrow> sr_otlp s' = sr_otlp s"
  by (erule startCollection.cases) simp

lemma reachable_instruments: "reachable ou dumpDir tr sdk sc s \<Longrightarrow> instruments_ok s"
proof (induction rule: reachable.induct)
  case (started ord s)
  then show ?case using start_otlp [OF started(2)] by (intro instruments_init) (simp add: NewServer_def)
next
  case (moved s s')
  have same: "sr_otlp t = sr_otlp s \<Longrightarrow> instruments_ok t" for t :: "('a, 'b, 'c) Server"
    using moved.IH by (simp add: instruments_ok_def)
  from moved.hyps(2) show ?case
  proof (cases rule: server_step.cases)
    case (reload_start s1)
    with start_otlp [OF reload_start(3)] same show ?thesis by (simp add: instruments_reload)
  qed (simp_all add: same stopCollection_def split: option.split)
qed

section \<open>Deduplication\<close>

text \<open>Keys that identify the same elements drop the same ones.\<close>

lemma nub_by_cong:
  assumes "\<forall>x \<in> A. \<forall>y \<in> A. k x = k y \<longleftrightarrow> k' x = k' y" and "set xs \<subseteq> A" and "set zs \<subseteq> A"
  shows "nub_by k (map k zs) xs = nub_by k' (map k' zs) xs"
  using assms(2,3)
proof (induction xs arbitrary: zs)
  case (Cons x xs)
  have "k x \<in> set (map k zs) \<longleftrightarrow> k' x \<in> set (map k' zs)" using assms(1) Cons.prems by auto
  with Cons.IH [of zs] Cons.IH [of "x # zs"] Cons.prems show ?case by simp
qed simp

lemma nub_by_map: "nub_by k seen (map f xs) = map f (nub_by (k \<circ> f) seen xs)"
  by (induction xs arbitrary: seen) auto

lemma nub_by_seen:
  "\<forall>x \<in> set xs. k x \<in> set seen \<longleftrightarrow> k x \<in> set seen' \<Longrightarrow> nub_by k seen xs = nub_by k seen' xs"
proof (induction xs arbitrary: seen seen')
  case (Cons x xs)
  then show ?case using Cons.IH [of seen seen'] Cons.IH [of "k x # seen" "k x # seen'"] by auto
qed simp

lemma nub_by_append:
  assumes "k ` set xs \<inter> k ` set ys = {}"
  shows "nub_by k seen (xs @ ys) = nub_by k seen xs @ nub_by k seen ys"
  using assms
proof (induction xs arbitrary: seen)
  case (Cons x xs)
  have "\<forall>y \<in> set ys. k y \<noteq> k x"
  proof
    fix y assume "y \<in> set ys"
    then have "k y \<in> k ` set ys" by simp
    with Cons.prems show "k y \<noteq> k x" by auto
  qed
  then have "nub_by k (k x # seen) ys = nub_by k seen ys" by (intro nub_by_seen) auto
  with Cons show ?case by auto
qed simp

text \<open>Parts told apart by a tag are deduplicated each on its own.\<close>

lemma nub_by_concat:
  assumes "distinct ns" and "\<And>n x. n \<in> set ns \<Longrightarrow> x \<in> set (f n) \<Longrightarrow> tag (k x) = n"
  shows "nub_by k [] (concat (map f ns)) = concat (map (\<lambda>n. nub_by k [] (f n)) ns)"
  using assms
proof (induction ns)
  case (Cons n ns)
  have "k ` set (f n) \<inter> k ` set (concat (map f ns)) = {}"
  proof -
    have False if "x \<in> set (f n)" "m \<in> set ns" "y \<in> set (f m)" "k x = k y" for x y m
      using Cons.prems(2) [of n x] Cons.prems(2) [of m y] that Cons.prems(1) by auto
    then show ?thesis by fastforce
  qed
  with Cons show ?case by (simp add: nub_by_append)
qed simp

lemma concat_relevant:
  assumes "distinct ms" and "distinct ns" and "\<And>n. n \<notin> set ms \<Longrightarrow> F n = []"
  shows "mset (concat (map F (filter (\<lambda>n. n \<in> set ns) ms))) = mset (concat (map F ns))"
proof -
  have "concat (map F ns) = concat (map F (filter (\<lambda>n. n \<in> set ms) ns))"
    using assms(3) by (induction ns) auto
  moreover have "mset (filter (\<lambda>n. n \<in> set ns) ms) = mset (filter (\<lambda>n. n \<in> set ms) ns)"
    using assms(1,2) by (subst set_eq_iff_mset_eq_distinct [symmetric]) auto
  then have "mset (concat (map F (filter (\<lambda>n. n \<in> set ns) ms))) = mset (concat (map F (filter (\<lambda>n. n \<in> set ms) ns)))"
    by (metis mset_map mset_concat sum_mset_sum_list)
  ultimately show ?thesis by simp
qed

section \<open>The two paths\<close>

text \<open>What client_golang must accept for a snapshot to be shown whole.\<close>

definition series_safe :: "const_check \<Rightarrow> 'e Snapshot \<Rightarrow> bool" where
  "series_safe ok snap \<longleftrightarrow>
     list_all (\<lambda>n. list_all (\<lambda>x. accepted ok x \<and> nul_free (sampleLabelValues x)) (SamplesByName snap n)) (MetricNames snap)"

text \<open>An observation of a push, and the series it belongs to.\<close>

definition observation :: "Sample \<Rightarrow> string \<times> f64 \<times> (string \<times> string) list" where
  "observation s = (sm_Name s, sm_Value s, attrsFor (sm_Labels s))"

definition observed_series :: "string \<times> f64 \<times> (string \<times> string) list \<Rightarrow> string \<times> (string \<times> string) list" where
  "observed_series ob = (case ob of (n, v, attrs) \<Rightarrow> (n, attrs))"

definition shown :: "Metric \<Rightarrow> string \<times> f64 \<times> (string \<times> string) list" where
  "shown m = (mt_Name m, mt_Value m, mt_Labels m)"

lemma shown_metric: "shown (metric_of s) = observation s"
  by (simp add: shown_def metric_of_def const_metric_def observation_def attrsFor_def sampleLabelNames_def
      sampleLabelValues_def zip_map_map zip_same_conv_map comp_def)

lemma observed_key: "observed_series (observation s) = (sm_Name s, attrsFor (sm_Labels s))"
  by (simp add: observed_series_def observation_def)

lemma same_attrs:
  assumes "sampleLabelNames s = sampleLabelNames t"
  shows "attrsFor (sm_Labels s) = attrsFor (sm_Labels t) \<longleftrightarrow> sampleLabelValues s = sampleLabelValues t"
proof -
  have "attrsFor (sm_Labels x) = zip (sampleLabelNames x) (sampleLabelValues x)" for x
    by (simp add: attrsFor_def sampleLabelNames_def sampleLabelValues_def zip_map_map zip_same_conv_map comp_def)
  then show ?thesis using assms by (metis length_labels map_fst_zip map_snd_zip)
qed

lemma own_names:
  assumes "own_snapshot ou snap"
  shows "distinct (MetricNames snap)" and "n \<notin> set (MetricNames snap) \<Longrightarrow> SamplesByName snap n = []"
proof -
  obtain ord i rs where snap: "snap = BuildSnapshot (ord i) rs" and ord: "is_order ord"
    using assms unfolding own_snapshot_def by blast
  note names = MetricNames_Build [OF ord, of i rs]
  then show "distinct (MetricNames snap)" by (simp add: snap)
  show "SamplesByName snap n = []" if "n \<notin> set (MetricNames snap)"
    using names that by (auto simp: snap SamplesByName_Build filter_empty_conv)
qed

lemma emit_shown:
  assumes "own_snapshot ou snap" and "series_safe ok snap"
  shows "map shown (emit_name ok snap n) = nub_by observed_series [] (map observation (SamplesByName snap n))"
proof -
  let ?ss = "SamplesByName snap n"
  have conf: "conforms s \<and> sm_Name s = n" if "s \<in> set ?ss" for s using snapshot_sample [OF assms(1) that] by blast
  have safe: "accepted ok s \<and> nul_free (sampleLabelValues s)" if "s \<in> set ?ss" for s
    using that assms(2) own_names(2) [OF assms(1), of n] by (cases "n \<in> set (MetricNames snap)") (auto simp: series_safe_def list_all_iff)
  have named: "?ss = filter (\<lambda>s. sm_Name s = n) ?ss" using conf by (simp add: filter_id_conv)
  have "emit_name ok snap n = map metric_of (nub_by sampleLabelValues [] (filter (\<lambda>s. sm_Name s = n) ?ss))"
    using conf safe named by (intro emit_name_nub) (auto simp: list_all_iff)
  then have "map shown (emit_name ok snap n) = map observation (nub_by sampleLabelValues [] ?ss)"
    using named by (simp add: shown_metric comp_def)
  moreover have "nub_by (observed_series \<circ> observation) [] ?ss = nub_by sampleLabelValues [] ?ss"
  proof -
    have "(observed_series \<circ> observation) s = (observed_series \<circ> observation) t \<longleftrightarrow> sampleLabelValues s = sampleLabelValues t"
      if "s \<in> set ?ss" "t \<in> set ?ss" for s t
      using conf [OF that(1)] conf [OF that(2)] conforms_labels [of s t] same_attrs [of s t] by (simp add: observed_key)
    from nub_by_cong [of "set ?ss" "observed_series \<circ> observation" sampleLabelValues ?ss "[]"] this show ?thesis by simp
  qed
  ultimately show ?thesis by (simp add: nub_by_map)
qed

text \<open>The page keeps, of the observations of a series a push carries, the first.\<close>

lemma page_is_first:
  assumes "reachable ou dumpDir tr sdk sc s" and "distinct (configured sc)"
    and "sr_otlp s = Some e" and "series_safe ok (Load (sr_store s))"
    and "Collect ok o1 (Load (sr_store s)) = Some ms"
  shows "mset (map shown (filter (\<lambda>m. mt_Name m \<notin> set health_names \<and> mt_Name m \<in> set (ot_registered e)) ms)) =
    mset (nub_by observed_series [] (push e (sr_store s)))"
proof -
  let ?snap = "Load (sr_store s)" and ?reg = "ot_registered e"
  have own: "own_snapshot ou ?snap" using reachable_clusters_ok [OF assms(1,2)] by blast
  have dist: "distinct ?reg" using reachable_instruments [OF assms(1)] assms(3) by (simp add: instruments_ok_def)
  let ?F = "\<lambda>n. map shown (emit_name ok ?snap n)" and ?obs = "\<lambda>n. map observation (SamplesByName ?snap n)"
  have not_health: "n \<notin> set health_names" if mem: "m \<in> set (emit_name ok ?snap n)" for m n
  proof -
    obtain x where x: "x \<in> set (SamplesByName ?snap n)"
      using emit_name_mem(2) [OF mem] by (cases "SamplesByName ?snap n") auto
    with snapshot_sample [OF own x] have "map_of metric_schema n \<noteq> None" by (auto simp: conforms_def)
    with health_not_in_schema show ?thesis by (auto simp: list_all_iff)
  qed
  have part: "filter (\<lambda>m. mt_Name m \<notin> set health_names \<and> mt_Name m \<in> set ?reg) (emit_name ok ?snap n) =
      (if n \<in> set ?reg then emit_name ok ?snap n else [])" for n
    using emit_name_mem(1) not_health by (auto simp: filter_id_conv filter_empty_conv)
  have health: "filter (\<lambda>m. mt_Name m \<notin> set health_names \<and> mt_Name m \<in> set ?reg) (health_metrics p) = []" for p
    using health_metrics_facts [of _ p] by (auto simp: filter_empty_conv)
  have "filter (\<lambda>m. mt_Name m \<notin> set health_names \<and> mt_Name m \<in> set ?reg) ms =
      concat (map (emit_name ok ?snap) (filter (\<lambda>n. n \<in> set ?reg) (MetricNames ?snap)))"
  proof -
    have "concat (map (\<lambda>n. if n \<in> set ?reg then emit_name ok ?snap n else []) ns) =
        concat (map (emit_name ok ?snap) (filter (\<lambda>n. n \<in> set ?reg) ns))" for ns
      by (induction ns) auto
    then show ?thesis
      unfolding Collect_Some [OF assms(5)] by (simp add: filter_concat comp_def part health)
  qed
  then have "mset (map shown (filter (\<lambda>m. mt_Name m \<notin> set health_names \<and> mt_Name m \<in> set ?reg) ms)) =
      mset (concat (map ?F (filter (\<lambda>n. n \<in> set ?reg) (MetricNames ?snap))))"
    by (simp add: map_concat comp_def)
  also have "\<dots> = mset (concat (map ?F ?reg))"
    using own_names(2) [OF own] by (intro concat_relevant own_names(1) [OF own] dist) (simp add: emit_name_def)
  also have "\<dots> = mset (concat (map (\<lambda>n. nub_by observed_series [] (?obs n)) ?reg))"
    by (simp only: emit_shown [OF own assms(4)])
  also have "concat (map (\<lambda>n. nub_by observed_series [] (?obs n)) ?reg) = nub_by observed_series [] (concat (map ?obs ?reg))"
    using snapshot_sample [OF own]
    by (intro nub_by_concat [where tag = fst, symmetric] dist) (auto simp: observed_key)
  also have "concat (map ?obs ?reg) = push e (sr_store s)"
  proof -
    have "map (Pair n) (callback (sr_store s) n) = ?obs n" for n
      using snapshot_sample [OF own] by (auto simp: callback_def observation_def)
    then show ?thesis by (simp add: push_def)
  qed
  finally show ?thesis .
qed

lemma nub_by_mset: "mset (nub_by k seen xs) \<subseteq># mset xs"
  by (induction xs arbitrary: seen) (auto simp: subseteq_mset_def intro: le_SucI)

text \<open>C9: The two exports agree, in every reachable state with an OTLP exporter, on the metrics that have an
  instrument. What the page shows is part of what a push observes, with name, labels and value; the
  page and the push have the same series; and when no series is observed twice the page and the push
  are the same, observation for observation. (Of a series observed twice with different values the page
  shows one and the push carries both to the SDK: which of them the SDK exports is the SDK's.) This asks
  that client_golang accepts the series and that no label value contains a NUL byte.\<close>

theorem exports_agree:
  assumes "reachable ou dumpDir tr sdk sc s" and "distinct (configured sc)"
    and "sr_otlp s = Some e" and "series_safe ok (Load (sr_store s))"
    and "Collect ok o1 (Load (sr_store s)) = Some ms"
    and "page = map shown (filter (\<lambda>m. mt_Name m \<notin> set health_names \<and> mt_Name m \<in> set (ot_registered e)) ms)"
  shows "mset page \<subseteq># mset (push e (sr_store s))
    \<and> observed_series ` set page = observed_series ` set (push e (sr_store s))
    \<and> distinct (map observed_series page)
    \<and> (distinct (map observed_series (push e (sr_store s))) \<longrightarrow> mset page = mset (push e (sr_store s)))"
proof -
  let ?push = "push e (sr_store s)"
  have page: "mset page = mset (nub_by observed_series [] ?push)"
    unfolding assms(6) by (rule page_is_first [OF assms(1-5)])
  have "set page = set (nub_by observed_series [] ?push)" using page by (metis set_mset_mset)
  then have "observed_series ` set page = observed_series ` set ?push"
    using keys_nub_by [of observed_series "[]" ?push] by simp
  moreover have "distinct (map observed_series page)"
    using mset_eq_imp_distinct_iff [of "map observed_series page" "map observed_series (nub_by observed_series [] ?push)"] page
    by (simp add: distinct_nub_by)
  ultimately show ?thesis
    using page nub_by_mset [of observed_series "[]" ?push] nub_by_distinct_id [of observed_series ?push "[]"] by simp
qed

section \<open>Example states\<close>

lemma example_otlp:
  assumes "sr_cfg s = example_safe"
  shows "map_option ot_registered (sr_otlp (initOTLP example_sdk s)) =
        Some (fst (ensure_loop (\<lambda>reg n. True) [] (MetricNames (Load (sr_store s)))))"
proof -
  have on: "IsOTelMetricsEnabled (sc_C example_safe)" by code_simp
  have "\<exists>r. ensure_loop (\<lambda>reg n. True) reg ns = (r, True)" for reg ns
    by (induction "\<lambda>(reg :: string list) (n :: string). True" reg ns rule: ensure_loop.induct) auto
  then obtain r where "ensure_loop (\<lambda>reg n. True) [] (MetricNames (Load (sr_store s))) = (r, True)" by blast
  with on assms show ?thesis
    by (simp add: initOTLP_def NewOTLPExporter_def newOTLPExporter_def EnsureInstruments_def example_sdk_def)
qed

text \<open>The state after the first cycle, on a cluster that answers and on one that does so later.\<close>

definition first_state :: "(nat, unit, string) Server \<Rightarrow> nat \<Rightarrow> bool" where
  "first_state s n \<longleftrightarrow>
     reachable live_outside [] False example_sdk example_safe s \<and> \<not> sr_restart s \<and> sr_cfg s = example_safe
     \<and> Load (sr_store s) = scraped live_outside [] False (SetDefaults example_config) [live_world n]
     \<and> map_option ot_registered (sr_otlp s) = Some (fst (ensure_loop (\<lambda>reg n. True) [] (MetricNames (Load (sr_store s)))))
     \<and> length (sr_loops s) = 1 \<and> lp_phase (sr_loops s ! 0) = Waiting
     \<and> lp_pool (sr_loops s ! 0) = map snd (scrape_all (any_ops live_outside) (\<lambda>_. id_order) (clock live_outside) False
          (buildClients live_outside False [] False (SetDefaults example_config) [live_world n]))"

lemma first_state: "\<exists>s. first_state s n"
proof -
  let ?s0 = "NewServer (id_order 0) example_safe :: (nat, unit, string) Server"
  let ?cfg = "SetDefaults example_config"
  have cfg: "sc_C (sr_cfg ?s0) = ?cfg" by (simp add: NewServer_def example_safe_def NewSafeConfig_def)
  obtain snap pool' h' where c: "collectAll (any_ops live_outside) (\<lambda>_. id_order) (clock live_outside) False (id_order 0)
      (buildClients live_outside False [] False ?cfg [live_world n]) no_explanations snap pool' h'"
    using collectAll_total by metis
  note r = collectAll_result [OF c]
  have "length [live_world n] = length (cf_Clusters ?cfg)" by (simp add: live_clusters)
  note s1 = startCollection.start [OF cfg [symmetric] this some_orders c, of False]
  let ?s1 = "?s0\<lparr>sr_store := Store (sr_store ?s0) snap,
      sr_loops := if False then sr_loops ?s0 else sr_loops ?s0 @ [new_loop ?cfg pool' h'],
      sr_cancel := if False then sr_cancel ?s0 else Some (length (sr_loops ?s0))\<rparr>"
  have "reachable live_outside [] False example_sdk example_safe (initOTLP example_sdk ?s1)"
    by (rule reachable.started [OF is_order_id s1])
  moreover have "GetCollectionInterval ?cfg > 0" by code_simp
  moreover have otlp: "sr_cfg ?s1 = example_safe" by (simp add: NewServer_def)
  moreover note example_otlp [OF otlp]
  ultimately have "first_state (initOTLP example_sdk ?s1) n"
    using r unfolding first_state_def by (simp add: NewServer_def scraped_def new_loop_def)
  then show ?thesis by blast
qed

lemma example_configured: "distinct (configured example_safe)"
  by code_simp

lemma live_page:
  "series_safe same_length live_snapshot
   \<and> map_option (\<lambda>ms. (length ms, length (filter (\<lambda>m. mt_Name m \<notin> set health_names) ms))) (Collect same_length id live_snapshot) =
       Some (12, 9)
   \<and> fst (ensure_loop (\<lambda>reg n. True) [] (MetricNames live_snapshot)) = MetricNames live_snapshot"
  by code_simp

lemma live_collect:
  "\<exists>ms. Collect same_length id live_snapshot = Some ms \<and> length ms = 12
     \<and> length (filter (\<lambda>m. mt_Name m \<notin> set health_names) ms) = 9"
  using live_page by auto

lemma live_push:
  "let os = push (example_exporter (MetricNames live_snapshot)) \<lparr>so_current = live_snapshot\<rparr>
   in distinct (map observed_series os) \<and> length os = 9"
  by code_simp

lemma push_cong: "ot_registered e = ot_registered e' \<Longrightarrow> Load st = Load st' \<Longrightarrow> push e st = push e' st'"
  by (simp add: push_def callback_def)

theorem exports_agree_witness:
  "\<exists>s e ms. reachable live_outside [] False example_sdk example_safe s \<and> sr_otlp s = Some e
     \<and> Collect same_length id (Load (sr_store s)) = Some ms
     \<and> mset (map shown (filter (\<lambda>m. mt_Name m \<notin> set health_names \<and> mt_Name m \<in> set (ot_registered e)) ms)) =
         mset (push e (sr_store s))
     \<and> ot_registered e = MetricNames live_snapshot \<and> length ms = 12 \<and> length (push e (sr_store s)) = 9"
proof -
  obtain s where s: "first_state s 3" using first_state by blast
  have snap: "Load (sr_store s) = live_snapshot" using s by (simp add: first_state_def live_scraped)
  obtain e where e: "sr_otlp s = Some e" "ot_registered e = MetricNames live_snapshot"
    using s live_page by (auto simp: first_state_def live_scraped)
  obtain ms where ms: "Collect same_length id (Load (sr_store s)) = Some ms" "length ms = 12"
    using live_collect by (auto simp: snap)
  have reach: "reachable live_outside [] False example_sdk example_safe s" using s by (simp add: first_state_def)
  have "series_safe same_length (Load (sr_store s))" using live_page snap by simp
  note agree = exports_agree [OF reach example_configured e(1) this ms(1) refl]
  have "push e (sr_store s) = push (example_exporter (MetricNames live_snapshot)) \<lparr>so_current = live_snapshot\<rparr>"
    using e(2) snap by (intro push_cong) (simp_all add: example_exporter_def Load_def)
  then have "distinct (map observed_series (push e (sr_store s))) \<and> length (push e (sr_store s)) = 9"
    using live_push by (simp add: Let_def)
  with agree reach e ms show ?thesis by blast
qed

text \<open>Only the step that completes a reload of the clusters can change the instruments.\<close>

lemma instruments_kept: "server_step ou dumpDir tr sdk s s' \<Longrightarrow> \<not> sr_restart s \<Longrightarrow> sr_otlp s' = sr_otlp s"
  by (cases rule: server_step.cases) (auto simp: stopCollection_def split: option.split)

text \<open>C24: A metric that appears late is not pushed: the exporter reaches a state in which its only cluster,
  down during the first cycle, is up and its data are on the metrics page, while an OTLP push carries
  nothing, because no cycle makes an instrument.\<close>

theorem late_metrics_not_pushed:
  "\<exists>s e ms. reachable live_outside [] False example_sdk example_safe s \<and> sr_otlp s = Some e
     \<and> Collect same_length id (Load (sr_store s)) = Some ms \<and> length (filter (\<lambda>m. mt_Name m \<notin> set health_names) ms) = 9
     \<and> push e (sr_store s) = []"
proof -
  obtain s where s: "first_state s 0" using first_state by blast
  have pool: "lp_pool (sr_loops s ! 0) = [(live_lazy, live_world 3)]"
    using s by (simp add: first_state_def late_pool scrape_all_def late_first)
  have "MetricNames (Load (sr_store s)) = MetricNames (BuildSnapshot (id_order 0) [Some (down_snapshot ''lab'')])"
    using s by (simp add: first_state_def scraped_def late_pool scrape_all_def late_first)
  also have "\<dots> = []" by code_simp
  finally obtain e where e: "sr_otlp s = Some e" "ot_registered e = []" using s by (auto simp: first_state_def)
  have s0: "reachable live_outside [] False example_sdk example_safe s" "length (sr_loops s) = 1"
    "lp_phase (sr_loops s ! 0) = Waiting"
    using s by (simp_all add: first_state_def)
  let ?s1 = "s\<lparr>sr_loops := (sr_loops s)[0 := (sr_loops s ! 0)\<lparr>lp_phase := Collecting\<rparr>]\<rparr>"
  have s1: "reachable live_outside [] False example_sdk example_safe ?s1"
    by (rule reachable.moved [OF s0(1) server_step.tick [OF _ s0(3)]]) (simp add: s0(2))
  obtain snap pool' h' where c: "collectAll (any_ops live_outside) (\<lambda>_. id_order) (clock live_outside) False (id_order 0)
      (lp_pool (sr_loops ?s1 ! 0)) (lp_hw (sr_loops ?s1 ! 0)) snap pool' h'"
    using collectAll_total by metis
  have snap: "snap = live_snapshot"
    using collectAll_result [OF c] s0(2) by (simp add: pool scrape_all_def case_prod_beta late_second live_snapshot_def)
  let ?s2 = "?s1\<lparr>sr_store := Store (sr_store ?s1) snap,
      sr_loops := (sr_loops ?s1)[0 := (sr_loops ?s1 ! 0)\<lparr>lp_phase := Waiting, lp_pool := pool', lp_hw := h'\<rparr>]\<rparr>"
  have s2: "reachable live_outside [] False example_sdk example_safe ?s2"
    by (rule reachable.moved [OF s1 server_step.publish [OF _ _ _ some_orders c]]) (simp_all add: s0(2))
  obtain ms where ms: "Collect same_length id live_snapshot = Some ms"
    "length (filter (\<lambda>m. mt_Name m \<notin> set health_names) ms) = 9"
    using live_collect by blast
  have "push e (sr_store ?s2) = []" by (simp add: push_def e(2))
  then show ?thesis
    using s2 e(1) ms by (intro exI [of _ ?s2] exI [of _ e] exI [of _ ms]) (simp add: snap)
qed

end
