(* ===== verification/Doubles.thy ===== *)
theory Doubles
  imports Derivations
begin

text \<open>
  Every number the program handles as a \<open>float64\<close> is one: what the parsers of OneFS replies store in
  the fields of that type are well-formed doubles whatever the reply is, and the sample builders keep
  them so. A decoder that \<open>keeps\<close> a property of the value it decodes into is composed of field decoders
  that do.
\<close>

section \<open>Decoders that keep a property\<close>

definition keeps :: "('r \<Rightarrow> bool) \<Rightarrow> 'r decoder \<Rightarrow> bool" where
  "keeps P d \<longleftrightarrow> (\<forall>j r r'. P r \<longrightarrow> d j r = Some r' \<longrightarrow> P r')"

named_theorems keeps_rule \<open>how a property is kept by composed decoders\<close>

lemma keepsD: "keeps P d \<Longrightarrow> d j r = Some r' \<Longrightarrow> P r \<Longrightarrow> P r'"
  by (auto simp: keeps_def)

lemma keeps_any [keeps_rule]: "keeps (\<lambda>r. True) d"
  by (simp add: keeps_def)

lemma keeps_float [keeps_rule]: "keeps wf_f64 dec_float"
proof -
  have "dec_float j r = Some r' \<Longrightarrow> wf_f64 r \<Longrightarrow> wf_f64 r'" for j r r'
    by (cases "(j, r)" rule: dec_float.cases) (auto simp: wf_ParseFloat)
  then show ?thesis by (auto simp: keeps_def)
qed

lemma keeps_flexFloat [keeps_rule]: "keeps wf_f64 flexFloat"
  by (auto simp: keeps_def flexFloat_def Let_def wf_ParseFloat split: if_splits option.splits)

lemma keeps_ptr [keeps_rule]: "keeps P d \<Longrightarrow> P zero \<Longrightarrow> keeps (pred_option P) (dec_ptr d zero)"
  by (auto simp: keeps_def dec_ptr_def split: if_splits option.splits)

lemma keeps_slice [keeps_rule]:
  assumes "keeps P d" and "P zero"
  shows "keeps (list_all P) (dec_slice d zero)"
proof -
  have "traverse (\<lambda>j. d j zero) js = Some rs \<Longrightarrow> list_all P rs" for js rs
    using assms by (induction js arbitrary: rs) (auto split: option.splits dest: keepsD)
  then have "dec_slice d zero j r = Some r' \<Longrightarrow> list_all P r'" for j r r' by (cases j) auto
  then show ?thesis by (auto simp: keeps_def)
qed

lemma keeps_struct [keeps_rule]:
  assumes "list_all (\<lambda>p. keeps P (snd p)) fs"
  shows "keeps P (dec_struct fs)"
proof -
  have "dec_members fs ms r = Some r' \<Longrightarrow> P r \<Longrightarrow> P r'" for ms r r'
    using assms by (intro dec_members_inv [of fs P ms r r']) (auto simp: list_all_iff dest!: keepsD)
  then have "dec_struct fs j r = Some r' \<Longrightarrow> P r \<Longrightarrow> P r'" for j r r' by (cases j) auto
  then show ?thesis by (auto simp: keeps_def)
qed

lemma keeps_fld:
  assumes "keeps Q d" and "\<And>r. P r \<Longrightarrow> Q (get r)" and "\<And>r v. P r \<Longrightarrow> Q v \<Longrightarrow> P (upd (\<lambda>_. v) r)"
  shows "keeps P (snd (fld name get upd d))"
  unfolding keeps_def
proof (intro allI impI)
  fix j r r' assume r: "P r" and dec: "snd (fld name get upd d) j r = Some r'"
  then obtain v where "d j (get r) = Some v" "r' = upd (\<lambda>_. v) r" by (auto simp: fld_def)
  with assms(3) [OF r keepsD [OF assms(1) _ assms(2) [OF r]]] show "P r'" by blast
qed

text \<open>Fields the property does not speak of, and fields it speaks of.\<close>

lemmas keeps_other = keeps_fld [where Q = "\<lambda>v. True", OF keeps_any]

lemmas keeps_field = keeps_struct keeps_other [where d = dec_string] keeps_other [where d = dec_int]
  keeps_other [where d = dec_bool] keeps_fld [OF keeps_float] keeps_fld [OF keeps_flexFloat]
  keeps_fld [OF keeps_ptr [OF keeps_float wf_zero]]

lemma parse_typed:
  assumes "parse_with d zero f b = Inr y" and "keeps P d" and "P zero" and "\<And>raw. P raw \<Longrightarrow> Q (f raw)"
  shows "Q y"
  using assms(1) unfolding parse_with_Inr Unmarshal_def
  by (auto split: option.splits intro!: assms(4) keepsD [OF assms(2) _ assms(3)])

section \<open>The structs\<close>

definition typed_sensor :: "Sensor \<Rightarrow> bool" where
  "typed_sensor s \<longleftrightarrow> wf_f64 (sn_Value s)"

definition typed_node :: "Node \<Rightarrow> bool" where
  "typed_node n \<longleftrightarrow> list_all typed_sensor (nd_Temperatures n @ nd_Fans n)"

definition typed_quota :: "Quota \<Rightarrow> bool" where
  "typed_quota q \<longleftrightarrow> list_all wf_f64
     [qt_UsageBytes q, qt_PhysicalBytes q, qt_AppLogicalBytes q, qt_ReductionRatio q, qt_HardBytes q,
      qt_SoftBytes q, qt_AdvisoryBytes q]"

definition typed_pool :: "StoragePool \<Rightarrow> bool" where
  "typed_pool p \<longleftrightarrow> list_all wf_f64
     [po_TotalBytes p, po_UsedBytes p, po_AvailBytes p, po_SSDTotalBytes p, po_SSDUsedBytes p,
      po_SSDAvailBytes p, po_HDDTotalBytes p, po_HDDUsedBytes p, po_HDDAvailBytes p]"

definition typed_map :: "(string, f64) gomap \<Rightarrow> bool" where
  "typed_map m \<longleftrightarrow> (\<forall>k v. map_of m k = Some v \<longrightarrow> wf_f64 v)"

definition typed_proto :: "ProtoStat \<Rightarrow> bool" where
  "typed_proto p \<longleftrightarrow> wf_f64 (pr_OperationRate p) \<and> wf_f64 (pr_LatencyAvg p) \<and> typed_map (pr_StageAvg p)"

definition typed_drive :: "DriveStat \<Rightarrow> bool" where
  "typed_drive d \<longleftrightarrow> wf_f64 (dr_OpsPerSec d) \<and> wf_f64 (dr_BusyPercent d)"

definition typed_client :: "ClientStat \<Rightarrow> bool" where
  "typed_client c \<longleftrightarrow> wf_f64 (cl_OpsPerSec c) \<and> wf_f64 (cl_InBps c) \<and> wf_f64 (cl_OutBps c)"

definition typed_workload :: "Workload \<Rightarrow> bool" where
  "typed_workload w \<longleftrightarrow> list_all wf_f64 [wl_Ops w, wl_BytesIn w, wl_BytesOut w, wl_CPUMicros w]"

definition typed_inventory :: "Inventory \<Rightarrow> bool" where
  "typed_inventory iv \<longleftrightarrow> list_all typed_node (iv_Nodes iv) \<and> list_all typed_quota (iv_Quotas iv)
     \<and> wf_f64 (ss_UsedBytes (iv_Snapshot iv))
     \<and> wf_f64 (dd_LogicalSavedBytes (iv_Dedupe iv)) \<and> wf_f64 (dd_DeduplicatedBytes (iv_Dedupe iv))
     \<and> list_all typed_pool (iv_StoragePools iv)"

definition typed_statistics :: "Statistics \<Rightarrow> bool" where
  "typed_statistics st \<longleftrightarrow> list_all (\<lambda>p. wf_f64 (pt_Value p)) (st_Current st)
     \<and> list_all typed_proto (st_Proto st) \<and> list_all typed_drive (st_Drives st)
     \<and> list_all typed_client (st_Clients st) \<and> list_all typed_workload (st_Workloads st)"

section \<open>The parsers\<close>

lemma typed_deref: "pred_option wf_f64 p \<Longrightarrow> wf_f64 (deref p)"
  by (cases p) (simp_all add: deref_def)

text \<open>A reply that is a list under one name.\<close>

lemma parse_list_typed:
  assumes "parse_with (dec_struct [fld name id id (dec_slice d zero)]) [] f b = Inr y"
    and "keeps P d" and "P zero" and "\<And>raws. list_all P raws \<Longrightarrow> Q (f raws)"
  shows "Q y"
proof (rule parse_typed [OF assms(1)])
  show "keeps (list_all P) (dec_struct [fld name id id (dec_slice d zero)])"
    by (intro keeps_struct) (auto intro!: keeps_fld [OF keeps_slice [OF assms(2,3)]])
qed (simp_all add: assms(4))

lemma keeps_sensor: "keeps typed_sensor dec_sensor"
  unfolding dec_sensor_def typed_sensor_def
  by (auto intro!: keeps_field)

definition typed_group :: "sensorGroup \<Rightarrow> bool" where
  "typed_group g \<longleftrightarrow> list_all typed_sensor (sg_Values g)"

lemma zero_typed [simp]: "typed_sensor zero_sensor" "typed_group zero_sensorGroup"
  by (simp_all add: typed_sensor_def zero_sensor_def typed_group_def zero_sensorGroup_def)

lemma keeps_group: "keeps typed_group dec_sensorGroup"
  unfolding dec_sensorGroup_def typed_group_def
  by (auto intro!: keeps_field keeps_fld [OF keeps_slice [OF keeps_sensor]])

lemma keeps_groups: "keeps (list_all typed_group) sensorGroups"
proof -
  have slice: "keeps (list_all typed_group) (dec_slice dec_sensorGroup zero_sensorGroup)"
    by (rule keeps_slice [OF keeps_group]) simp
  have struct: "keeps (list_all typed_group) (dec_struct [fld ''sensors'' id id (dec_slice dec_sensorGroup zero_sensorGroup)])"
    by (intro keeps_struct) (auto intro!: keeps_fld [OF slice])
  show ?thesis unfolding keeps_def sensorGroups_def
    by (auto split: option.splits dest: keepsD [OF slice] keepsD [OF struct])
qed

lemma keeps_node: "keeps (\<lambda>n. list_all typed_group (rn_Sensors n)) dec_rawNode"
  unfolding dec_rawNode_def node_fields_def
  by (auto intro!: keeps_field keeps_other [where d = "dec_slice dec_rawDrive zero_rawDrive"] keeps_fld [OF keeps_groups])

lemma split_typed:
  "list_all typed_group gs \<Longrightarrow> list_all typed_sensor ts \<Longrightarrow> list_all typed_sensor fs \<Longrightarrow> split_sensors ts fs gs = (ts', fs') \<Longrightarrow>
     list_all typed_sensor (ts' @ fs')"
  by (induction ts fs gs rule: split_sensors.induct) (auto simp: Let_def typed_group_def split: if_splits)

lemma ParseNodes_typed: "ParseNodes b = Inr ns \<Longrightarrow> list_all typed_node ns"
  unfolding ParseNodes_def dec_nodes_def
proof (erule parse_list_typed [OF _ keeps_node])
  fix raws :: "rawNode list" assume "list_all (\<lambda>n. list_all typed_group (rn_Sensors n)) raws"
  then show "list_all typed_node (map node_of raws)"
    by (auto simp: list_all_iff [of _ raws] list_all_iff [of typed_node] typed_node_def node_of_def
        split: prod.splits dest!: bspec split_typed [where ts = "[]" and fs = "[]", rotated 3])
qed (simp add: zero_rawNode_def)

definition typed_rawQuota :: "rawQuota \<Rightarrow> bool" where
  "typed_rawQuota q \<longleftrightarrow> wf_f64 (rq_FSLogical q) \<and> wf_f64 (rq_FSPhysical q) \<and> wf_f64 (rq_AppLogical q)
     \<and> pred_option wf_f64 (rq_ReductionRatio q) \<and> pred_option wf_f64 (rq_Hard q)
     \<and> pred_option wf_f64 (rq_Soft q) \<and> pred_option wf_f64 (rq_Advisory q)"

lemma keeps_rawQuota: "keeps typed_rawQuota dec_rawQuota"
  unfolding dec_rawQuota_def typed_rawQuota_def by (auto intro!: keeps_field)

lemma ParseQuotas_typed: "ParseQuotas b = Inr qs \<Longrightarrow> list_all typed_quota qs"
  unfolding ParseQuotas_def
proof (erule parse_list_typed [OF _ keeps_rawQuota])
  fix raws :: "rawQuota list" assume "list_all typed_rawQuota raws"
  then show "list_all typed_quota (map quota_of raws)"
    by (induction raws) (simp_all add: typed_quota_def typed_rawQuota_def quota_of_def typed_deref)
qed (simp add: typed_rawQuota_def zero_rawQuota_def)

lemma ParseSnapshotSummary_typed: "ParseSnapshotSummary b = Inr s \<Longrightarrow> wf_f64 (ss_UsedBytes s)"
  unfolding ParseSnapshotSummary_def
proof (erule parse_typed [where P = "\<lambda>r. pred_option wf_f64 (rs_ActiveSize r) \<and> pred_option wf_f64 (rs_Size r)"])
  show "keeps (\<lambda>r. pred_option wf_f64 (rs_ActiveSize r) \<and> pred_option wf_f64 (rs_Size r))
     (dec_struct [(''summary'', dec_struct
        [fld ''active_size'' rs_ActiveSize rs_ActiveSize_update (dec_ptr dec_float 0),
         fld ''size'' rs_Size rs_Size_update (dec_ptr dec_float 0)])])"
    by (auto intro!: keeps_field)
qed (auto split: option.split)

lemma ParseDedupeSummary_typed:
  "ParseDedupeSummary b = Inr d \<Longrightarrow> wf_f64 (dd_LogicalSavedBytes d) \<and> wf_f64 (dd_DeduplicatedBytes d)"
  unfolding ParseDedupeSummary_def by (auto simp: res_iff Let_def wf_f64_mul)

lemma keeps_pool: "keeps typed_pool dec_pool"
  unfolding dec_pool_def typed_pool_def by (auto intro!: keeps_field)

lemma ParseStoragePools_typed: "ParseStoragePools b = Inr ps \<Longrightarrow> list_all typed_pool ps"
  unfolding ParseStoragePools_def
  by (erule parse_list_typed [OF _ keeps_pool]) (simp add: typed_pool_def zero_pool_def, simp)

lemma dec_float_typed: "dec_float j 0 = Some v \<Longrightarrow> wf_f64 v"
  using keepsD [OF keeps_float] wf_zero by blast

lemma stat_points_typed: "list_all (\<lambda>p. wf_f64 (pt_Value p)) (stat_points ss)"
  by (induction ss rule: stat_points.induct) (auto split: option.split dest: dec_float_typed)

lemma ParseStatCurrent_typed: "ParseStatCurrent b = Inr ps \<Longrightarrow> list_all (\<lambda>p. wf_f64 (pt_Value p)) ps"
  unfolding ParseStatCurrent_def by (auto simp: res_iff stat_points_typed)

definition typed_row :: "row \<Rightarrow> bool" where
  "typed_row m \<longleftrightarrow> (\<forall>k v. map_of m k = Some (ANum v) \<longrightarrow> wf_f64 v)"

lemma dec_any_typed: "dec_any j = Some (ANum v) \<Longrightarrow> wf_f64 v"
  by (cases j rule: dec_any.cases) (auto simp: wf_ParseFloat split: if_splits)

lemma typed_row_update: "typed_row m \<Longrightarrow> dec_any j = Some v \<Longrightarrow> typed_row (AList.update k v m)"
  unfolding typed_row_def update_conv' using dec_any_typed by (metis fun_upd_apply option.inject)

lemma keeps_row: "keeps typed_row dec_row"
proof -
  have members: "dec_row_members ms m = Some m' \<Longrightarrow> typed_row m \<Longrightarrow> typed_row m'" for ms m m'
    by (induction ms m rule: dec_row_members.induct) (simp, auto split: option.splits dest: typed_row_update)
  have "dec_row j m = Some m' \<Longrightarrow> typed_row m \<Longrightarrow> typed_row m'" for j m m'
    by (cases j) (auto dest: members simp: typed_row_def)
  then show ?thesis by (auto simp: keeps_def)
qed

lemma num_typed: "typed_row r \<Longrightarrow> pred_option wf_f64 (num r key)"
  by (auto simp: num_def typed_row_def split: option.split any.split)

lemma typed_map_update: "typed_map m \<Longrightarrow> wf_f64 v \<Longrightarrow> typed_map (AList.update k v m)"
  by (simp add: typed_map_def update_conv')

lemma stage_avgs_typed: "typed_row r \<Longrightarrow> typed_map m \<Longrightarrow> typed_map (stage_avgs r stages m)"
proof (induction r stages m rule: stage_avgs.induct)
  case (2 r stage stages m)
  show ?case
  proof (cases "num r (stage @ ''_avg'')")
    case (Some v)
    then have "wf_f64 v" using num_typed [OF "2.prems"(1), of "stage @ ''_avg''"] by simp
    with 2 Some show ?thesis by (simp add: typed_map_update)
  qed (use 2 in simp)
qed simp

lemma ParseProtocolSummary_typed: "ParseProtocolSummary oob b = Inr ps \<Longrightarrow> list_all typed_proto ps"
  unfolding ParseProtocolSummary_def
proof (erule parse_list_typed [OF _ keeps_row])
  fix raws :: "row list" assume "list_all typed_row raws"
  then show "list_all typed_proto (map (proto_of oob) raws)"
    by (induction raws)
      (simp_all add: typed_proto_def proto_of_def typed_deref num_typed stage_avgs_typed typed_map_def [of "[]"])
qed (simp add: typed_row_def)

definition typed_rawDrive :: "rawDriveStat \<Rightarrow> bool" where
  "typed_rawDrive d \<longleftrightarrow> wf_f64 (rv_Busy d) \<and> wf_f64 (rv_XfersIn d) \<and> wf_f64 (rv_XfersOut d)"

lemma drive_stats_typed: "list_all typed_rawDrive ds \<Longrightarrow> list_all typed_drive (drive_stats ds)"
  by (induction ds) (auto simp: typed_rawDrive_def typed_drive_def wf_f64_add split: option.split)

lemma ParseDriveSummary_typed: "ParseDriveSummary b = Inr ds \<Longrightarrow> list_all typed_drive ds"
  unfolding ParseDriveSummary_def
proof (erule parse_list_typed [where P = typed_rawDrive])
  show "keeps typed_rawDrive (dec_struct
           [fld ''drive_id'' rv_DriveID rv_DriveID_update dec_string,
            fld ''type'' rv_Type rv_Type_update dec_string,
            fld ''busy'' rv_Busy rv_Busy_update dec_float,
            fld ''xfers_in'' rv_XfersIn rv_XfersIn_update dec_float,
            fld ''xfers_out'' rv_XfersOut rv_XfersOut_update dec_float])"
    unfolding typed_rawDrive_def by (auto intro!: keeps_field)
qed (simp_all add: typed_rawDrive_def drive_stats_typed)

lemma ParseClientSummary_typed: "ParseClientSummary b = Inr cs \<Longrightarrow> list_all typed_client cs"
  unfolding ParseClientSummary_def
proof (erule parse_list_typed [where P = typed_client])
  show "keeps typed_client (dec_struct
           [fld ''node'' cl_Node cl_Node_update dec_int,
            fld ''protocol'' cl_Protocol cl_Protocol_update dec_string,
            fld ''class'' cl_Class cl_Class_update dec_string,
            fld ''operation_rate'' cl_OpsPerSec cl_OpsPerSec_update dec_float,
            fld ''in'' cl_InBps cl_InBps_update dec_float,
            fld ''out'' cl_OutBps cl_OutBps_update dec_float])"
    unfolding typed_client_def by (auto intro!: keeps_field)
qed (simp add: typed_client_def, simp)

lemma ParseWorkloadSummary_typed: "ParseWorkloadSummary oob b = Inr ws \<Longrightarrow> list_all typed_workload ws"
  unfolding ParseWorkloadSummary_def
proof (erule parse_list_typed [where P = "\<lambda>r. wf_f64 (rw_Node r) \<and> typed_workload (rw_Workload r)"])
  show "keeps (\<lambda>r. wf_f64 (rw_Node r) \<and> typed_workload (rw_Workload r)) (dec_struct
           [fld ''node'' rw_Node rw_Node_update dec_float,
            workload_fld ''zone_name'' wl_Zone wl_Zone_update dec_string,
            workload_fld ''protocol'' wl_Protocol wl_Protocol_update dec_string,
            workload_fld ''username'' wl_Username wl_Username_update dec_string,
            workload_fld ''system_name'' wl_SystemName wl_SystemName_update dec_string,
            workload_fld ''job_type'' wl_JobType wl_JobType_update dec_string,
            workload_fld ''ops'' wl_Ops wl_Ops_update dec_float,
            workload_fld ''bytes_in'' wl_BytesIn wl_BytesIn_update dec_float,
            workload_fld ''bytes_out'' wl_BytesOut wl_BytesOut_update dec_float,
            workload_fld ''cpu'' wl_CPUMicros wl_CPUMicros_update dec_float])"
    unfolding typed_workload_def workload_fld_def by (auto intro!: keeps_field)
next
  fix raws :: "rawWorkload list" assume "list_all (\<lambda>r. wf_f64 (rw_Node r) \<and> typed_workload (rw_Workload r)) raws"
  then show "list_all typed_workload (map (\<lambda>w. (rw_Workload w)\<lparr>wl_Node := int_of_f64 oob (rw_Node w)\<rparr>) raws)"
    by (induction raws) (simp_all add: typed_workload_def)
qed (simp add: typed_workload_def zero_workload_def)

section \<open>The samples\<close>

definition typed_sample :: "Sample \<Rightarrow> bool" where
  "typed_sample s \<longleftrightarrow> wf_f64 (sm_Value s)"

lemma typed_sample_iff [simp]: "typed_sample (sample n ls v) \<longleftrightarrow> wf_f64 v"
  by (simp add: typed_sample_def sample_def)

lemma typed_values [simp]: "wf_f64 (b2f b)" "wf_f64 (f64_of_int i)" "wf_f64 (v div microsPerSecond)" "wf_f64 1"
  "wf_f64 v \<Longrightarrow> wf_f64 (scale s v)"
proof -
  have one: "wf_f64 1" by code_simp
  then show "wf_f64 1" and "wf_f64 (b2f b)" by (simp_all add: b2f_def)
  show "wf_f64 v \<Longrightarrow> wf_f64 (scale s v)" by (simp add: scale_def wf_f64_div)
qed (simp_all add: f64_of_int_def wf_mk wf_f64_div)

lemma stat_loop_typed: "list_all (\<lambda>p. wf_f64 (pt_Value p)) ps \<Longrightarrow> list_all typed_sample (stat_loop cn ci lnns ps)"
  by (induction ps) (auto split: option.split)

lemma node_health_typed: "list_all typed_sample (nodeHealthSamples ord i cn ci ns)"
  by (induction ord i cn ci ns rule: nodeHealthSamples.induct) (auto simp: Let_def list_all_iff)

lemma hardware_typed: "list_all typed_node ns \<Longrightarrow> list_all typed_sample (hardwareSamples cn ci ns)"
  by (induction ns)
    (auto simp: hardwareSamples_def hardware_samples1_def hardwareInfoSample_def Let_def typed_node_def typed_sensor_def
      list_all_iff split: option.split)

lemma quota_typed: "list_all typed_quota qs \<Longrightarrow> list_all typed_sample (quotaSamples cn ci qs)"
  by (induction qs) (auto simp: quotaSamples_def quota_samples1_def Let_def typed_quota_def)

lemma pool_typed: "list_all typed_pool ps \<Longrightarrow> list_all typed_sample (storagePoolSamples cn ci ps)"
  by (induction ps) (auto simp: storagePoolSamples_def Let_def typed_pool_def)

lemma proto_typed: "list_all typed_proto ps \<Longrightarrow> list_all typed_sample (concat (map (proto_samples1 cn ci) ps))"
  by (induction ps) (auto simp: proto_samples1_def Let_def typed_proto_def typed_map_def list_all_iff split: option.splits)

lemma BuildSamples_typed:
  assumes "typed_inventory iv" and "typed_statistics st"
  shows "list_all typed_sample (BuildSamples ord cn (Some iv) (Some st))"
proof -
  have drives: "list_all typed_sample (driveSamples cn ci (Some st))" for ci
    using assms(2) by (auto simp: driveSamples_def Let_def typed_statistics_def typed_drive_def list_all_iff)
  have clients: "list_all typed_sample (clientSamples cn ci (Some st))" for ci
    using assms(2) by (auto simp: clientSamples_def Let_def typed_statistics_def typed_client_def list_all_iff)
  have workloads: "list_all typed_sample (workloadSamples cn ci (Some st))" for ci
    using assms(2) by (auto simp: workloadSamples_def Let_def typed_statistics_def typed_workload_def list_all_iff)
  have plain: "list_all typed_sample (countSamples cn ci c)" "list_all typed_sample (syncSamples cn ci sp)"
    "list_all typed_sample (eventSamples o1 cn ci ev)" "list_all typed_sample (licenseSamples cn ci ls)" for ci c sp o1 ev ls
    by (auto simp: countSamples_def syncSamples_def eventSamples_def licenseSamples_def Let_def list_all_iff)
  show ?thesis using assms drives clients workloads plain
    by (simp add: BuildSamples_def Let_def statSamples_def stat_loop_typed protoSamples_def proto_typed node_health_typed
        hardware_typed quota_typed pool_typed snapshotSamples_def dedupeSamples_def typed_inventory_def typed_statistics_def)
qed

end
