(* ===== verification/Typing.thy ===== *)
theory Typing
  imports Lifecycle Doubles Dump
begin

text \<open>
  Every value the exporter holds is a double: the client returns typed inventories and statistics, so
  what is collected, and what is in the store of a reachable state, is typed. The locale
  \<open>typed_client\<close> adds to the contract of a client what it returns; the code's clients interpret it.
\<close>

section \<open>What a client returns\<close>

lemma fetch_Inr: "fetch ou c d path ps what parse w = (Inr a, w') \<Longrightarrow> \<exists>b. parse b = Inr a"
  by (auto simp: fetch_def split: prod.splits sum.splits)

lemma best_effort_cases:
  assumes "best_effort ou c d path parse dflt w = (a, w')"
  shows "a = dflt \<or> (\<exists>b. parse b = Inr a)"
  using assms by (auto simp: best_effort_def split: prod.splits sum.splits)

lemma best_effort_typed:
  assumes "best_effort ou c d path parse dflt w = (a, w')" and "P dflt" and "\<And>b x. parse b = Inr x \<Longrightarrow> P x"
  shows "P a"
  using best_effort_cases [OF assms(1)] assms(2,3) by blast

lemma on_ok_Inr: "on_ok m f = (Inr b, w) \<Longrightarrow> \<exists>a w1. m = (Inr a, w1) \<and> f a w1 = (Inr b, w)"
  by (auto simp: on_ok_def split: prod.splits sum.splits)

lemma inventory_rest_typed:
  assumes "inventory_rest ou c d info nodes quotas w = (iv, w')"
    and "list_all typed_node nodes" and "list_all typed_quota quotas"
  shows "typed_inventory iv"
proof -
  obtain counts w1 where 1: "inventoryCounts ou c d w = (counts, w1)" by (metis surj_pair)
  obtain snap w2 where 2: "snapshotSummary ou c d w1 = (snap, w2)" by (metis surj_pair)
  obtain sync w3 where 3: "syncPolicies ou c d w2 = (sync, w3)" by (metis surj_pair)
  obtain events w4 where 4: "activeEvents ou c d w3 = (events, w4)" by (metis surj_pair)
  obtain dedupe w5 where 5: "dedupeSummary ou c d w4 = (dedupe, w5)" by (metis surj_pair)
  obtain lics w6 where 6: "licenses ou c d w5 = (lics, w6)" by (metis surj_pair)
  obtain pools w7 where 7: "storagePools ou c d w6 = (pools, w7)" by (metis surj_pair)
  have "wf_f64 (ss_UsedBytes snap)"
    by (rule best_effort_typed [OF 2 [unfolded snapshotSummary_def]]) (simp_all add: ParseSnapshotSummary_typed)
  moreover have "wf_f64 (dd_LogicalSavedBytes dedupe) \<and> wf_f64 (dd_DeduplicatedBytes dedupe)"
    by (rule best_effort_typed [OF 5 [unfolded dedupeSummary_def]]) (simp_all add: ParseDedupeSummary_typed)
  moreover have "list_all typed_pool pools"
    by (rule best_effort_typed [OF 7 [unfolded storagePools_def]]) (simp_all add: ParseStoragePools_typed)
  ultimately show ?thesis
    using assms by (auto simp: inventory_rest_def 1 2 3 4 5 6 7 typed_inventory_def)
qed

lemma GetInventory_typed: "GetInventory ou c d w = (Inr iv, w') \<Longrightarrow> typed_inventory iv"
  unfolding GetInventory_def
  by (auto dest!: on_ok_Inr fetch_Inr split: prod.splits
      intro: inventory_rest_typed ParseNodes_typed ParseQuotas_typed)

lemma GetStatistics_typed:
  fixes ou :: "('n, 's, 'e) Outside"
  assumes "GetStatistics ou c d w = (Inr st, w')"
  shows "typed_statistics st"
proof -
  from on_ok_Inr [OF assms [unfolded GetStatistics_def]] obtain current w1 where cur: "fetch ou c d ''platform/1/statistics/current'' statistics_params ''statistics''
      ParseStatCurrent w = (Inr current, w1)"
    and rest: "(let (proto, w2) = best_effort ou c d (protocol_path ou c) (ParseProtocolSummary (ou_Int ou)) [] w1;
               (drives, w3) = driveSummary ou c d w2;
               (clients, w4) = clientSummary ou c d w3;
               (workloads, w5) = workloadSummary ou c d w4
           in (Inr \<lparr>st_Current = current, st_Proto = proto, st_Drives = drives, st_Clients = clients,
                    st_Workloads = workloads\<rparr>, w5)) = (Inr st :: 'e client_error + Statistics, w')"
    by blast
  obtain proto w2 where 1: "best_effort ou c d (protocol_path ou c) (ParseProtocolSummary (ou_Int ou)) [] w1 = (proto, w2)"
    by (metis surj_pair)
  obtain drives w3 where 2: "driveSummary ou c d w2 = (drives, w3)" by (metis surj_pair)
  obtain clients w4 where 3: "clientSummary ou c d w3 = (clients, w4)" by (metis surj_pair)
  obtain workloads w5 where 4: "workloadSummary ou c d w4 = (workloads, w5)" by (metis surj_pair)
  have "list_all typed_proto proto" by (rule best_effort_typed [OF 1]) (simp_all add: ParseProtocolSummary_typed)
  moreover have "list_all typed_drive drives"
    by (rule best_effort_typed [OF 2 [unfolded driveSummary_def]]) (simp_all add: ParseDriveSummary_typed)
  moreover have "list_all typed_client clients"
    by (rule best_effort_typed [OF 3 [unfolded clientSummary_def]]) (simp_all add: ParseClientSummary_typed)
  moreover have "list_all typed_workload workloads"
    by (rule best_effort_typed [OF 4 [unfolded workloadSummary_def]]) (simp_all add: ParseWorkloadSummary_typed)
  moreover have "list_all (\<lambda>p. wf_f64 (pt_Value p)) current" using fetch_Inr [OF cur] ParseStatCurrent_typed by blast
  ultimately show ?thesis using rest by (auto simp: 1 2 3 4 typed_statistics_def)
qed

section \<open>The interface\<close>

locale typed_client = client_contract ops for ops :: "('c, 'w, 'e) ClientOps" +
  assumes inventory_typed: "ops_GetInventory ops d c w = (Inr iv, c', w') \<Longrightarrow> typed_inventory iv"
    and statistics_typed: "ops_GetStatistics ops d c w = (Inr st, c', w') \<Longrightarrow> typed_statistics st"
begin

lemma collect_typed:
  assumes "collectCluster ops ord now d c w h = (cs, c', w', h')"
  shows "list_all typed_sample (cs_Samples cs)"
proof -
  obtain v c1 w1 where v: "ops_APIVersion ops d c w = (v, c1, w1)" by (metis prod_cases3)
  obtain i c2 w2 where i: "ops_GetInventory ops d c1 w1 = (i, c2, w2)" by (metis prod_cases3)
  obtain s c3 w3 where s: "ops_GetStatistics ops d c2 w2 = (s, c3, w3)" by (metis prod_cases3)
  show ?thesis
    using assms i s BuildSamples_typed [OF inventory_typed statistics_typed]
    by (auto simp: collectCluster_def v new_snapshot_def Let_def split: sum.splits)
qed

end

locale typed_lazy = lazy_client ops create name + typed_client ops
  for ops :: "('c, 'w, 'e) ClientOps" and create and name

lemma delegate_Inr:
  assumes "delegate m d l w = (Inr x, l', w')"
  shows "\<exists>c1 w1 c2. m d c1 w1 = (Inr x, c2, w')"
  using assms by (auto simp: delegate_def split: prod.splits sum.splits)

sublocale typed_lazy \<subseteq> typed_lazily: typed_client "lazy_ops ops"
  by unfold_locales (auto simp: lazy_ops_def dest!: delegate_Inr dest: inventory_typed statistics_typed)

interpretation cluster_typed: typed_client "cluster_ops ou"
  by unfold_locales (auto simp: cluster_ops_def split: prod.splits dest: GetInventory_typed GetStatistics_typed)

interpretation lazy_cluster_typed:
  typed_lazy "cluster_ops ou" "\<lambda>d. NewClusterClient ou d cfg dumpDir tr" "cc_Name cfg" ..

interpretation any_typed: typed_client "any_ops ou"
proof unfold_locales
  fix d c w iv c' w'
  assume "ops_GetInventory (any_ops ou) d c w = (Inr iv, c', w')"
  then show "typed_inventory iv"
    by (cases c) (auto simp: any_ops_def Let_def wrap_eq dest: cluster_typed.inventory_typed
        lazy_cluster_typed.typed_lazily.inventory_typed)
next
  fix d c w st c' w'
  assume "ops_GetStatistics (any_ops ou) d c w = (Inr st, c', w')"
  then show "typed_statistics st"
    by (cases c) (auto simp: any_ops_def Let_def wrap_eq dest: cluster_typed.statistics_typed
        lazy_cluster_typed.typed_lazily.statistics_typed)
qed

section \<open>What the exporter holds\<close>

lemma scrape_typed: "list_all typed_sample (cs_Samples (fst (scrape (any_ops ou) ord now d cw)))"
proof -
  obtain cs c' w' h' where r: "collectCluster (any_ops ou) ord now d (fst cw) (snd cw) \<lparr>ex_seen = [], ex_log = []\<rparr> = (cs, c', w', h')"
    by (metis prod_cases4)
  from any_typed.collect_typed [OF r] show ?thesis by (simp add: scrape_def r)
qed

lemma scrape_all_printable:
  "list_all printable_sample (all_samples (map (\<lambda>(cs, c, w). Some cs) (scrape_all (any_ops ou) ords now d pool)))"
proof -
  have "list_all typed_sample (all_samples (map (\<lambda>(cs, c, w). Some cs) (scrape_all (any_ops ou) ords now d pool)))"
    unfolding all_samples_Some list_all_iff
    by (auto simp: scrape_all_def case_prod_beta intro: scrape_typed [unfolded list_all_iff, rule_format])
  with scrape_all_conform [of ou ords now d pool] show ?thesis
    by (simp add: list_all_iff printable_sample_def typed_sample_def)
qed

lemma held_in_results: "set (held_samples (BuildSnapshot o1 results)) \<subseteq> set (all_samples results)"
proof
  fix s assume "s \<in> set (held_samples (BuildSnapshot o1 results))"
  then obtain n cs where cs: "(n, cs) \<in> set (sh_PerCluster (BuildSnapshot o1 results))" "s \<in> set (cs_Samples cs)"
    by (auto simp: held_samples_def)
  from per_cluster_entry [OF cs(1)] have "cs \<in> set (List.map_filter id results)"
    by (force simp: List.map_filter_def)
  with cs(2) show "s \<in> set (all_samples results)" by (auto simp: all_samples_def)
qed

lemma scraped_printable: "scraped_snapshot ou snap \<Longrightarrow> printable_snapshot snap"
  using held_in_results scrape_all_printable
  by (fastforce simp: scraped_snapshot_def printable_snapshot_def BuildSnapshot_sel wf_per_cluster list_all_iff)

lemma scraped_by_name:
  assumes "scraped_snapshot ou snap"
  shows "list_all printable_sample (SamplesByName snap n)"
  using assms scrape_all_printable by (fastforce simp: scraped_snapshot_def SamplesByName_Build list_all_iff)

lemma health_typed: "m \<in> set (health_metrics p) \<Longrightarrow> wf_f64 (mt_Value m)"
  by (cases p) (auto simp: health_metrics_def health_requests_def const_metric_def split: option.splits if_splits)

lemma emit_name_typed:
  assumes "list_all printable_sample (SamplesByName snap n)" and "m \<in> set (emit_name ok snap n)"
  shows "wf_f64 (mt_Value m)"
  using assms by (auto simp: emit_name_def const_metric_def list_all_iff printable_sample_def simp del: emit_samples.simps
      dest!: emit_samples_new split: list.splits)

text \<open>Every value is a double: in every state the running exporter can reach, whatever the clusters
  answered, each sample of the published snapshot follows the metric schema and has a value of the
  type (a multiple of a power of two of at most 53 bits, an infinity or not a number), and so has each
  series of the metrics page and each observation of an OTLP push.\<close>

lemma values_typed:
  assumes "reachable ou dumpDir tr sdk sc s"
  shows "list_all printable_sample (held_samples (Load (sr_store s)))
    \<and> (case metrics_page ok o1 ver goversion (Load (sr_store s)) of
         None \<Rightarrow> True | Some page \<Rightarrow> list_all (\<lambda>m. wf_f64 (mt_Value m)) page)
    \<and> list_all (\<lambda>(n, v, attrs). wf_f64 v) (push e (sr_store s))"
proof (intro conjI)
  have snap: "scraped_snapshot ou (Load (sr_store s))" by (rule reachable_good [OF assms])
  note named = scraped_by_name [OF snap]
  show "list_all printable_sample (held_samples (Load (sr_store s)))"
    using scraped_printable [OF snap] by (simp add: printable_snapshot_def)
  show "case metrics_page ok o1 ver goversion (Load (sr_store s)) of
      None \<Rightarrow> True | Some page \<Rightarrow> list_all (\<lambda>m. wf_f64 (mt_Value m)) page"
  proof (cases "Collect ok o1 (Load (sr_store s))")
    case (Some ms)
    have "wf_f64 (1 :: f64)" by code_simp
    moreover have "list_all (\<lambda>m. wf_f64 (mt_Value m)) ms"
      unfolding Collect_Some [OF Some] by (auto simp: list_all_iff intro: health_typed emit_name_typed [OF named])
    ultimately show ?thesis by (simp add: metrics_page_def Some NewBuildInfoCollector_def)
  qed (simp add: metrics_page_def)
  show "list_all (\<lambda>(n, v, attrs). wf_f64 v) (push e (sr_store s))"
    using named by (auto simp: push_def callback_def list_all_iff printable_sample_def)
qed

lemma values_typed_witness:
  "\<exists>s. reachable example_outside [] False example_sdk example_safe s
     \<and> list_all printable_sample (held_samples (Load (sr_store s)))"
  using example_reachable values_typed by blast

end
