(* ===== verification/Routing.thy ===== *)
theory Routing
  imports GoPath "HOL-Library.Sublist"
begin

text \<open>
  The request multiplexer the server registers its handlers with: \<open>ServeMux\<close> of \<open>net/http\<close> as far as
  \<open>Start\<close> of \<open>main.go\<close> uses it. The path of the metrics page is configured, the others are fixed.

  Patterns are those without wildcards, methods and escapes (\<open>plain_pattern\<close>): an optional host and
  a path, which stands for itself or, when it ends in a slash, for everything below it. Requests are
  those other than \<open>CONNECT\<close>, with a path that needs no escapes and a host without its port.
\<close>

section \<open>Registering\<close>

definition plain_pattern :: "string \<Rightarrow> bool" where
  "plain_pattern s \<longleftrightarrow> list_all (\<lambda>c. c \<notin> {CHR ''{'', CHR ''%'', CHR '' '', CHR 0x09}) s"

record Pattern =
  pt_Host :: string
  pt_Path :: string

datatype handler = MetricsHandler | HealthHandler | StaticOKHandler

type_synonym routes = "(Pattern \<times> handler) list"

definition parse_pattern :: "string \<Rightarrow> Pattern option" where
  "parse_pattern s =
     (case IndexByte s (CHR ''/'') of
        None \<Rightarrow> None
      | Some i \<Rightarrow> Some \<lparr>pt_Host = take i s, pt_Path = drop i s\<rparr>)"

text \<open>A pattern that is malformed or registered already makes \<open>Handle\<close> panic: None.\<close>

fun register :: "routes \<Rightarrow> (string \<times> handler) list \<Rightarrow> routes option" where
  "register rs [] = Some rs"
| "register rs ((s, h) # hs) =
     (case parse_pattern s of
        None \<Rightarrow> None
      | Some p \<Rightarrow> if p \<in> fst ` set rs then None else register (rs @ [(p, h)]) hs)"

definition mux_handlers :: "string \<Rightarrow> (string \<times> handler) list" where
  "mux_handlers uri =
     [(uri, MetricsHandler), (''/health'', HealthHandler), (''/livez'', StaticOKHandler), (''/readyz'', StaticOKHandler)]"

definition mux_of :: "string \<Rightarrow> routes option" where
  "mux_of uri = register [] (mux_handlers uri)"

section \<open>Routing\<close>

definition cleanPath :: "string \<Rightarrow> string" where
  "cleanPath p =
     (if p = [] then ''/''
      else (let p' = (if hd p = CHR ''/'' then p else CHR ''/'' # p); np = Clean p'
            in if last p' = CHR ''/'' \<and> np \<noteq> ''/'' then np @ ''/'' else np))"

definition subtree :: "string \<Rightarrow> bool" where
  "subtree pat \<longleftrightarrow> pat \<noteq> [] \<and> last pat = CHR ''/''"

definition covers :: "string \<Rightarrow> string \<Rightarrow> bool" where
  "covers pat path \<longleftrightarrow> pat = path \<or> subtree pat \<and> prefix pat path"

text \<open>The most specific pattern: the longest one.\<close>

fun most_specific :: "routes \<Rightarrow> (Pattern \<times> handler) option" where
  "most_specific [] = None"
| "most_specific (r # rs) =
     (case most_specific rs of
        None \<Rightarrow> Some r
      | Some r' \<Rightarrow> Some (if length (pt_Path (fst r)) < length (pt_Path (fst r')) then r' else r))"

definition match_host :: "routes \<Rightarrow> string \<Rightarrow> string \<Rightarrow> (Pattern \<times> handler) option" where
  "match_host rs host path = most_specific (filter (\<lambda>(p, h). pt_Host p = host \<and> covers (pt_Path p) path) rs)"

definition match_route :: "routes \<Rightarrow> string \<Rightarrow> string \<Rightarrow> (Pattern \<times> handler) option" where
  "match_route rs host path =
     (case match_host rs host path of Some r \<Rightarrow> Some r | None \<Rightarrow> match_host rs [] path)"

definition exactMatch :: "(Pattern \<times> handler) option \<Rightarrow> string \<Rightarrow> bool" where
  "exactMatch r path = (case r of None \<Rightarrow> False | Some (p, h) \<Rightarrow> pt_Path p = path)"

datatype route = Served handler | Redirected string | PageNotFound

definition findHandler :: "routes \<Rightarrow> string \<Rightarrow> string \<Rightarrow> route" where
  "findHandler rs host path =
     (let p = cleanPath path; r = match_route rs host p
      in if \<not> exactMatch r p \<and> \<not> subtree p \<and> exactMatch (match_route rs host (p @ ''/'')) (p @ ''/'')
         then Redirected (p @ ''/'')
         else if p \<noteq> path then Redirected p
         else case r of None \<Rightarrow> PageNotFound | Some (q, h) \<Rightarrow> Served h)"

lemma findHandler_examples:
  "case mux_of ''/metrics'' of None \<Rightarrow> False | Some rs \<Rightarrow>
     map (findHandler rs ''lab'') [''/metrics'', ''/health'', ''/readyz'', ''/'', ''/metrics/'', ''/x/..//livez''] =
       [Served MetricsHandler, Served HealthHandler, Served StaticOKHandler, PageNotFound, PageNotFound, Redirected ''/livez'']"
  "case mux_of ''/prom/'' of None \<Rightarrow> False | Some rs \<Rightarrow>
     map (findHandler rs ''lab'') [''/prom'', ''/prom/'', ''/prom/a'', ''/health''] =
       [Redirected ''/prom/'', Served MetricsHandler, Served MetricsHandler, Served HealthHandler]"
  "mux_of ''metrics'' = None" "mux_of ''/livez'' = None"
  by code_simp+

section \<open>What the server answers\<close>

lemma parse_rooted: "parse_pattern (CHR ''/'' # s) = Some \<lparr>pt_Host = [], pt_Path = CHR ''/'' # s\<rparr>"
  by (simp add: parse_pattern_def IndexByte_def)

lemma parse_pattern_Some:
  "parse_pattern s = Some p \<Longrightarrow> s = pt_Host p @ pt_Path p \<and> CHR ''/'' \<in> set s"
  by (auto simp: parse_pattern_def IndexByte_def split: if_splits)

definition fixed_paths :: "string list" where
  "fixed_paths = [''/health'', ''/livez'', ''/readyz'']"

lemma parse_fixed: "s \<in> set fixed_paths \<Longrightarrow> parse_pattern s = Some \<lparr>pt_Host = [], pt_Path = s\<rparr>"
  by (auto simp: fixed_paths_def parse_rooted)

text \<open>Registration fails exactly for a path without a slash and for the paths of the other handlers.\<close>

lemma mux_of_None: "mux_of uri = None \<longleftrightarrow> CHR ''/'' \<notin> set uri \<or> uri \<in> set fixed_paths"
proof (cases "parse_pattern uri")
  case None
  then have "CHR ''/'' \<notin> set uri" by (simp add: parse_pattern_def IndexByte_def split: if_splits)
  with None show ?thesis by (simp add: mux_of_def mux_handlers_def)
next
  case (Some p)
  have eq: "\<lparr>pt_Host = [], pt_Path = s\<rparr> = p \<longleftrightarrow> uri = s" if "s \<in> set fixed_paths" for s
    using Some parse_pattern_Some [OF Some] parse_fixed [OF that] by auto
  note eqs = eq [of "''/health''", simplified fixed_paths_def, simplified] eq [of "''/livez''", simplified fixed_paths_def, simplified]
    eq [of "''/readyz''", simplified fixed_paths_def, simplified]
  have "CHR ''/'' \<in> set uri" using parse_pattern_Some [OF Some] by blast
  then show ?thesis by (simp add: mux_of_def mux_handlers_def Some parse_rooted fixed_paths_def eqs)
qed

text \<open>The registered routes of a rooted path.\<close>

definition rooted_routes :: "string \<Rightarrow> routes" where
  "rooted_routes uri = map (\<lambda>(s, h). (\<lparr>pt_Host = [], pt_Path = s\<rparr>, h)) (mux_handlers uri)"

lemma mux_of_rooted:
  assumes "mux_of (CHR ''/'' # u) = Some rs"
  shows "rs = rooted_routes (CHR ''/'' # u)"
  using assms by (auto simp: mux_of_def mux_handlers_def rooted_routes_def parse_rooted split: if_splits)

lemma match_rooted: "match_route (rooted_routes uri) host path = match_host (rooted_routes uri) [] path"
proof (cases "host = []")
  case False
  then have "match_host (rooted_routes uri) host path = None"
    by (simp add: match_host_def rooted_routes_def mux_handlers_def)
  then show ?thesis by (simp add: match_route_def)
qed (simp add: match_route_def split: option.split)

text \<open>A fixed path is matched by its own handler, any other path by the metrics page at most.\<close>

definition fixed_handler :: "string \<Rightarrow> handler" where
  "fixed_handler path = (if path = ''/health'' then HealthHandler else StaticOKHandler)"

lemma covers_fixed: "s \<in> set fixed_paths \<Longrightarrow> covers s path \<longleftrightarrow> s = path"
  by (auto simp: covers_def subtree_def fixed_paths_def)

lemma most_specific_two:
  "most_specific [r, s] = Some (if length (pt_Path (fst r)) < length (pt_Path (fst s)) then s else r)"
  by simp

lemma fixed_filter:
  "filter (\<lambda>(p, h). pt_Host p = [] \<and> covers (pt_Path p) path) (tl (rooted_routes uri)) =
     (if path \<in> set fixed_paths then [(\<lparr>pt_Host = [], pt_Path = path\<rparr>, fixed_handler path)] else [])"
  using covers_fixed [of "''/health''" path] covers_fixed [of "''/livez''" path] covers_fixed [of "''/readyz''" path]
  by (auto simp: rooted_routes_def mux_handlers_def fixed_paths_def fixed_handler_def)

lemma match_spec:
  assumes "uri \<notin> set fixed_paths"
  shows "match_route (rooted_routes uri) host path =
    (if path \<in> set fixed_paths then Some (\<lparr>pt_Host = [], pt_Path = path\<rparr>, fixed_handler path)
     else if covers uri path then Some (\<lparr>pt_Host = [], pt_Path = uri\<rparr>, MetricsHandler) else None)"
proof -
  have split: "rooted_routes uri = (\<lparr>pt_Host = [], pt_Path = uri\<rparr>, MetricsHandler) # tl (rooted_routes uri)"
    by (simp add: rooted_routes_def mux_handlers_def)
  have len: "covers uri path \<Longrightarrow> path \<in> set fixed_paths \<Longrightarrow> length uri < length path"
    using assms by (auto simp: covers_def strict_prefix_def intro: prefix_length_less)
  have "filter (\<lambda>(p, h). pt_Host p = [] \<and> covers (pt_Path p) path) (rooted_routes uri) =
      (if covers uri path then [(\<lparr>pt_Host = [], pt_Path = uri\<rparr>, MetricsHandler)] else [])
      @ (if path \<in> set fixed_paths then [(\<lparr>pt_Host = [], pt_Path = path\<rparr>, fixed_handler path)] else [])"
    by (subst split) (simp add: fixed_filter)
  then show ?thesis using len by (simp add: match_rooted match_host_def)
qed

lemma fixed_no_slash: "s \<in> set fixed_paths \<Longrightarrow> \<not> subtree s"
  by (auto simp: fixed_paths_def subtree_def)

lemma routes_of_path:
  assumes "plain_pattern (CHR ''/'' # u)" and "mux_of (CHR ''/'' # u) = Some rs" and "cleanPath path = path"
  shows "findHandler rs host path =
    (if path = ''/health'' then Served HealthHandler
     else if path = ''/livez'' \<or> path = ''/readyz'' then Served StaticOKHandler
     else if covers (CHR ''/'' # u) path then Served MetricsHandler
     else if CHR ''/'' # u = path @ ''/'' \<and> \<not> subtree path then Redirected (CHR ''/'' # u)
     else PageNotFound)"
proof -
  let ?uri = "CHR ''/'' # u"
  have new: "?uri \<notin> set fixed_paths" using assms(2) mux_of_None [of ?uri] by auto
  note m = match_spec [OF new, of host]
  have rs: "rs = rooted_routes ?uri" by (rule mux_of_rooted [OF assms(2)])
  have "path @ ''/'' \<notin> set fixed_paths" using fixed_no_slash [of "path @ ''/''"] by (auto simp: subtree_def)
  then have slash: "exactMatch (match_route rs host (path @ ''/'')) (path @ ''/'') \<longleftrightarrow> ?uri = path @ ''/''"
    by (simp add: rs m exactMatch_def covers_def)
  have exact: "exactMatch (match_route rs host path) path \<longleftrightarrow> path \<in> set fixed_paths \<or> ?uri = path"
    by (simp add: rs m exactMatch_def covers_def)
  have served: "(case match_route rs host path of None \<Rightarrow> PageNotFound | Some (q, h) \<Rightarrow> Served h) =
      (if path \<in> set fixed_paths then Served (fixed_handler path)
       else if covers ?uri path then Served MetricsHandler else PageNotFound)"
    by (simp add: rs m)
  have short: "?uri = path @ ''/'' \<Longrightarrow> \<not> covers ?uri path" by (auto simp: covers_def dest: prefix_length_le)
  have fixed: "path \<in> set fixed_paths \<longleftrightarrow> path = ''/health'' \<or> path = ''/livez'' \<or> path = ''/readyz''"
    by (simp only: fixed_paths_def list.set insert_iff empty_iff simp_thms)
  have "fixed_handler path = (if path = ''/health'' then HealthHandler else StaticOKHandler)"
    by (rule fixed_handler_def)
  moreover have "findHandler rs host path =
      (if path \<in> set fixed_paths then Served (fixed_handler path)
       else if covers ?uri path then Served MetricsHandler
       else if ?uri = path @ ''/'' \<and> \<not> subtree path then Redirected ?uri else PageNotFound)"
  proof (cases "path \<in> set fixed_paths \<or> covers ?uri path")
    case True
    moreover have "\<not> (?uri = path @ ''/'' \<and> path \<notin> set fixed_paths)" using True short by blast
    ultimately show ?thesis unfolding findHandler_def Let_def assms(3) slash exact served by (simp split: if_split) 
  next
    case False
    then have "?uri \<noteq> path" by (auto simp: covers_def)
    with False show ?thesis unfolding findHandler_def Let_def assms(3) slash exact served by simp
  qed
  ultimately show ?thesis unfolding fixed by (simp only: if_cancel split: if_splits) auto
qed

text \<open>C15: Where the server answers: with a metrics path that is a plain pattern, the registration of the
  handlers panics exactly when the path has no slash or is the path of another handler. Otherwise, for
  a path that starts with a slash and any request of a clean path, the three probes are always
  answered by their own handlers, the metrics page is served at its path and, when that ends in a
  slash, at everything below it (and a request that lacks only that slash is redirected), and every
  other request is answered with not found.\<close>

theorem server_routes:
  assumes "plain_pattern uri"
  shows "(mux_of uri = None \<longleftrightarrow> CHR ''/'' \<notin> set uri \<or> uri \<in> set fixed_paths)
    \<and> (case mux_of uri of None \<Rightarrow> True | Some rs \<Rightarrow> hd uri = CHR ''/'' \<longrightarrow>
        (\<forall>host path. cleanPath path = path \<longrightarrow> findHandler rs host path =
          (if path = ''/health'' then Served HealthHandler
           else if path = ''/livez'' \<or> path = ''/readyz'' then Served StaticOKHandler
           else if covers uri path then Served MetricsHandler
           else if uri = path @ ''/'' \<and> \<not> subtree path then Redirected uri
           else PageNotFound)))"
proof (cases "mux_of uri")
  case (Some rs)
  have "uri \<noteq> []" using Some mux_of_None [of uri] by auto
  then have u: "hd uri = CHR ''/'' \<Longrightarrow> \<exists>u. uri = CHR ''/'' # u" by (metis list.collapse)
  have none: "Some rs = None \<longleftrightarrow> CHR ''/'' \<notin> set uri \<or> uri \<in> set fixed_paths" using mux_of_None [of uri] Some by simp
  show ?thesis unfolding Some option.case
  proof (intro conjI impI allI none)
    fix host path assume "hd uri = CHR ''/''" and c: "cleanPath path = path"
    then obtain v where "uri = CHR ''/'' # v" using u by blast
    with routes_of_path [OF _ _ c, of v rs host] assms Some show "findHandler rs host path =
        (if path = ''/health'' then Served HealthHandler
         else if path = ''/livez'' \<or> path = ''/readyz'' then Served StaticOKHandler
         else if covers uri path then Served MetricsHandler
         else if uri = path @ ''/'' \<and> \<not> subtree path then Redirected uri
         else PageNotFound)" by (simp only:)
  qed
qed (use mux_of_None [of uri] in simp)

theorem server_routes_witness:
  "\<exists>rs. mux_of ''/metrics'' = Some rs \<and> findHandler rs ''lab'' ''/metrics'' = Served MetricsHandler
     \<and> findHandler rs ''lab'' ''/livez'' = Served StaticOKHandler \<and> findHandler rs ''lab'' ''/metrics/a'' = PageNotFound"
proof -
  have "plain_pattern ''/metrics''" by code_simp
  note s = server_routes [OF this]
  have "CHR ''/'' \<in> set ''/metrics''" "''/metrics'' \<notin> set fixed_paths" by code_simp+
  with s obtain rs where rs: "mux_of ''/metrics'' = Some rs" by blast
  have "hd ''/metrics'' = CHR ''/''" by simp
  with s rs have "cleanPath path = path \<Longrightarrow> findHandler rs ''lab'' path =
          (if path = ''/health'' then Served HealthHandler
           else if path = ''/livez'' \<or> path = ''/readyz'' then Served StaticOKHandler
           else if covers ''/metrics'' path then Served MetricsHandler
           else if ''/metrics'' = path @ ''/'' \<and> \<not> subtree path then Redirected ''/metrics''
           else PageNotFound)" for path by simp
  note f = this [of "''/metrics''"] this [of "''/livez''"] this [of "''/metrics/a''"]
  have clean: "cleanPath ''/metrics'' = ''/metrics''" "cleanPath ''/livez'' = ''/livez''" "cleanPath ''/metrics/a'' = ''/metrics/a''"
    by code_simp+
  have "covers ''/metrics'' ''/metrics''" "\<not> covers ''/metrics'' ''/metrics/a''" by code_simp+
  with f clean rs show ?thesis by simp
qed

end
