(* ===== verification/Command.thy ===== *)
theory Command
  imports Lifecycle Dump Routing
begin

text \<open>
  The process around the server of \<open>main.go\<close>: \<open>Start\<close>, \<open>Shutdown\<close>, the wait for a signal or a server error,
  the command's \<open>RunE\<close>, the flags and the exit status, with what they end in.

  What the process asks of its platform is the record \<open>Platform\<close>: the OpenTelemetry SDK's answers, the
  host's name, the build's versions, whether the Prometheus registry accepts its first and second
  collector, whether the multiplexer accepts a metrics path with pattern syntax, whether a watcher can
  be made and can watch a directory, and which runes beyond ASCII are printable. Why the wait ends is an
  argument (\<open>wake\<close>), as is godotenv's \<open>Load\<close> (\<open>dotenv\<close>). \<open>setupLogging\<close> cannot fail, since \<open>PrepareLogs\<close>
  never does, and leaves no trace in the state of a run.
\<close>

section \<open>Start, Shutdown and the command\<close>

datatype action = CloseWatcher | StopHTTP | StopCollection | StopOTLP | StopTelemetry | CloseErrors

record ('n, 's, 'e) Process =
  pr_server :: "('n, 's, 'e) Server"
  pr_tracing :: "Manager option"
  pr_http :: bool
  pr_watching :: "string option"
  pr_printed :: string
  pr_stopped :: "action list"

record Platform =
  pf_exporter_ok :: "exporter_option list \<Rightarrow> bool"
  pf_resource_ok :: "(string \<times> string) list \<Rightarrow> bool"
  pf_hostname :: "string option"
  pf_version :: string
  pf_reg_ok :: "nat \<Rightarrow> bool"
  pf_special_ok :: "string \<Rightarrow> bool"
  pf_new_watcher :: bool
  pf_add_watch :: "string \<Rightarrow> bool"
  pf_printable :: "int \<Rightarrow> bool"

definition start_tracing :: "Platform \<Rightarrow> Config \<Rightarrow> Manager option" where
  "start_tracing pf cfg =
     fst (initTracing (pf_exporter_ok pf) (pf_resource_ok pf) (pf_hostname pf) (pf_version pf) cfg None)"

text \<open>The error \<open>RunE\<close> returns, or the panic that ends the process.\<close>

datatype run_error =
    InvalidConfig config_error
  | RegisterFailed nat
  | PatternPanic
  | TickerPanic
  | ClosedChannelPanic

definition mux_ok :: "Platform \<Rightarrow> Config \<Rightarrow> bool" where
  "mux_ok pf cfg =
     (let uri = sv_URI (cf_Server cfg) in if plain_pattern uri then mux_of uri \<noteq> None else pf_special_ok pf uri)"

text \<open>The collectors are registered after the first cycle, an error there leaves the command; then the
  handlers, where a path the multiplexer refuses is a panic.\<close>

inductive Start ::
    "('n, 's, 'e) Outside \<Rightarrow> string \<Rightarrow> bool \<Rightarrow> bool \<Rightarrow> MeterSdk \<Rightarrow> Platform
     \<Rightarrow> ('n, 's, 'e) Server \<Rightarrow> run_error + ('n, 's, 'e) Process \<Rightarrow> bool"
  for ou dumpDir tr once sdk pf where
  started: "startCollection ou dumpDir tr once s s1 \<Longrightarrow> pf_reg_ok pf 0 \<Longrightarrow> pf_reg_ok pf 1 \<Longrightarrow>
     mux_ok pf (sc_C (sr_cfg s)) \<Longrightarrow>
     Start ou dumpDir tr once sdk pf s
       (Inr \<lparr>pr_server = initOTLP sdk s1, pr_tracing = start_tracing pf (sc_C (sr_cfg s)),
             pr_http = True, pr_watching = None, pr_printed = [], pr_stopped = []\<rparr>)"
| pattern_refused: "startCollection ou dumpDir tr once s s1 \<Longrightarrow> pf_reg_ok pf 0 \<Longrightarrow> pf_reg_ok pf 1 \<Longrightarrow>
     \<not> mux_ok pf (sc_C (sr_cfg s)) \<Longrightarrow> Start ou dumpDir tr once sdk pf s (Inl PatternPanic)"
| samples_refused: "startCollection ou dumpDir tr once s s1 \<Longrightarrow> \<not> pf_reg_ok pf 0 \<Longrightarrow>
     Start ou dumpDir tr once sdk pf s (Inl (RegisterFailed 0))"
| build_info_refused: "startCollection ou dumpDir tr once s s1 \<Longrightarrow> pf_reg_ok pf 0 \<Longrightarrow> \<not> pf_reg_ok pf 1 \<Longrightarrow>
     Start ou dumpDir tr once sdk pf s (Inl (RegisterFailed 1))"

definition Shutdown :: "('n, 's, 'e) Outside \<Rightarrow> ('n, 's, 'e) Process \<Rightarrow> ('n, 's, 'e) Process" where
  "Shutdown ou p =
     p\<lparr>pr_server := stopCollection ou (pr_server p),
       pr_stopped := pr_stopped p
         @ (if pr_watching p \<noteq> None then [CloseWatcher] else [])
         @ (if pr_http p then [StopHTTP] else [])
         @ [StopCollection]
         @ (if sr_otlp (pr_server p) \<noteq> None then [StopOTLP] else [])
         @ (if pr_tracing p \<noteq> None then [StopTelemetry] else [])
         @ [CloseErrors]\<rparr>"

datatype log_level = InfoLevel | DebugLevel

definition setupLogging ::
    "(string \<Rightarrow> bool) \<Rightarrow> (string \<Rightarrow> bool) \<Rightarrow> Config \<Rightarrow> bool \<Rightarrow> (log_output \<times> log_warning option) \<times> log_level" where
  "setupLogging mkdir_ok open_ok cfg debugMode =
     (PrepareLogs mkdir_ok open_ok (sv_LogName (cf_Server cfg)), if debugMode then DebugLevel else InfoLevel)"

text \<open>Why the command stops waiting: a signal, or an error of the HTTP server. With \<open>LateError\<close> it is a signal
  (or the end of a single cycle), while an error of the HTTP server is still on its way; with \<open>AtOnce\<close> it
  is either, and comes so soon that the process ends before the goroutine of a loop just started has run.\<close>

datatype wake = Signal | ServerError string | LateError string | AtOnce "string option"

definition waitForShutdown :: "wake \<Rightarrow> string option" where
  "waitForShutdown w = (case w of Signal \<Rightarrow> None | ServerError e \<Rightarrow> Some e | LateError e \<Rightarrow> None | AtOnce r \<Rightarrow> r)"

definition ends_at_once :: "wake \<Rightarrow> bool" where
  "ends_at_once w = (case w of AtOnce r \<Rightarrow> True | _ \<Rightarrow> False)"

definition error_is_late :: "wake \<Rightarrow> bool" where
  "error_is_late w = (case w of LateError e \<Rightarrow> True | _ \<Rightarrow> False)"

definition once_output :: "Platform \<Rightarrow> bool \<Rightarrow> order \<Rightarrow> ('n, 's, 'e) Process \<Rightarrow> string" where
  "once_output pf debug ord p =
     (if debug then dumpSamples (pf_printable pf) (ord 1) (Load (sr_store (pr_server p))) else [])"

text \<open>A loop whose period is not positive panics in \<open>time.NewTicker\<close>, the first thing its goroutine calls, and
  takes the process with it: from then on the server makes no step.\<close>

definition crashed :: "('n, 's, 'e) Server \<Rightarrow> bool" where
  "crashed s \<longleftrightarrow> list_ex (\<lambda>l. lp_phase l = Panicked) (sr_loops s)"

definition run_step ::
    "('n, 's, 'e) Outside \<Rightarrow> string \<Rightarrow> bool \<Rightarrow> MeterSdk \<Rightarrow> ('n, 's, 'e) Server \<Rightarrow> ('n, 's, 'e) Server \<Rightarrow> bool" where
  "run_step ou dumpDir tr sdk s s' \<longleftrightarrow> server_step ou dumpDir tr sdk s s' \<and> \<not> crashed s"

text \<open>What can happen to the server before the process ends: its own steps, also while \<open>Shutdown\<close> is at work
  (a reload that is under way goes on), and the stop of the collection.\<close>

inductive life_step ::
    "('n, 's, 'e) Outside \<Rightarrow> string \<Rightarrow> bool \<Rightarrow> MeterSdk \<Rightarrow> ('n, 's, 'e) Server \<Rightarrow> ('n, 's, 'e) Server \<Rightarrow> bool"
  for ou dumpDir tr sdk where
  running: "run_step ou dumpDir tr sdk s s' \<Longrightarrow> life_step ou dumpDir tr sdk s s'"
| stopping: "life_step ou dumpDir tr sdk s (stopCollection ou s)"

text \<open>\<open>RunE\<close>: the error or panic the command ends with or the process it shut down, with the server error it
  logged. A single cycle with the debug flag prints the samples; log lines apart, nothing else is
  printed. Otherwise the state evolves by the server's steps until \<open>Shutdown\<close> stops the collection and
  from there to the exit, unless a loop panics. An error of the HTTP server that comes after \<open>Shutdown\<close> has closed the error
  channel is a send on a closed channel.\<close>

inductive RunE ::
    "('n, 's, 'e) Outside \<Rightarrow> string \<Rightarrow> bool \<Rightarrow> MeterSdk \<Rightarrow> Platform \<Rightarrow> bool \<Rightarrow> bool
     \<Rightarrow> (env \<Rightarrow> file_entry \<Rightarrow> env \<times> bool) \<Rightarrow> (string \<Rightarrow> Config option) \<Rightarrow> env \<Rightarrow> fs \<Rightarrow> string \<Rightarrow> wake
     \<Rightarrow> run_error + (('n, 's, 'e) Process \<times> string option) \<Rightarrow> bool"
  for ou dumpDir tr sdk pf debug once dotenv decode env fs path wake where
  invalid: "startup decode (LoadDotEnv dotenv env fs path) fs path = Inl e \<Longrightarrow>
     RunE ou dumpDir tr sdk pf debug once dotenv decode env fs path wake (Inl (InvalidConfig e))"
| not_started: "startup decode (LoadDotEnv dotenv env fs path) fs path = Inr sc \<Longrightarrow> is_order ord \<Longrightarrow>
     Start ou dumpDir tr once sdk pf (NewServer (ord 0) sc) (Inl e) \<Longrightarrow>
     RunE ou dumpDir tr sdk pf debug once dotenv decode env fs path wake (Inl e)"
| once_only: "once \<Longrightarrow> startup decode (LoadDotEnv dotenv env fs path) fs path = Inr sc \<Longrightarrow> is_order ord \<Longrightarrow>
     Start ou dumpDir tr once sdk pf (NewServer (ord 0) sc) (Inr p) \<Longrightarrow>
     RunE ou dumpDir tr sdk pf debug once dotenv decode env fs path wake
       (Inr (Shutdown ou (p\<lparr>pr_printed := once_output pf debug ord p\<rparr>), None))"
| served: "\<not> once \<Longrightarrow> startup decode (LoadDotEnv dotenv env fs path) fs path = Inr sc \<Longrightarrow> is_order ord \<Longrightarrow>
     Start ou dumpDir tr once sdk pf (NewServer (ord 0) sc) (Inr p) \<Longrightarrow>
     (run_step ou dumpDir tr sdk)\<^sup>*\<^sup>* (pr_server p) s1 \<Longrightarrow>
     q = Shutdown ou (p\<lparr>pr_server := s1,
           pr_watching := WatchConfigFile (pf_new_watcher pf) (pf_add_watch pf) path\<rparr>) \<Longrightarrow>
     (run_step ou dumpDir tr sdk)\<^sup>*\<^sup>* (pr_server q) s2 \<Longrightarrow> crashed s2 \<longrightarrow> ends_at_once wake \<Longrightarrow>
     RunE ou dumpDir tr sdk pf debug once dotenv decode env fs path wake
       (Inr (q\<lparr>pr_server := s2\<rparr>, waitForShutdown wake))"
| first_loop_panics: "\<not> once \<Longrightarrow> startup decode (LoadDotEnv dotenv env fs path) fs path = Inr sc \<Longrightarrow> is_order ord \<Longrightarrow>
     startCollection ou dumpDir tr once (NewServer (ord 0) sc) s1 \<Longrightarrow> crashed s1 \<Longrightarrow>
     RunE ou dumpDir tr sdk pf debug once dotenv decode env fs path wake (Inl TickerPanic)"
| loop_panics: "\<not> once \<Longrightarrow> startup decode (LoadDotEnv dotenv env fs path) fs path = Inr sc \<Longrightarrow> is_order ord \<Longrightarrow>
     Start ou dumpDir tr once sdk pf (NewServer (ord 0) sc) (Inr p) \<Longrightarrow>
     (life_step ou dumpDir tr sdk)\<^sup>*\<^sup>* (pr_server p) s1 \<Longrightarrow> crashed s1 \<Longrightarrow>
     RunE ou dumpDir tr sdk pf debug once dotenv decode env fs path wake (Inl TickerPanic)"
| closed_channel: "startup decode (LoadDotEnv dotenv env fs path) fs path = Inr sc \<Longrightarrow> is_order ord \<Longrightarrow>
     Start ou dumpDir tr once sdk pf (NewServer (ord 0) sc) (Inr p) \<Longrightarrow> wake = LateError e \<Longrightarrow>
     RunE ou dumpDir tr sdk pf debug once dotenv decode env fs path wake (Inl ClosedChannelPanic)"

text \<open>An error is printed and the status is 1; the runtime ends a panic with status 2.\<close>

definition exit_status :: "run_error + 'a \<Rightarrow> int" where
  "exit_status r =
     (case r of
        Inl e \<Rightarrow> (case e of InvalidConfig c \<Rightarrow> 1 | RegisterFailed i \<Rightarrow> 1 | _ \<Rightarrow> 2)
      | Inr p \<Rightarrow> 0)"

section \<open>The command line\<close>

text \<open>The flags, and what the arguments that set them make of them, the last one winning. \<open>--config\<close> has to
  be given.\<close>

record Flags =
  fg_configFile :: string
  fg_debug :: bool
  fg_once :: bool
  fg_dumpDir :: string
  fg_traceAPI :: bool

datatype flag_arg = ConfigArg string | DebugArg bool | OnceArg bool | DumpDirArg string | TraceArg bool

definition default_flags :: Flags where
  "default_flags = \<lparr>fg_configFile = [], fg_debug = False, fg_once = False, fg_dumpDir = [], fg_traceAPI = False\<rparr>"

fun set_flag :: "flag_arg \<Rightarrow> Flags \<Rightarrow> Flags" where
  "set_flag (ConfigArg p) fl = fl\<lparr>fg_configFile := p\<rparr>"
| "set_flag (DebugArg b) fl = fl\<lparr>fg_debug := b\<rparr>"
| "set_flag (OnceArg b) fl = fl\<lparr>fg_once := b\<rparr>"
| "set_flag (DumpDirArg d) fl = fl\<lparr>fg_dumpDir := d\<rparr>"
| "set_flag (TraceArg b) fl = fl\<lparr>fg_traceAPI := b\<rparr>"

fun names_config :: "flag_arg \<Rightarrow> bool" where
  "names_config (ConfigArg p) = True"
| "names_config _ = False"

definition parse_flags :: "flag_arg list \<Rightarrow> Flags option" where
  "parse_flags as = (if list_ex names_config as then Some (fold set_flag as default_flags) else None)"

text \<open>What the flag parser makes of the command line: an error, a request it answers itself (\<open>--help\<close> or
  \<open>--version\<close>), or the flags that are set.\<close>

datatype command_line = BadUsage | InfoOnly | FlagArgs "flag_arg list"

text \<open>\<open>main\<close>: the status the process ends with. An error of the command line or of \<open>RunE\<close> is printed to
  standard error.\<close>

inductive Main ::
    "('n, 's, 'e) Outside \<Rightarrow> MeterSdk \<Rightarrow> Platform \<Rightarrow> (env \<Rightarrow> file_entry \<Rightarrow> env \<times> bool)
     \<Rightarrow> (string \<Rightarrow> Config option) \<Rightarrow> env \<Rightarrow> fs \<Rightarrow> wake \<Rightarrow> command_line \<Rightarrow> int \<Rightarrow> bool"
  for ou sdk pf dotenv decode env fs wake where
  bad_usage: "Main ou sdk pf dotenv decode env fs wake BadUsage 1"
| info: "Main ou sdk pf dotenv decode env fs wake InfoOnly 0"
| no_config: "parse_flags as = None \<Longrightarrow> Main ou sdk pf dotenv decode env fs wake (FlagArgs as) 1"
| ran: "parse_flags as = Some fl \<Longrightarrow>
     RunE ou (fg_dumpDir fl) (fg_traceAPI fl) sdk pf (fg_debug fl) (fg_once fl) dotenv decode env fs (fg_configFile fl) wake r \<Longrightarrow>
     Main ou sdk pf dotenv decode env fs wake (FlagArgs as) (exit_status r)"

section \<open>How runs end\<close>

lemma run_steps: "(run_step ou dumpDir tr sdk)\<^sup>*\<^sup>* s s' \<Longrightarrow> (server_step ou dumpDir tr sdk)\<^sup>*\<^sup>* s s'"
  by (erule rtranclp_mono [THEN predicate2D, rotated]) (auto simp: run_step_def)

lemma crashed_stays: "(run_step ou dumpDir tr sdk)\<^sup>*\<^sup>* s s' \<Longrightarrow> crashed s \<Longrightarrow> s' = s"
  by (erule converse_rtranclpE) (auto simp: run_step_def)

text \<open>A loop panics only if its period is not positive: that of the configuration in force when it starts.\<close>

definition bad_period :: "('n, 's, 'e) Server \<Rightarrow> bool" where
  "bad_period s \<longleftrightarrow> GetCollectionInterval (sc_C (sr_cfg s)) \<le> 0"

lemma start_crashed:
  assumes "startCollection ou dumpDir tr False s s'"
  shows "crashed s' \<longleftrightarrow> crashed s \<or> bad_period s"
  using assms by cases (auto simp: crashed_def bad_period_def new_loop_def)

lemma update_phase:
  assumes "list_ex (\<lambda>l. lp_phase l = Panicked) (xs[i := x])" and "lp_phase x = Panicked \<Longrightarrow> lp_phase (xs ! i) = Panicked"
  shows "list_ex (\<lambda>l. lp_phase l = Panicked) xs"
proof (cases "i < length xs")
  case True
  from assms(1) obtain j where "j < length xs" "lp_phase (xs[i := x] ! j) = Panicked" by (auto simp: list_ex_length)
  with assms(2) True show ?thesis by (cases "j = i") (auto simp: list_ex_length)
qed (use assms(1) in \<open>simp add: list_update_beyond\<close>)

lemma stop_crashed: "crashed (stopCollection ou s) \<Longrightarrow> crashed s"
  by (auto simp: crashed_def stopCollection_def intro: update_phase split: option.splits)

lemma step_crashed:
  assumes "server_step ou dumpDir tr sdk s s'" and "crashed s'"
  shows "crashed s \<or> bad_period s"
  using assms(1)
proof (cases rule: server_step.cases)
  case (reload_stop decode fs path sc')
  with assms(2) stop_crashed show ?thesis by (fastforce simp: crashed_def)
next
  case (reload_start s1)
  with assms(2) start_crashed [OF reload_start(3)] show ?thesis by (simp add: crashed_def)
qed (use assms(2) in \<open>auto simp: crashed_def intro: update_phase\<close>)

lemma life_crashed:
  assumes "(life_step ou dumpDir tr sdk)\<^sup>*\<^sup>* s s'" and "crashed s'"
  shows "crashed s \<or> (\<exists>t. (life_step ou dumpDir tr sdk)\<^sup>*\<^sup>* s t \<and> bad_period t)"
  using assms
proof (induction rule: rtranclp_induct)
  case (step s1 s2)
  from step.hyps(2) show ?case
  proof cases
    case running
    then have "server_step ou dumpDir tr sdk s1 s2" by (simp add: run_step_def)
    with step_crashed [OF this step.prems] step.IH step.hyps(1) show ?thesis by blast
  next
    case stopping
    with step.prems step.IH stop_crashed show ?thesis by blast
  qed
qed simp

text \<open>A loop that is cancelled stays cancelled.\<close>

definition cancelled_upto :: "nat \<Rightarrow> ('n, 's, 'e) Server \<Rightarrow> bool" where
  "cancelled_upto n s \<longleftrightarrow> n \<le> length (sr_loops s) \<and> list_all lp_cancelled (take n (sr_loops s))"

lemma cancelled_update:
  assumes "list_all lp_cancelled (take n xs)" and "i < length xs \<Longrightarrow> lp_cancelled (xs ! i) \<Longrightarrow> lp_cancelled x"
  shows "list_all lp_cancelled (take n (xs[i := x]))"
proof (unfold list_all_length, intro allI impI)
  fix j
  assume "j < length (take n (xs[i := x]))"
  then have j: "j < n" "j < length xs" by simp_all
  with assms(1) have "lp_cancelled (xs ! j)" by (simp add: list_all_length)
  with assms(2) j show "lp_cancelled (take n (xs[i := x]) ! j)" by (cases "j = i") auto
qed

lemma start_cancelled: "startCollection ou dumpDir tr once s s' \<Longrightarrow> cancelled_upto n s \<Longrightarrow> cancelled_upto n s'"
  by (erule startCollection.cases) (auto simp: cancelled_upto_def)

lemma step_cancelled:
  assumes "server_step ou dumpDir tr sdk s s'" and "cancelled_upto n s"
  shows "cancelled_upto n s'"
  using assms(1)
proof (cases rule: server_step.cases)
  case (reload_stop decode fs path sc')
  with assms(2) show ?thesis
    by (auto simp: cancelled_upto_def stopCollection_def intro!: cancelled_update split: option.split)
next
  case (reload_start s1)
  with start_cancelled [OF reload_start(3) assms(2)] show ?thesis by (simp add: cancelled_upto_def)
qed (use assms(2) in \<open>auto simp: cancelled_upto_def intro!: cancelled_update\<close>)

lemma steps_cancelled: "(server_step ou dumpDir tr sdk)\<^sup>*\<^sup>* s s' \<Longrightarrow> cancelled_upto n s \<Longrightarrow> cancelled_upto n s'"
  by (induction rule: rtranclp_induct) (auto intro: step_cancelled)

text \<open>The state at the exit: what \<open>Shutdown\<close> did, and the steps since.\<close>

lemma RunE_shut_down:
  assumes "RunE ou dumpDir tr sdk pf debug once dotenv decode env fs path wake (Inr (p, e))"
  shows "\<exists>p0. loops_ok (pr_server p0) \<and> pr_http p0 \<and> pr_stopped p0 = [] \<and> (pr_printed p0 \<noteq> [] \<longrightarrow> debug \<and> once)
    \<and> (server_step ou dumpDir tr sdk)\<^sup>*\<^sup>* (pr_server (Shutdown ou p0)) (pr_server p)
    \<and> p = (Shutdown ou p0)\<lparr>pr_server := pr_server p\<rparr> \<and> (crashed (pr_server p) \<longrightarrow> ends_at_once wake)"
  using assms
proof cases
  case (once_only sc ord p0)
  from once_only(6) show ?thesis
  proof cases
    case (started s1)
    then have "sr_loops s1 = [] \<and> sr_cancel s1 = None"
      using once_only(3) by (auto elim!: startCollection.cases simp: NewServer_def)
    moreover from this have "loops_ok s1" by (simp add: loops_ok_def live_ok_def)
    then have "loops_ok (pr_server p0)" using started by (simp add: loops_ok_otlp)
    ultimately show ?thesis
      using started once_only(1,3)
      by (intro exI [of _ "p0\<lparr>pr_printed := once_output pf debug ord p0\<rparr>"])
        (simp add: once_output_def Shutdown_def stopCollection_def crashed_def)
  qed
next
  case (served sc ord p0 s1 q s2)
  from served(6) show ?thesis
  proof cases
    case (started t1)
    then have "reachable ou dumpDir tr sdk sc (pr_server p0)"
      using reachable.started [OF served(5)] served(3) by simp
    from reachable_loops_ok [OF steps_reachable [OF run_steps [OF served(7)] this]] started run_steps [OF served(9)]
      served(1,8,10) show ?thesis
      by (intro exI [of _ "p0\<lparr>pr_server := s1,
        pr_watching := WatchConfigFile (pf_new_watcher pf) (pf_add_watch pf) path\<rparr>"]) simp
  qed
qed

text \<open>The runs that panic for a period: its configuration is the first one or one a reload installs.\<close>

lemma first_crashed:
  assumes "startCollection ou dumpDir tr once (NewServer o1 sc) s"
  shows "crashed s \<longleftrightarrow> \<not> once \<and> GetCollectionInterval (sc_C sc) \<le> 0"
  using assms by cases (auto simp: crashed_def NewServer_def new_loop_def)

lemma Start_crashed:
  assumes "Start ou dumpDir tr once sdk pf (NewServer o1 sc) (Inr p)"
  shows "crashed (pr_server p) \<longleftrightarrow> \<not> once \<and> GetCollectionInterval (sc_C sc) \<le> 0"
  using assms
proof cases
  case (started s1)
  with first_crashed [OF started(2)] show ?thesis by (simp add: crashed_def)
qed

lemma Start_answers:
  assumes "Start ou dumpDir tr once sdk pf (NewServer o1 sc) r"
  shows "case r of
      Inl (RegisterFailed i) \<Rightarrow> \<not> pf_reg_ok pf i \<and> i \<le> 1
    | Inl e \<Rightarrow> e = PatternPanic \<and> pf_reg_ok pf 0 \<and> pf_reg_ok pf 1 \<and> \<not> mux_ok pf (sc_C sc)
    | Inr p \<Rightarrow> pf_reg_ok pf 0 \<and> pf_reg_ok pf 1 \<and> mux_ok pf (sc_C sc)"
  using assms by cases (simp_all add: NewServer_def)

text \<open>Some configuration in force has no positive period when a loop is started with it.\<close>

definition period_refused ::
    "('n, 's, 'e) Outside \<Rightarrow> string \<Rightarrow> bool \<Rightarrow> MeterSdk \<Rightarrow> Platform \<Rightarrow> SafeConfig \<Rightarrow> bool" where
  "period_refused ou dumpDir tr sdk pf sc \<longleftrightarrow>
     GetCollectionInterval (sc_C sc) \<le> 0
     \<or> (\<exists>ord p s. is_order ord \<and> Start ou dumpDir tr False sdk pf (NewServer (ord 0) sc) (Inr p)
          \<and> (life_step ou dumpDir tr sdk)\<^sup>*\<^sup>* (pr_server p) s \<and> bad_period s)"

lemma RunE_ticker:
  assumes "RunE ou dumpDir tr sdk pf debug once dotenv decode env fs path wake (Inl TickerPanic)"
  shows "\<not> once \<and> (\<exists>sc. startup decode (LoadDotEnv dotenv env fs path) fs path = Inr sc \<and> period_refused ou dumpDir tr sdk pf sc)"
  using assms
proof cases
  case (not_started sc ord)
  from Start_answers [OF not_started(3)] show ?thesis by simp
next
  case (first_loop_panics sc ord s1)
  with first_crashed [OF first_loop_panics(4)] show ?thesis by (auto simp: period_refused_def)
next
  case (loop_panics sc ord p s1)
  from loop_panics(4) have st: "Start ou dumpDir tr False sdk pf (NewServer (ord 0) sc) (Inr p)" using loop_panics(1) by simp
  from life_crashed [OF loop_panics(5,6)] show ?thesis
    using loop_panics(1,2,3) st Start_crashed [OF loop_panics(4)] unfolding period_refused_def by blast
qed

definition example_platform :: Platform where
  "example_platform =
     \<lparr>pf_exporter_ok = (\<lambda>os. True), pf_resource_ok = (\<lambda>attrs. True), pf_hostname = None, pf_version = ''dev'',
      pf_reg_ok = (\<lambda>i. True), pf_special_ok = (\<lambda>uri. True), pf_new_watcher = True, pf_add_watch = (\<lambda>dir. True),
      pf_printable = (\<lambda>r. True)\<rparr>"



text \<open>Example runs: the configuration with an interval of its own, its start and what follows.\<close>

definition paced_config :: "string \<Rightarrow> Config" where
  "paced_config d = example_config\<lparr>cf_Collection := \<lparr>co_Interval = d, co_Timeout = []\<rparr>\<rparr>"

abbreviation example_load :: "env \<Rightarrow> file_entry \<Rightarrow> env \<times> bool" where
  "example_load \<equiv> (\<lambda>env f. (env, False))"

abbreviation example_files :: fs where
  "example_files \<equiv> (\<lambda>p. Content [])"

lemma paced_startup:
  "list_all (\<lambda>(d, once_ok).
     case startup (\<lambda>t. Some (paced_config d)) (LoadDotEnv example_load example_env example_files ''c.yaml'') example_files ''c.yaml'' of
       Inl e \<Rightarrow> False
     | Inr sc \<Rightarrow> mux_ok example_platform (sc_C sc) \<and> (once_ok \<longleftrightarrow> 0 < GetCollectionInterval (sc_C sc)))
   [([], True), (''5m'', True), (''0s'', False), (''-5s'', False)]"
  by code_simp


section \<open>The status of the program\<close>

text \<open>The statuses a started command can end with, and those of the whole program.\<close>

definition run_statuses :: "Platform \<Rightarrow> bool \<Rightarrow> wake \<Rightarrow> Config \<Rightarrow> int set" where
  "run_statuses pf once wake cfg =
     (let registered = pf_reg_ok pf 0 \<and> pf_reg_ok pf 1; ticks = 0 < GetCollectionInterval cfg
      in if \<not> once \<and> \<not> ticks then
           (if \<not> registered then {1, 2} else if mux_ok pf cfg \<and> ends_at_once wake then {0, 2} else {2})
         else if \<not> registered then {1}
         else if \<not> mux_ok pf cfg then {2}
         else if once \<and> \<not> error_is_late wake then {0}
         else {0, 2})"

definition main_statuses ::
    "Platform \<Rightarrow> (env \<Rightarrow> file_entry \<Rightarrow> env \<times> bool) \<Rightarrow> (string \<Rightarrow> Config option) \<Rightarrow> env \<Rightarrow> fs \<Rightarrow> wake \<Rightarrow> command_line \<Rightarrow> int set" where
  "main_statuses pf dotenv decode env fs wake cmd =
     (case cmd of
        BadUsage \<Rightarrow> {1}
      | InfoOnly \<Rightarrow> {0}
      | FlagArgs as \<Rightarrow>
          (case parse_flags as of
             None \<Rightarrow> {1}
           | Some fl \<Rightarrow>
               (case startup decode (LoadDotEnv dotenv env fs (fg_configFile fl)) fs (fg_configFile fl) of
                  Inl e \<Rightarrow> {1} | Inr sc \<Rightarrow> run_statuses pf (fg_once fl) wake (sc_C sc))))"

lemma stop_keeps_crashed: "crashed s \<Longrightarrow> crashed (stopCollection ou s)"
proof (cases "sr_cancel s")
  case (Some i)
  assume "crashed s"
  then obtain j where "j < length (sr_loops s)" "lp_phase (sr_loops s ! j) = Panicked"
    by (auto simp: crashed_def list_ex_length)
  then show ?thesis
    by (cases "i = j") (auto simp: crashed_def stopCollection_def Some list_ex_length intro!: exI [of _ j])
qed (simp add: stopCollection_def)

text \<open>A served run whose first loop is bound to panic ends at once.\<close>

lemma served_crash:
  assumes "Start ou dumpDir tr once sdk pf (NewServer o1 sc) (Inr p)" and "\<not> once" and "GetCollectionInterval (sc_C sc) \<le> 0"
    and "(run_step ou dumpDir tr sdk)\<^sup>*\<^sup>* (pr_server p) s1"
    and "(run_step ou dumpDir tr sdk)\<^sup>*\<^sup>* (pr_server (Shutdown ou (p\<lparr>pr_server := s1, pr_watching := w\<rparr>))) s2"
  shows "crashed s2"
proof -
  have "crashed (pr_server p)" using Start_crashed [OF assms(1)] assms(2,3) by simp
  moreover from this have "s1 = pr_server p" by (rule crashed_stays [OF assms(4)])
  ultimately have "crashed (pr_server (Shutdown ou (p\<lparr>pr_server := s1, pr_watching := w\<rparr>)))"
    using stop_keeps_crashed by (simp add: Shutdown_def)
  with crashed_stays [OF assms(5)] show ?thesis by simp
qed

lemma Start_status:
  assumes "Start ou dumpDir tr once sdk pf (NewServer o1 sc) (Inl e)"
  shows "exit_status (Inl e) \<in> run_statuses pf once wake (sc_C sc)"
  using Start_answers [OF assms] by (auto simp: exit_status_def run_statuses_def less_Suc_eq_le le_Suc_eq split: run_error.splits)

lemma RunE_statuses:
  assumes "RunE ou dumpDir tr sdk pf debug once dotenv decode env fs path wake r"
    and "startup decode (LoadDotEnv dotenv env fs path) fs path = Inr sc"
  shows "exit_status r \<in> run_statuses pf once wake (sc_C sc)"
  using assms(1)
proof cases
  case (not_started sc' ord e)
  with assms(2) Start_status show ?thesis by fastforce
next
  case (once_only sc' ord p)
  with assms(2) Start_answers [OF once_only(5)] show ?thesis by (simp add: run_statuses_def exit_status_def)
next
  case (served sc' ord p s1 q s2)
  then have "GetCollectionInterval (sc_C sc) \<le> 0 \<Longrightarrow> ends_at_once wake"
    using served_crash [OF served(5) served(2)] assms(2) by auto
  with served assms(2) Start_answers [OF served(5)] show ?thesis by (auto simp: run_statuses_def exit_status_def)
next
  case (first_loop_panics sc' ord s1)
  with assms(2) first_crashed [OF first_loop_panics(5)] show ?thesis by (simp add: run_statuses_def exit_status_def)
next
  case (loop_panics sc' ord p s1)
  with assms(2) Start_answers [OF loop_panics(5)] show ?thesis by (simp add: run_statuses_def exit_status_def)
next
  case (closed_channel sc' ord p e)
  with assms(2) Start_answers [OF closed_channel(4)] show ?thesis
    by (simp add: run_statuses_def exit_status_def error_is_late_def)
qed (use assms(2) in simp)

lemma RunE_completes:
  fixes ou :: "('n, 's, 'e) Outside"
  assumes "startup decode (LoadDotEnv dotenv env fs path) fs path = Inr sc"
  shows "\<exists>r. RunE ou dumpDir tr sdk pf debug once dotenv decode env fs path wake r
    \<and> (0 \<in> run_statuses pf once wake (sc_C sc) \<longrightarrow> exit_status r = 0)"
proof -
  let ?s0 = "NewServer (id_order 0) sc :: ('n, 's, 'e) Server"
  obtain s1 where s1: "startCollection ou dumpDir tr once ?s0 s1" using startCollection_total by blast
  have cfg: "sc_C (sr_cfg ?s0) = sc_C sc" by (simp add: NewServer_def)
  show ?thesis
  proof (cases "pf_reg_ok pf 0 \<and> pf_reg_ok pf 1 \<and> mux_ok pf (sc_C sc)")
    case False
    then consider "\<not> pf_reg_ok pf 0" | "pf_reg_ok pf 0" "\<not> pf_reg_ok pf 1"
      | "pf_reg_ok pf 0" "pf_reg_ok pf 1" "\<not> mux_ok pf (sc_C (sr_cfg ?s0))"
      using cfg by auto
    then have "\<exists>e. Start ou dumpDir tr once sdk pf ?s0 (Inl e)"
      by cases (blast intro: Start.samples_refused Start.build_info_refused Start.pattern_refused s1)+
    moreover have "0 \<notin> run_statuses pf once wake (sc_C sc)" using False by (auto simp: run_statuses_def)
    ultimately show ?thesis using RunE.not_started [OF assms is_order_id] by blast
  next
    case True
    then obtain p where p: "Start ou dumpDir tr once sdk pf ?s0 (Inr p)" using Start.started [OF s1] cfg by auto
    note crash = Start_crashed [OF p]
    consider "once" | "\<not> once" "crashed (stopCollection ou (pr_server p)) \<longrightarrow> ends_at_once wake"
      | "\<not> once" "crashed (pr_server p)" "\<not> ends_at_once wake"
      using stop_crashed [of ou "pr_server p"] by blast
    then show ?thesis
    proof cases
      case 1
      from RunE.once_only [OF 1 assms is_order_id p] show ?thesis by (intro exI conjI impI) (assumption, simp add: exit_status_def)
    next
      case 2
      then have "crashed (pr_server (Shutdown ou (p\<lparr>pr_server := pr_server p, pr_watching := w\<rparr>))) \<longrightarrow> ends_at_once wake" for w
        by (simp add: Shutdown_def)
      from RunE.served [OF 2(1) assms is_order_id p rtranclp.rtrancl_refl refl rtranclp.rtrancl_refl this]
      show ?thesis by (intro exI conjI impI) (assumption, simp add: exit_status_def)
    next
      case 3
      then have "0 \<notin> run_statuses pf once wake (sc_C sc)" using crash by (auto simp: run_statuses_def Let_def)
      with RunE.loop_panics [OF 3(1) assms is_order_id p rtranclp.rtrancl_refl 3(2)] show ?thesis by blast
    qed
  qed
qed

lemma Main_run:
  assumes "Main ou sdk pf dotenv decode env fs wake cmd st"
  shows "st \<in> main_statuses pf dotenv decode env fs wake cmd"
  using assms
proof cases
  case (ran as fl r)
  show ?thesis
  proof (cases "startup decode (LoadDotEnv dotenv env fs (fg_configFile fl)) fs (fg_configFile fl)")
    case (Inl e)
    from ran(4) have "r = Inl (InvalidConfig e)" by cases (simp_all add: Inl)
    with ran show ?thesis by (simp add: main_statuses_def Inl exit_status_def)
  next
    case (Inr sc)
    with RunE_statuses [OF ran(4) Inr] ran show ?thesis by (simp add: main_statuses_def)
  qed
qed (simp_all add: main_statuses_def)

text \<open>C19: The program never gets stuck, and its status: whatever the command line, the environment, the file
  system, the network and the platform do, there is a run, and every run ends with one of the statuses
  of the situation. They are: 1 for a command line that is refused or names no configuration file and
  for a configuration that does not start; 0 for \<open>--help\<close> and \<open>--version\<close>; 1 for a refused collector and 2
  for a refused metrics path; 2 for a serving run whose interval is not positive (or 0 if it ends before
  the loop has run, or 1 if a collector is refused before that); 0 for a single cycle (or 2 when a late
  HTTP error meets the closed channel); 0 or 2 for any other serving run, since a later reload can bring
  an interval that is not positive. Where 0 is among them, a run ends with it.\<close>

theorem Main_status:
  "{st. Main ou sdk pf dotenv decode env fs wake cmd st} \<subseteq> main_statuses pf dotenv decode env fs wake cmd
   \<and> (\<exists>st. Main ou sdk pf dotenv decode env fs wake cmd st)
   \<and> (0 \<in> main_statuses pf dotenv decode env fs wake cmd \<longrightarrow> Main ou sdk pf dotenv decode env fs wake cmd 0)"
proof -
  have "\<exists>st. Main ou sdk pf dotenv decode env fs wake cmd st \<and> (0 \<in> main_statuses pf dotenv decode env fs wake cmd \<longrightarrow> st = 0)"
  proof (cases cmd)
    case (FlagArgs as)
    show ?thesis
    proof (cases "parse_flags as")
      case None
      from Main.no_config [OF None, of ou sdk pf dotenv decode env fs wake] show ?thesis by (auto simp: FlagArgs None main_statuses_def)
    next
      case (Some fl)
      let ?su = "startup decode (LoadDotEnv dotenv env fs (fg_configFile fl)) fs (fg_configFile fl)"
      note run = Main.ran [OF Some, of ou sdk pf dotenv decode env fs wake]
      show ?thesis
      proof (cases ?su)
        case (Inl e)
        from run [OF RunE.invalid [OF Inl]] show ?thesis by (auto simp: FlagArgs Some Inl main_statuses_def)
      next
        case (Inr sc)
        obtain r where "RunE ou (fg_dumpDir fl) (fg_traceAPI fl) sdk pf (fg_debug fl) (fg_once fl) dotenv decode env fs
            (fg_configFile fl) wake r" "0 \<in> run_statuses pf (fg_once fl) wake (sc_C sc) \<longrightarrow> exit_status r = 0"
          using RunE_completes [OF Inr] by blast
        with run show ?thesis unfolding FlagArgs by (intro exI conjI) (assumption | simp add: Some Inr main_statuses_def)+
      qed
    qed
  qed (auto simp: main_statuses_def intro: Main.bad_usage Main.info)
  then show ?thesis using Main_run by blast
qed

lemma paced_statuses:
  "main_statuses example_platform example_load (\<lambda>t. Some (paced_config ''5m'')) example_env example_files Signal
     (FlagArgs [ConfigArg ''c.yaml'', OnceArg True]) = {0}
   \<and> main_statuses example_platform example_load (\<lambda>t. Some (paced_config ''-5s'')) example_env example_files Signal
     (FlagArgs [ConfigArg ''c.yaml'']) = {2}"
  by code_simp

theorem Main_status_witness:
  "Main example_outside example_sdk example_platform example_load (\<lambda>t. Some (paced_config ''5m'')) example_env example_files
     Signal (FlagArgs [ConfigArg ''c.yaml'', OnceArg True]) 0
   \<and> Main example_outside example_sdk example_platform example_load (\<lambda>t. Some (paced_config ''-5s'')) example_env example_files
     Signal (FlagArgs [ConfigArg ''c.yaml'']) 2"
proof -
  note st = Main_status [where ou = example_outside and sdk = example_sdk and pf = example_platform and dotenv = example_load
    and env = example_env and fs = example_files and wake = Signal]
  have "Main example_outside example_sdk example_platform example_load (\<lambda>t. Some (paced_config ''5m'')) example_env example_files
     Signal (FlagArgs [ConfigArg ''c.yaml'', OnceArg True]) 0"
    using st [of "\<lambda>t. Some (paced_config ''5m'')" "FlagArgs [ConfigArg ''c.yaml'', OnceArg True]"] unfolding paced_statuses [THEN conjunct1] by simp
  moreover have "Main example_outside example_sdk example_platform example_load (\<lambda>t. Some (paced_config ''-5s'')) example_env
     example_files Signal (FlagArgs [ConfigArg ''c.yaml'']) 2"
    using st [of "\<lambda>t. Some (paced_config ''-5s'')" "FlagArgs [ConfigArg ''c.yaml'']"] unfolding paced_statuses [THEN conjunct2] by auto
  ultimately show ?thesis by simp
qed

end
