(* ===== verification/OnceRun.thy ===== *)
theory OnceRun
  imports Typing ExampleLive Command
begin

text \<open>
  Whole runs of a single cycle (\<open>--once --debug\<close>), from the text of the configuration to the lines
  printed: such a run always ends, what it prints tells the samples it collected, and a run on a
  cluster that answers, evaluated.
\<close>

section \<open>What a single cycle prints\<close>

lemma once_printed:
  assumes "RunE ou dumpDir tr sdk pf True True dotenv decode env fs path wake (Inr (p, e))"
  shows "\<exists>ord. is_order ord \<and> printable_snapshot (Load (sr_store (pr_server p)))
    \<and> pr_printed p = dumpSamples (pf_printable pf) (ord 1) (Load (sr_store (pr_server p)))"
  using assms
proof cases
  case (once_only sc ord p0)
  from once_only(6) have "scraped_snapshot ou (Load (sr_store (pr_server p0)))"
    by cases (auto dest: startCollection_good)
  with once_only show ?thesis
    by (intro exI [of _ ord]) (simp add: Shutdown_def once_output_def scraped_printable)
qed simp

section \<open>A run can always be made\<close>

lemma once_run:
  fixes ou :: "('n, 's, 'e) Outside"
  assumes "startup decode (LoadDotEnv dotenv env fs path) fs path = Inr sc"
    and "mux_ok pf (sc_C sc)" and "pf_reg_ok pf 0" and "pf_reg_ok pf 1"
    and "length ws = length (cf_Clusters (sc_C sc))"
  shows "\<exists>p. RunE ou dumpDir tr sdk pf True True dotenv decode env fs path wake (Inr (p, None))
    \<and> Load (sr_store (pr_server p)) = scraped ou dumpDir tr (sc_C sc) ws
    \<and> pr_printed p = dumpSamples (pf_printable pf) (id_order 1) (scraped ou dumpDir tr (sc_C sc) ws)"
proof -
  let ?s0 = "NewServer (id_order 0) sc :: ('n, 's, 'e) Server"
  have cfg: "sc_C (sr_cfg ?s0) = sc_C sc" by (simp add: NewServer_def)
  obtain snap pool' h' where c: "collectAll (any_ops ou) (\<lambda>_. id_order) (clock ou) False (id_order 0)
      (buildClients ou False dumpDir tr (sc_C sc) ws) no_explanations snap pool' h'"
    using collectAll_total by metis
  have snap: "snap = scraped ou dumpDir tr (sc_C sc) ws" using collectAll_result [OF c] by (simp add: scraped_def)
  note s1 = startCollection.start [OF cfg [symmetric] assms(5) some_orders c, of True]
  have mux: "mux_ok pf (sc_C (sr_cfg ?s0))" using assms(2) cfg by simp
  note p = Start.started [OF s1 assms(3,4) mux, of sdk]
  from RunE.once_only [OF TrueI assms(1) is_order_id p, of True wake] show ?thesis
    by (intro exI conjI) (assumption, simp_all add: Shutdown_def once_output_def snap)
qed

section \<open>A run on a cluster that answers\<close>

definition live_lines :: "string list" where
  "live_lines =
    [''powerscale_dedupe_deduplicated_bytes{cluster=\"lab\",cluster_id=\"0050\"} 0'',
     ''powerscale_dedupe_logical_saved_bytes{cluster=\"lab\",cluster_id=\"0050\"} 0'',
     ''powerscale_nfs_exports{cluster=\"lab\",cluster_id=\"0050\"} 0'',
     ''powerscale_node_drives{cluster=\"lab\",cluster_id=\"0050\",node=\"7\",state=\"HEALTHY\"} 1'',
     ''powerscale_node_readonly{cluster=\"lab\",cluster_id=\"0050\",node=\"7\"} 0'',
     ''powerscale_node_smartfail{cluster=\"lab\",cluster_id=\"0050\",node=\"7\"} 0'',
     ''powerscale_smb_shares{cluster=\"lab\",cluster_id=\"0050\"} 0'',
     ''powerscale_snapshot_used_bytes{cluster=\"lab\",cluster_id=\"0050\"} 0'',
     ''powerscale_snapshots{cluster=\"lab\",cluster_id=\"0050\"} 0'']"

lemma live_dump: "dump_lines (\<lambda>r. True) (id_order 1) live_snapshot = live_lines"
  by code_simp

lemma live_held: "length (held_samples live_snapshot) = 9"
  by code_simp

text \<open>The command run with a configuration of one such cluster, or of one that refuses every connection.\<close>

lemma example_run:
  fixes ou :: "('n, 's, 'e) Outside"
  shows "\<exists>p. RunE ou [] False example_sdk example_platform True True example_load (\<lambda>t. Some example_config)
      example_env (\<lambda>p. Content []) ''c.yaml'' Signal (Inr (p, None))
    \<and> Load (sr_store (pr_server p)) = scraped ou [] False (SetDefaults example_config) [w]
    \<and> pr_printed p = dumpSamples (\<lambda>r. True) (id_order 1) (scraped ou [] False (SetDefaults example_config) [w])"
proof -
  let ?su = "startup (\<lambda>t. Some example_config) (LoadDotEnv example_load example_env (\<lambda>p. Content []) ''c.yaml'') (\<lambda>p. Content []) ''c.yaml''"
  have su: "case ?su of Inl e \<Rightarrow> False
      | Inr sc \<Rightarrow> sc_C sc = SetDefaults example_config \<and> mux_ok example_platform (sc_C sc) \<and> length (cf_Clusters (sc_C sc)) = 1"
    by code_simp
  then obtain sc where sc: "?su = Inr sc" by (cases ?su) simp_all
  have facts: "sc_C sc = SetDefaults example_config" "mux_ok example_platform (sc_C sc)" "length (cf_Clusters (sc_C sc)) = 1"
    using su unfolding sc sum.case by blast+
  have pf: "pf_reg_ok example_platform i" "pf_printable example_platform = (\<lambda>r. True)" for i
    by (simp_all add: example_platform_def)
  from once_run [OF sc facts(2) pf(1) pf(1), of "[w]" ou "[]" False example_sdk Signal] facts(1,3) pf(2) show ?thesis by simp
qed

text \<open>C21: The samples a single cycle prints with the debug flag tell everything: two such runs of the same
  program, on whatever clusters and with whatever orders of maps, print the same text exactly when the
  snapshots they collected hold the same samples, with the same labels and values. So the printed
  lines can be compared, as the comment intends, without missing a difference or showing a false one.\<close>

theorem once_runs_compare:
  assumes "RunE ou dumpDir tr sdk pf True True dotenv decode env fs path wake (Inr (p, e))"
    and "RunE ou' dumpDir' tr' sdk' pf' True True dotenv' decode' env' fs' path' wake' (Inr (p', e'))"
    and "pf_printable pf = pf_printable pf'"
  shows "pr_printed p = pr_printed p' \<longleftrightarrow>
    mset (held_samples (Load (sr_store (pr_server p)))) = mset (held_samples (Load (sr_store (pr_server p'))))"
proof -
  obtain ord where 1: "is_order ord" "printable_snapshot (Load (sr_store (pr_server p)))"
    "pr_printed p = dumpSamples (pf_printable pf) (ord 1) (Load (sr_store (pr_server p)))"
    using once_printed [OF assms(1)] by blast
  obtain ord' where 2: "is_order ord'" "printable_snapshot (Load (sr_store (pr_server p')))"
    "pr_printed p' = dumpSamples (pf_printable pf) (ord' 1) (Load (sr_store (pr_server p')))"
    using once_printed [OF assms(2)] unfolding assms(3) by blast
  show ?thesis unfolding 1(3) 2(3) by (rule dump_faithful [OF 1(1) 2(1) 1(2) 2(2)])
qed

theorem once_runs_compare_witness:
  "\<exists>p p'. RunE live_outside [] False example_sdk example_platform True True example_load (\<lambda>t. Some example_config)
        example_env (\<lambda>p. Content []) ''c.yaml'' Signal (Inr (p, None))
     \<and> RunE example_outside [] False example_sdk example_platform True True example_load (\<lambda>t. Some example_config)
        example_env (\<lambda>p. Content []) ''c.yaml'' Signal (Inr (p', None))
     \<and> pr_printed p = concat (map (\<lambda>l. l @ [CHR 0x0A]) live_lines) \<and> pr_printed p \<noteq> pr_printed p'"
proof -
  obtain p where p: "RunE live_outside [] False example_sdk example_platform True True example_load (\<lambda>t. Some example_config)
      example_env (\<lambda>p. Content []) ''c.yaml'' Signal (Inr (p, None))"
    "Load (sr_store (pr_server p)) = live_snapshot" "pr_printed p = dumpSamples (\<lambda>r. True) (id_order 1) live_snapshot"
    using example_run [of live_outside "live_world 3"] unfolding live_scraped by blast
  obtain p' where p': "RunE example_outside [] False example_sdk example_platform True True example_load (\<lambda>t. Some example_config)
      example_env (\<lambda>p. Content []) ''c.yaml'' Signal (Inr (p', None))"
    "Load (sr_store (pr_server p')) = scraped example_outside [] False (SetDefaults example_config) [example_world]"
    using example_run [of example_outside example_world] by blast
  have "buildClients example_outside False [] False (SetDefaults example_config) [example_world]
      = map example_lazy (cf_Clusters (SetDefaults example_config))"
    using example_buildClients [of "SetDefaults example_config"] by (simp add: example_config_def SetDefaults_def)
  moreover have "map cc_Name (cf_Clusters (SetDefaults example_config)) = [''lab'']" by code_simp
  ultimately have "held_samples (Load (sr_store (pr_server p'))) = []"
    by (auto simp: p'(2) scraped_def scrape_all_def example_scrape held_samples_def BuildSnapshot_sel down_snapshot_def)
  then have "mset (held_samples (Load (sr_store (pr_server p)))) \<noteq> mset (held_samples (Load (sr_store (pr_server p'))))"
    using live_held p(2) by auto
  then have "pr_printed p \<noteq> pr_printed p'" using once_runs_compare [OF p(1) p'(1) refl] by blast
  moreover have "pr_printed p = concat (map (\<lambda>l. l @ [CHR 0x0A]) live_lines)"
    using live_dump p(3) by (simp add: dumpSamples_def)
  ultimately show ?thesis using p(1) p'(1) by blast
qed

end
