(* ===== verification/StatKeys.thy ===== *)
theory StatKeys
  imports Derivations GoJsonText
begin

text \<open>
  \<open>internal/powerscale/statkeys.go\<close>, the start-up: the embedded file \<open>statisticsKeys.json\<close>, byte by byte,
  and \<open>init\<close>, which decodes it into the table and its index. That the table the other theories use
  (\<open>statKeySpecs\<close>) is the one the file decodes to is a theorem here.
\<close>

section \<open>The embedded file\<close>

text \<open>One row per line, indented by two spaces.\<close>

definition stat_rows :: "string list" where
  \<open>stat_rows =
     [''{"key": "cluster.cpu.sys.avg",            "metric": "powerscale_cluster_cpu_sys_percent",            "scope": "cluster", "divisor": 10}'',
      ''{"key": "cluster.cpu.user.avg",           "metric": "powerscale_cluster_cpu_user_percent",           "scope": "cluster", "divisor": 10}'',
      ''{"key": "cluster.cpu.idle.avg",           "metric": "powerscale_cluster_cpu_idle_percent",           "scope": "cluster", "divisor": 10}'',
      ''{"key": "ifs.bytes.total",                "metric": "powerscale_cluster_total_capacity_bytes",       "scope": "cluster"}'',
      ''{"key": "ifs.bytes.used",                 "metric": "powerscale_cluster_used_capacity_bytes",        "scope": "cluster"}'',
      ''{"key": "ifs.bytes.avail",                "metric": "powerscale_cluster_available_capacity_bytes",   "scope": "cluster"}'',
      ''{"key": "ifs.bytes.free",                 "metric": "powerscale_cluster_free_capacity_bytes",        "scope": "cluster"}'',
      ''{"key": "cluster.disk.xfers.rate",        "metric": "powerscale_cluster_disk_operations_per_second", "scope": "cluster"}'',
      ''{"key": "cluster.net.ext.bytes.in.rate",  "metric": "powerscale_cluster_net_in_bytes_per_second",    "scope": "cluster"}'',
      ''{"key": "cluster.net.ext.bytes.out.rate", "metric": "powerscale_cluster_net_out_bytes_per_second",   "scope": "cluster"}'',
      ''{"key": "node.cpu.idle.avg",              "metric": "powerscale_node_cpu_idle_percent",              "scope": "node", "divisor": 10}'',
      ''{"key": "node.cpu.sys.avg",               "metric": "powerscale_node_cpu_sys_percent",               "scope": "node", "divisor": 10}'',
      ''{"key": "node.cpu.user.avg",              "metric": "powerscale_node_cpu_user_percent",              "scope": "node", "divisor": 10}'',
      ''{"key": "node.memory.used",               "metric": "powerscale_node_memory_used_bytes",             "scope": "node"}'',
      ''{"key": "node.disk.xfers.rate.sum",       "metric": "powerscale_node_disk_operations_per_second",    "scope": "node"}'',
      ''{"key": "node.ifs.bytes.used",            "metric": "powerscale_node_used_capacity_bytes",           "scope": "node"}'',
      ''{"key": "node.ifs.cache.l1.data.read.hit",  "metric": "powerscale_node_cache_l1_read_hit_bytes_per_second",  "scope": "node"}'',
      ''{"key": "node.ifs.cache.l1.data.read.miss", "metric": "powerscale_node_cache_l1_read_miss_bytes_per_second", "scope": "node"}'',
      ''{"key": "node.ifs.cache.l2.data.read.hit",  "metric": "powerscale_node_cache_l2_read_hit_bytes_per_second",  "scope": "node"}'',
      ''{"key": "node.ifs.cache.l2.data.read.miss", "metric": "powerscale_node_cache_l2_read_miss_bytes_per_second", "scope": "node"}'',
      ''{"key": "node.ifs.cache.l3.data.read.hit",  "metric": "powerscale_node_cache_l3_read_hit_bytes_per_second",  "scope": "node"}'',
      ''{"key": "node.ifs.cache.l3.data.read.miss", "metric": "powerscale_node_cache_l3_read_miss_bytes_per_second", "scope": "node"}'']\<close>

definition statKeysRaw :: string where
  "statKeysRaw = ''['' @ [CHR 0x0A] @ ''  '' @ Join stat_rows ('','' @ [CHR 0x0A] @ ''  '') @ [CHR 0x0A] @ '']'' @ [CHR 0x0A]"

section \<open>Decoding at start-up\<close>

definition zero_spec :: StatKeySpec where
  "zero_spec = spec [] [] [] 0"

definition spec_fields :: "StatKeySpec fields" where
  "spec_fields =
     [fld ''key'' sk_Key sk_Key_update dec_string, fld ''metric'' sk_Metric sk_Metric_update dec_string,
      fld ''scope'' sk_Scope sk_Scope_update dec_string, fld ''divisor'' sk_Divisor sk_Divisor_update dec_float]"

definition dec_StatKeySpec :: "StatKeySpec decoder" where
  "dec_StatKeySpec = dec_struct spec_fields"

text \<open>\<open>init\<close>: the table and its index; the process ends when the file does not decode.\<close>

definition init_keys :: "string \<Rightarrow> (StatKeySpec list \<times> (string, StatKeySpec) gomap) option" where
  "init_keys raw =
     map_option (\<lambda>specs. (specs, index_specs specs)) (Unmarshal (dec_slice dec_StatKeySpec zero_spec) [] raw)"

section \<open>The table is what the file holds\<close>

lemma skip_ws_append_Cons: "skip_ws s = c # cs \<Longrightarrow> skip_ws (s @ r) = c # cs @ r"
proof -
  assume "skip_ws s = c # cs"
  then obtain p where "s = p @ c # cs" "list_all is_ws p" "\<not> is_ws c"
    by (metis skip_ws_def dropWhile_eq_Cons_conv list_all_iff set_takeWhileD takeWhile_dropWhile_id)
  then show ?thesis by (simp add: skip_ws_def dropWhile_append list_all_iff)
qed

lemma rd_str_more: "rd_str s = Some (t, u) \<Longrightarrow> rd_str (s @ r) = Some (t, u @ r)"
proof (induction "length s" arbitrary: s t rule: less_induct)
  case less
  from less.prems show ?case
  proof (cases rule: rd_str_cases)
    case (2 c cs t')
    with less.hyps [of cs t'] show ?thesis by simp
  next
    case (3 e q t')
    with less.hyps [of q t'] show ?thesis by simp
  next
    case (4 h1 h2 h3 h4 q t')
    with less.hyps [of q t'] show ?thesis by (simp add: is_escape_def)
  qed simp
qed

lemma num_more:
  assumes "json_num_ok (takeWhile is_num_char s)" and "dropWhile is_num_char s \<noteq> []"
  shows "takeWhile is_num_char (s @ r) = takeWhile is_num_char s"
    and "dropWhile is_num_char (s @ r) = dropWhile is_num_char s @ r"
proof -
  obtain x where "x \<in> set s" "\<not> is_num_char x" using assms(2) by (auto simp: dropWhile_eq_Nil_conv)
  then show "takeWhile is_num_char (s @ r) = takeWhile is_num_char s"
    "dropWhile is_num_char (s @ r) = dropWhile is_num_char s @ r" by simp_all
qed

lemma json_val_more:
  "json_val d s j u \<Longrightarrow> u \<noteq> [] \<or> (\<exists>ms. j = JObj ms) \<longrightarrow> json_val d (s @ r) j (u @ r)"
  "json_elems d s js u \<Longrightarrow> json_elems d (s @ r) js (u @ r)"
  "json_members d s ms u \<Longrightarrow> json_members d (s @ r) ms (u @ r)"
proof (induction rule: json_val_json_elems_json_members.inducts)
  case (num lit s u d)
  then obtain c cs where s: "skip_ws s = c # cs" by (auto elim: num_head)
  note s' = skip_ws_append_Cons [OF this, of r]
  show ?case
  proof
    assume "u \<noteq> [] \<or> (\<exists>ms. JNum lit = JObj ms)"
    then have u: "dropWhile is_num_char (skip_ws s) \<noteq> []" using num by simp
    have "skip_ws (s @ r) = skip_ws s @ r" using s s' by simp
    with num_more [OF _ u, of r] num show "json_val d (s @ r) (JNum lit) (u @ r)"
      by (intro json_val_json_elems_json_members.num) simp_all
  qed
next
  case (arr s cs d js u)
  obtain c es where cs: "skip_ws cs = c # es" using json_elems_head [OF arr.hyps(3)] by auto
  show ?case
  proof (intro impI, rule json_val_json_elems_json_members.arr)
    show "skip_ws (s @ r) = CHR ''['' # cs @ r" by (rule skip_ws_append_Cons [OF arr.hyps(1)])
    show "json_elems (Suc d) (skip_ws (cs @ r)) js (u @ r)" using arr.IH cs skip_ws_append_Cons [OF cs] by simp
  qed (rule arr.hyps)
next
  case (obj s cs d ms u)
  obtain es where cs: "skip_ws cs = CHR 0x22 # es" using json_members_head [OF obj.hyps(3)] by auto
  show ?case
  proof (intro impI, rule json_val_json_elems_json_members.obj)
    show "skip_ws (s @ r) = CHR ''{'' # cs @ r" by (rule skip_ws_append_Cons [OF obj.hyps(1)])
    show "json_members (Suc d) (skip_ws (cs @ r)) ms (u @ r)" using obj.IH cs skip_ws_append_Cons [OF cs] by simp
  qed (rule obj.hyps)
next
  case (last_elem d s j q u)
  have "q \<noteq> []" using last_elem.hyps(2) by (auto simp: skip_ws_def)
  with last_elem.IH have "json_val d (s @ r) j (q @ r)" by simp
  from json_val_json_elems_json_members.last_elem [OF this skip_ws_append_Cons [OF last_elem.hyps(2)]] show ?case .
next
  case (elem d s j q cs js u)
  have "q \<noteq> []" using elem.hyps(2) by (auto simp: skip_ws_def)
  with elem.IH(1) have "json_val d (s @ r) j (q @ r)" by simp
  from json_val_json_elems_json_members.elem [OF this skip_ws_append_Cons [OF elem.hyps(2)] elem.IH(2)] show ?case .
next
  case (last_member s qs k q cs d j rest u)
  have "rest \<noteq> []" using last_member.hyps(5) by (auto simp: skip_ws_def)
  with last_member.IH have "json_val d (cs @ r) j (rest @ r)" by simp
  from json_val_json_elems_json_members.last_member [OF skip_ws_append_Cons [OF last_member.hyps(1)]
      rd_str_more [OF last_member.hyps(2)] skip_ws_append_Cons [OF last_member.hyps(3)] this
      skip_ws_append_Cons [OF last_member.hyps(5)]] show ?case .
next
  case (member s qs k q cs d j rest ds ms u)
  have "rest \<noteq> []" using member.hyps(5) by (auto simp: skip_ws_def)
  with member.IH(1) have "json_val d (cs @ r) j (rest @ r)" by simp
  from json_val_json_elems_json_members.member [OF skip_ws_append_Cons [OF member.hyps(1)]
      rd_str_more [OF member.hyps(2)] skip_ws_append_Cons [OF member.hyps(3)] this
      skip_ws_append_Cons [OF member.hyps(5)] member.IH(2)] show ?case .
next
  case (str s cs t u d)
  from json_val_json_elems_json_members.str [OF skip_ws_append_Cons [OF str(1)] rd_str_more [OF str(2)]] show ?case by simp
next
  case (arr_empty s cs d u)
  from json_val_json_elems_json_members.arr_empty [OF skip_ws_append_Cons [OF arr_empty(1)] arr_empty(2)
      skip_ws_append_Cons [OF arr_empty(3)]] show ?case by simp
next
  case (obj_empty s cs d u)
  from json_val_json_elems_json_members.obj_empty [OF skip_ws_append_Cons [OF obj_empty(1)] obj_empty(2)
      skip_ws_append_Cons [OF obj_empty(3)]] show ?case by simp
next
  case (null s u d)
  then have "skip_ws (s @ r) = ''null'' @ u @ r" using skip_ws_append_Cons [of s "CHR ''n''" "''ull'' @ u" r] by simp
  then show ?case by (intro impI json_val_json_elems_json_members.null)
next
  case (true s u d)
  then have "skip_ws (s @ r) = ''true'' @ u @ r" using skip_ws_append_Cons [of s "CHR ''t''" "''rue'' @ u" r] by simp
  then show ?case by (intro impI json_val_json_elems_json_members.true)
next
  case (false s u d)
  then have "skip_ws (s @ r) = ''false'' @ u @ r" using skip_ws_append_Cons [of s "CHR ''f''" "''alse'' @ u" r] by simp
  then show ?case by (intro impI json_val_json_elems_json_members.false)
qed

text \<open>What a row of the file must read as, and that every row does.\<close>

definition row_json :: "StatKeySpec \<Rightarrow> json" where
  "row_json sp =
     JObj ([(''key'', JStr (sk_Key sp)), (''metric'', JStr (sk_Metric sp)), (''scope'', JStr (sk_Scope sp))]
       @ (if is_zero (sk_Divisor sp) then [] else [(''divisor'', JNum ''10'')]))"

lemma row_json_spec:
  "row_json (spec k m s 0) = JObj [(''key'', JStr k), (''metric'', JStr m), (''scope'', JStr s)]"
  "row_json (spec k m s 10) = JObj [(''key'', JStr k), (''metric'', JStr m), (''scope'', JStr s), (''divisor'', JNum ''10'')]"
  by (simp_all add: row_json_def spec_def)

definition reads_as :: "string \<Rightarrow> StatKeySpec \<Rightarrow> bool" where
  "reads_as row sp \<longleftrightarrow> rd_value 7 1 row = Some (row_json sp, [])"

lemma rows_read1: "list_all2 reads_as (take 8 stat_rows) (take 8 statKeySpecs)"
  by (simp add: stat_rows_def statKeySpecs_def reads_as_def row_json_spec; intro conjI; code_simp)

lemma rows_read2: "list_all2 reads_as (take 8 (drop 8 stat_rows)) (take 8 (drop 8 statKeySpecs))"
  by (simp add: stat_rows_def statKeySpecs_def reads_as_def row_json_spec; intro conjI; code_simp)

lemma rows_read3: "list_all2 reads_as (drop 8 (drop 8 stat_rows)) (drop 8 (drop 8 statKeySpecs))"
  by (simp add: stat_rows_def statKeySpecs_def reads_as_def row_json_spec; intro conjI; code_simp)

lemma rows_read: "list_all2 reads_as stat_rows statKeySpecs"
  using list_all2_appendI [OF rows_read1 list_all2_appendI [OF rows_read2 rows_read3]]
  by (simp only: append_take_drop_id)

lemma rows_values: "list_all2 (\<lambda>row j. \<forall>r. ends r \<longrightarrow> json_val 1 (row @ r) j r) stat_rows (map row_json statKeySpecs)"
  unfolding list_all2_map2
proof (rule list_all2_mono [OF rows_read], intro allI impI)
  fix row sp r
  assume "reads_as row sp"
  from json_val_more(1) [OF rd_value_sound(1) [OF this [unfolded reads_as_def]], of r]
  show "json_val 1 (row @ r) (row_json sp) r" by (simp add: row_json_def)
qed

lemma join_rows:
  assumes "list_all2 (\<lambda>row j. \<forall>r. ends r \<longrightarrow> json_val d (row @ r) j r) rows js" and "rows \<noteq> []"
  shows "json_elems d (Join rows ('','' @ [CHR 0x0A] @ ''  '') @ [CHR 0x0A] @ '']'' @ r) js r"
  using assms
proof (induction rows js rule: list_all2_induct)
  case (Cons row rows j js)
  show ?case
  proof (cases "rows = []")
    case True
    with Cons.hyps have "json_val d (row @ CHR 0x0A # CHR '']'' # r) j (CHR 0x0A # CHR '']'' # r)" "js = []"
      by (auto simp: is_num_char_def is_digit_def)
    then show ?thesis using True by (auto intro!: last_elem simp: skip_ws_def is_ws_def)
  next
    case False
    let ?r = "Join rows ('','' @ [CHR 0x0A] @ ''  '') @ [CHR 0x0A] @ '']'' @ r"
    have "json_elems d (CHR 0x0A # ''  '' @ ?r) js r"
      using Cons.IH [OF False] by (rule json_elems_skip) (simp add: skip_ws_def is_ws_def)
    moreover have "json_val d (row @ CHR '','' # CHR 0x0A # ''  '' @ ?r) j (CHR '','' # CHR 0x0A # ''  '' @ ?r)"
      using Cons.hyps(1) by simp
    ultimately show ?thesis using False by (auto intro: elem simp: Join_Cons)
  qed
qed simp

lemma table_read: "json_read statKeysRaw = Some (JArr (map row_json statKeySpecs))"
proof -
  have ne: "stat_rows \<noteq> []" by (simp add: stat_rows_def)
  have e: "json_elems (Suc 0) s (map row_json statKeySpecs) [CHR 0x0A]"
    if "skip_ws s = skip_ws (Join stat_rows ('','' @ [CHR 0x0A] @ ''  '') @ [CHR 0x0A] @ '']'' @ [CHR 0x0A])" for s
    using json_elems_skip [OF join_rows [OF rows_values ne] that] by simp
  have "json_val 0 statKeysRaw (JArr (map row_json statKeySpecs)) [CHR 0x0A]"
  proof (rule arr)
    show "skip_ws statKeysRaw = CHR ''['' # tl statKeysRaw" by (simp add: statKeysRaw_def)
    have "skip_ws (skip_ws (tl statKeysRaw)) =
        skip_ws (Join stat_rows ('','' @ [CHR 0x0A] @ ''  '') @ [CHR 0x0A] @ '']'' @ [CHR 0x0A])"
      by (simp add: statKeysRaw_def skip_ws_def is_ws_def)
    then show "json_elems (Suc 0) (skip_ws (tl statKeysRaw)) (map row_json statKeySpecs) [CHR 0x0A]" by (intro e)
  qed simp
  moreover have "skip_ws [CHR 0x0A] = []" by (simp add: skip_ws_def is_ws_def)
  ultimately show ?thesis unfolding json_read_iff by blast
qed

lemma unquote_plain: "list_all (\<lambda>c. byte c < 128 \<and> c \<noteq> CHR 0x5C) t \<Longrightarrow> unquote t = t"
proof (induction t)
  case (Cons c t)
  then have "unquote_step ([c] @ t) = ([c], length [c])" by (simp add: unquote_step_def get_u4_other)
  from unquote_app [OF _ this] Cons show ?case by simp
qed simp

definition plain_spec :: "StatKeySpec \<Rightarrow> bool" where
  "plain_spec sp \<longleftrightarrow> list_all (\<lambda>c. byte c < 128 \<and> c \<noteq> CHR 0x5C) (sk_Key sp @ sk_Metric sp @ sk_Scope sp)
     \<and> (sk_Divisor sp = 0 \<or> sk_Divisor sp = Fin False 10)"

lemma specs_plain: "list_all plain_spec statKeySpecs"
  by code_simp

lemma find_spec_field:
  "find_field spec_fields ''key'' = Some (snd (fld ''key'' sk_Key sk_Key_update dec_string))"
  "find_field spec_fields ''metric'' = Some (snd (fld ''metric'' sk_Metric sk_Metric_update dec_string))"
  "find_field spec_fields ''scope'' = Some (snd (fld ''scope'' sk_Scope sk_Scope_update dec_string))"
  "find_field spec_fields ''divisor'' = Some (snd (fld ''divisor'' sk_Divisor sk_Divisor_update dec_float))"
  by (simp_all add: find_field_def spec_fields_def fld_def)

lemma decode_row:
  assumes "plain_spec sp"
  shows "dec_StatKeySpec (row_json sp) zero_spec = Some sp"
proof -
  have ten: "ParseFloat ''10'' = Some (Fin False 10)" by code_simp
  have names: "unquote ''key'' = ''key''" "unquote ''metric'' = ''metric''" "unquote ''scope'' = ''scope''"
    "unquote ''divisor'' = ''divisor''" by code_simp+
  have vals: "unquote (sk_Key sp) = sk_Key sp" "unquote (sk_Metric sp) = sk_Metric sp" "unquote (sk_Scope sp) = sk_Scope sp"
    using assms by (simp_all add: plain_spec_def unquote_plain)
  obtain d where d: "sk_Divisor sp = Fin False d" "d = 0 \<or> d = 10"
    using assms by (auto simp: plain_spec_def zero_f64_def)
  show ?thesis
  proof (cases "d = 0")
    case True
    then show ?thesis
      unfolding dec_StatKeySpec_def row_json_def d(1) zero_spec_def spec_def
      by (simp add: find_spec_field names vals fld_def d(1) del: unquote.simps)
  next
    case False
    then show ?thesis using d(2)
      unfolding dec_StatKeySpec_def row_json_def d(1) zero_spec_def spec_def
      by (simp add: find_spec_field names vals fld_def d(1) ten del: unquote.simps)
  qed
qed

text \<open>C37: The process never dies of its embedded table: the bytes of \<open>statisticsKeys.json\<close> decode, and what
  they decode to is a sound table, in which every key and every metric name occurs once, the scope is
  one of the two the exporter knows, and no divisor but ten occurs, exactly for the percentages.\<close>

theorem embedded_table:
  "init_keys statKeysRaw = Some (statKeySpecs, statKeyByKey)
   \<and> distinct (map sk_Key statKeySpecs) \<and> distinct (map sk_Metric statKeySpecs)
   \<and> list_all (\<lambda>s. sk_Scope s \<in> {''cluster'', ''node''}) statKeySpecs
   \<and> list_all (\<lambda>s. sk_Divisor s = (if drop (length (sk_Metric s) - 8) (sk_Metric s) = ''_percent'' then Fin False 10 else Fin False 0))
       statKeySpecs"
proof (intro conjI)
  have "traverse (\<lambda>j. dec_StatKeySpec j zero_spec) (map row_json statKeySpecs) = Some statKeySpecs"
    using specs_plain by (simp add: traverse_Some list_all_iff decode_row)
  then show "init_keys statKeysRaw = Some (statKeySpecs, statKeyByKey)"
    by (simp add: init_keys_def Unmarshal_def table_read statKeyByKey_def)
  have "distinct (map fst (map spec_schema statKeySpecs))"
    using distinct_metric_names unfolding metric_schema_def map_append distinct_append by blast
  then show "distinct (map sk_Metric statKeySpecs)" by (simp add: comp_def spec_schema_def)
  show "list_all (\<lambda>s. sk_Divisor s = (if drop (length (sk_Metric s) - 8) (sk_Metric s) = ''_percent'' then Fin False 10 else Fin False 0))
       statKeySpecs"
    using percent_divisor scale_divisor by (auto simp: list_all_iff)
  show "list_all (\<lambda>s. sk_Scope s \<in> {''cluster'', ''node''}) statKeySpecs" by code_simp
qed (rule distinct_stat_keys)

end
