(* ===== verification/ExtractSchemas.thy ===== *)
theory ExtractSchemas
  imports GoJson "HOL-Library.Char_ord" "HOL-Library.List_Lexorder"
begin

text \<open>
  \<open>tools/extract-schemas/main.go\<close>: the development tool that reads an OpenAPI specification and
  lists, for every endpoint the exporter uses, the dotted paths of the fields its response schema
  documents.

  A decoded document is a value of \<open>jany\<close>, Go's \<open>any\<close> as \<open>encoding/json\<close> fills it; a type assertion
  with \<open>ok\<close> is one of \<open>as_str\<close>, \<open>as_arr\<close>, \<open>as_obj\<close>. A nil map reads like an empty one. The walk over
  a schema follows references; it ends because a reference is followed once on a path between two
  properties and properties nest at most \<open>maxDepth\<close> deep. The walk carries, with the field set, the
  number of \<open>range\<close> loops it started, which picks the order of the next one.

  The theory \<open>SchemaFile\<close> adds the files the tool reads and writes.
\<close>

section \<open>Documents\<close>

datatype jany =
    ANil
  | ABool bool
  | ANum f64
  | AStr string
  | AArr "jany list"
  | AObj "(string \<times> jany) list"

type_synonym jmap = "(string, jany) gomap"

fun any_of :: "json \<Rightarrow> jany option"
  and any_list :: "json list \<Rightarrow> jany list option"
  and any_members :: "jmap \<Rightarrow> (string \<times> json) list \<Rightarrow> jmap option" where
  "any_of JNull = Some ANil"
| "any_of (JBool b) = Some (ABool b)"
| "any_of (JNum l) = map_option ANum (ParseFloat l)"
| "any_of (JStr t) = Some (AStr (unquote t))"
| "any_of (JArr js) = map_option AArr (any_list js)"
| "any_of (JObj ms) = map_option AObj (any_members [] ms)"
| "any_list [] = Some []"
| "any_list (j # js) =
     (case any_of j of None \<Rightarrow> None | Some v \<Rightarrow> map_option (\<lambda>vs. v # vs) (any_list js))"
| "any_members m [] = Some m"
| "any_members m ((k, j) # ms) =
     (case any_of j of None \<Rightarrow> None | Some v \<Rightarrow> any_members (AList.update (unquote k) v m) ms)"

fun dec_doc :: "json \<Rightarrow> jmap option" where
  "dec_doc JNull = Some []"
| "dec_doc (JObj ms) = any_members [] ms"
| "dec_doc _ = None"

fun as_str :: "jany option \<Rightarrow> string option" where
  "as_str (Some (AStr s)) = Some s"
| "as_str _ = None"

fun as_arr :: "jany option \<Rightarrow> jany list option" where
  "as_arr (Some (AArr xs)) = Some xs"
| "as_arr _ = None"

fun as_obj :: "jany option \<Rightarrow> jmap option" where
  "as_obj (Some (AObj m)) = Some m"
| "as_obj _ = None"

section \<open>Finding the schema\<close>

fun dig :: "jmap \<Rightarrow> string list \<Rightarrow> jmap option" where
  "dig cur [] = Some cur"
| "dig cur (k # ks) = (case as_obj (map_of cur k) of None \<Rightarrow> None | Some n \<Rightarrow> dig n ks)"

definition or_nil :: "jmap option \<Rightarrow> jmap" where
  "or_nil m = (case m of None \<Rightarrow> [] | Some m \<Rightarrow> m)"

text \<open>The schema of a media type.\<close>

definition media_schema :: "jany option \<Rightarrow> jmap option" where
  "media_schema v = (case as_obj v of None \<Rightarrow> None | Some m \<Rightarrow> as_obj (map_of m ''schema''))"

definition first_schema :: "(string \<times> jany) list \<Rightarrow> jmap option" where
  "first_schema es = (case List.map_filter (\<lambda>(k, v). media_schema (Some v)) es of [] \<Rightarrow> None | s # _ \<Rightarrow> Some s)"

definition response_content :: "jmap \<Rightarrow> string \<Rightarrow> jmap" where
  "response_content doc path = or_nil (dig doc [''paths'', path, ''get'', ''responses'', ''200'', ''content''])"

definition responseSchema :: "(string list \<Rightarrow> string list) \<Rightarrow> jmap \<Rightarrow> string \<Rightarrow> jmap option" where
  "responseSchema o1 doc path =
     (let content = response_content doc path
      in case media_schema (map_of content ''application/json'') of
           Some s \<Rightarrow> Some s
         | None \<Rightarrow> first_schema (range_map o1 content))"

text \<open>The last part of a reference split at slashes.\<close>

definition last_part :: "string \<Rightarrow> string" where
  "last_part ref = rev (takeWhile (\<lambda>c. c \<noteq> CHR ''/'') (rev ref))"

definition resolveRef :: "string \<Rightarrow> jmap \<Rightarrow> jmap option" where
  "resolveRef ref comps = as_obj (map_of comps (last_part ref))"

section \<open>The field set\<close>

record fieldSet =
  fs_list :: "string list"
  fs_visited :: "(string, bool) gomap"

definition newFieldSet :: fieldSet where
  "newFieldSet = \<lparr>fs_list = [], fs_visited = []\<rparr>"

definition add_field :: "fieldSet \<Rightarrow> string \<Rightarrow> fieldSet" where
  "add_field fs path =
     (if map_of (fs_visited fs) path = Some True then fs
      else \<lparr>fs_list = fs_list fs @ [path], fs_visited = AList.update path True (fs_visited fs)\<rparr>)"

definition copySeen :: "(string, bool) gomap \<Rightarrow> (string, bool) gomap" where
  "copySeen s = map (\<lambda>k. (k, True)) (map_keys s)"

section \<open>The walk\<close>

definition extend :: "string \<Rightarrow> string \<Rightarrow> string" where
  "extend pre name = (if pre \<noteq> [] then pre @ ''.'' @ name else name)"

text \<open>What bounds the walk: the references a schema can still lead to.\<close>

fun strs :: "jany \<Rightarrow> string set" where
  "strs (AStr s) = {s}"
| "strs (AArr xs) = (\<Union>x \<in> set xs. strs x)"
| "strs (AObj m) = (\<Union>p \<in> set m. strs (snd p))"
| "strs _ = {}"

definition strs_of :: "jany list \<Rightarrow> string set" where
  "strs_of xs = (\<Union>x \<in> set xs. strs x)"

definition refs_left :: "jmap \<Rightarrow> jany list \<Rightarrow> (string, bool) gomap \<Rightarrow> nat" where
  "refs_left comps xs seen = card (strs_of xs \<union> strs (AObj comps) - {r. map_of seen r = Some True})"

lemma finite_strs: "finite (strs v)"
  by (induction v rule: strs.induct) auto

lemma refs_left_mono: "strs_of xs \<subseteq> strs_of ys \<union> strs (AObj comps) \<Longrightarrow> refs_left comps xs seen \<le> refs_left comps ys seen"
  unfolding refs_left_def
  by (intro card_mono) (auto simp: strs_of_def finite_strs)

lemma strs_lookup: "map_of m k = Some v \<Longrightarrow> strs v \<subseteq> strs (AObj m)"
  by (force dest: map_of_SomeD)

lemma as_obj_Some: "as_obj v = Some m \<longleftrightarrow> v = Some (AObj m)"
  by (cases v rule: as_obj.cases) auto

lemma as_arr_Some: "as_arr v = Some m \<longleftrightarrow> v = Some (AArr m)"
  by (cases v rule: as_arr.cases) auto

lemma as_str_Some: "as_str v = Some m \<longleftrightarrow> v = Some (AStr m)"
  by (cases v rule: as_str.cases) auto

lemmas assertion_iff = as_obj_Some as_arr_Some as_str_Some

lemma size_lookup: "map_of m k = Some v \<Longrightarrow> size v < size (AObj m)"
  by (induction m) (auto split: if_splits)

lemma map_of_copySeen: "map_of (copySeen seen) r = (if r \<in> set (map_keys seen) then Some True else None)"
  by (induction seen) (auto simp: copySeen_def map_keys_def)

lemma refs_left_follow:
  assumes "as_str (map_of s ''$ref'') = Some ref" and "map_of seen ref \<noteq> Some True"
  shows "refs_left comps [AObj (or_nil (resolveRef ref comps))] (AList.update ref True (copySeen seen)) < refs_left comps [AObj s] seen"
  unfolding refs_left_def
proof (rule psubset_card_mono)
  let ?t = "or_nil (resolveRef ref comps)" and ?U = "\<lambda>s. strs_of [AObj s] \<union> strs (AObj comps)"
  have "ref \<in> strs (AObj s)" using assms(1) strs_lookup [of s "''$ref''" "AStr ref"] by (simp add: as_str_Some)
  moreover have "strs (AObj ?t) \<subseteq> strs (AObj comps)"
    using strs_lookup [of comps "last_part ref"]
    by (cases "resolveRef ref comps") (auto simp: or_nil_def resolveRef_def as_obj_Some simp del: strs.simps(3), simp)
  moreover have "map_of seen r = Some True \<Longrightarrow> r \<in> set (map_keys seen)" for r
    by (auto simp: set_map_keys)
  ultimately show "?U ?t - {r. map_of (AList.update ref True (copySeen seen)) r = Some True}
      \<subset> ?U s - {r. map_of seen r = Some True}"
    using assms(2) by (auto simp: strs_of_def update_conv' map_of_copySeen psubset_eq)
qed (simp add: strs_of_def finite_strs)

lemma refs_left_lookup:
  "as_obj (map_of s k) = Some m \<Longrightarrow> refs_left comps [AObj m] seen \<le> refs_left comps [AObj s] seen"
  "as_arr (map_of s k) = Some xs \<Longrightarrow> refs_left comps xs seen \<le> refs_left comps [AObj s] seen"
  unfolding assertion_iff by (rule refs_left_mono, drule strs_lookup, auto simp: strs_of_def)+

lemma refs_left_Cons:
  "refs_left comps arr seen \<le> refs_left comps (sub # arr) seen"
  "as_obj (Some sub) = Some m \<Longrightarrow> refs_left comps [AObj m] seen \<le> refs_left comps (sub # arr) seen"
  by (auto simp: strs_of_def as_obj_Some intro!: refs_left_mono)

text \<open>The same, in the form the termination proof asks for.\<close>

lemma refs_left_eq:
  "as_obj (map_of s k) = Some m \<Longrightarrow> \<not> refs_left comps [AObj m] seen < refs_left comps [AObj s] seen \<Longrightarrow>
     refs_left comps [AObj m] seen = refs_left comps [AObj s] seen"
  "as_arr (map_of s k) = Some xs \<Longrightarrow> \<not> refs_left comps xs seen < refs_left comps [AObj s] seen \<Longrightarrow>
     refs_left comps xs seen = refs_left comps [AObj s] seen"
  "\<not> refs_left comps arr seen < refs_left comps (sub # arr) seen \<Longrightarrow>
     refs_left comps arr seen = refs_left comps (sub # arr) seen"
  "as_obj (Some sub) = Some m \<Longrightarrow> \<not> refs_left comps [AObj m] seen < refs_left comps (sub # arr) seen \<Longrightarrow>
     refs_left comps [AObj m] seen = refs_left comps (sub # arr) seen"
  using refs_left_lookup refs_left_Cons by (meson le_neq_implies_less)+

lemma size_assertion:
  "as_obj (map_of s k) = Some m \<Longrightarrow> size (AObj m) < size (AObj s)"
  "as_arr (map_of s k) = Some xs \<Longrightarrow> size_list size xs < size (AObj s)"
  "as_obj (Some sub) = Some m \<Longrightarrow> size (AObj m) < Suc (size sub + size_list size arr)"
  using size_lookup [of s k] by (auto simp: assertion_iff)

definition maxDepth :: nat where
  "maxDepth = 8"

text \<open>The measures of the walk's arguments: the depth left, then the references left, then the size.\<close>

definition walk_rank :: "jmap \<Rightarrow> jany list \<Rightarrow> (string, bool) gomap \<Rightarrow> nat \<Rightarrow> nat" where
  "walk_rank comps xs seen depth = (if maxDepth < depth then 0 else Suc (refs_left comps xs seen))"

definition walk_size :: "jmap option \<Rightarrow> nat \<Rightarrow> nat" where
  "walk_size schema depth =
     (if maxDepth < depth then 0 else case schema of None \<Rightarrow> 0 | Some m \<Rightarrow> size (AObj m))"

lemmas walk_measure_simps = maxDepth_def walk_rank_def walk_size_def or_nil_def

function walk :: "order \<Rightarrow> jmap \<Rightarrow> jmap option \<Rightarrow> string \<Rightarrow> (string, bool) gomap \<Rightarrow> nat
      \<Rightarrow> fieldSet \<times> nat \<Rightarrow> fieldSet \<times> nat"
  and walk_subs :: "order \<Rightarrow> jmap \<Rightarrow> jany list \<Rightarrow> string \<Rightarrow> (string, bool) gomap \<Rightarrow> nat
      \<Rightarrow> fieldSet \<times> nat \<Rightarrow> fieldSet \<times> nat"
  and walk_props :: "order \<Rightarrow> jmap \<Rightarrow> (string \<times> jany) list \<Rightarrow> string \<Rightarrow> (string, bool) gomap \<Rightarrow> nat
      \<Rightarrow> fieldSet \<times> nat \<Rightarrow> fieldSet \<times> nat" where
  "walk ord comps schema pre seen depth st =
     (case schema of
        None \<Rightarrow> st
      | Some s \<Rightarrow>
          (if depth > maxDepth then st
           else case as_str (map_of s ''$ref'') of
               Some ref \<Rightarrow>
                 (if map_of seen ref = Some True then st
                  else walk ord comps (resolveRef ref comps) pre (AList.update ref True (copySeen seen)) depth st)
             | None \<Rightarrow>
                 (let st1 = (case as_obj (map_of s ''items'') of
                               None \<Rightarrow> st | Some items \<Rightarrow> walk ord comps (Some items) pre seen depth st);
                      st2 = (case as_arr (map_of s ''allOf'') of
                               None \<Rightarrow> st1 | Some arr \<Rightarrow> walk_subs ord comps arr pre seen depth st1);
                      st3 = (case as_arr (map_of s ''anyOf'') of
                               None \<Rightarrow> st2 | Some arr \<Rightarrow> walk_subs ord comps arr pre seen depth st2);
                      st4 = (case as_arr (map_of s ''oneOf'') of
                               None \<Rightarrow> st3 | Some arr \<Rightarrow> walk_subs ord comps arr pre seen depth st3)
                  in case as_obj (map_of s ''properties'') of
                       None \<Rightarrow> st4
                     | Some props \<Rightarrow>
                         walk_props ord comps (range_map (ord (snd st4)) props) pre seen depth
                           (fst st4, Suc (snd st4)))))"
| "walk_subs ord comps [] pre seen depth st = st"
| "walk_subs ord comps (sub # arr) pre seen depth st =
     walk_subs ord comps arr pre seen depth
       (case as_obj (Some sub) of None \<Rightarrow> st | Some m \<Rightarrow> walk ord comps (Some m) pre seen depth st)"
| "walk_props ord comps [] pre seen depth st = st"
| "walk_props ord comps ((name, sub) # props) pre seen depth st =
     (let p = extend pre name; st1 = (add_field (fst st) p, snd st)
      in walk_props ord comps props pre seen depth
           (case as_obj (Some sub) of
              None \<Rightarrow> st1 | Some m \<Rightarrow> walk ord comps (Some m) p (copySeen seen) (depth + 1) st1))"
  by pat_completeness auto

termination
  by (relation "measures
    [case_sum (\<lambda>(ord, comps, schema, pre, seen, depth, st). 9 - depth)
       (case_sum (\<lambda>(ord, comps, arr, pre, seen, depth, st). 9 - depth)
                 (\<lambda>(ord, comps, ps, pre, seen, depth, st). 9 - depth)),
     case_sum (\<lambda>(ord, comps, schema, pre, seen, depth, st). walk_rank comps [AObj (or_nil schema)] seen depth)
       (case_sum (\<lambda>(ord, comps, arr, pre, seen, depth, st). walk_rank comps arr seen depth)
                 (\<lambda>(ord, comps, ps, pre, seen, depth, st). 0)),
     case_sum (\<lambda>(ord, comps, schema, pre, seen, depth, st). walk_size schema depth)
       (case_sum (\<lambda>(ord, comps, arr, pre, seen, depth, st). size_list size arr)
                 (\<lambda>(ord, comps, ps, pre, seen, depth, st). Suc (length ps)))]")
    (auto simp: walk_measure_simps simp del: jany.size dest: refs_left_follow intro: refs_left_eq size_assertion)

declare walk.simps [simp del]

definition schemaFields :: "order \<Rightarrow> nat \<Rightarrow> jmap \<Rightarrow> jmap \<Rightarrow> string list \<times> nat" where
  "schemaFields ord i schema comps =
     (let (fs, j) = walk ord comps (Some schema) [] [] 0 (newFieldSet, i) in (fs_list fs, j))"

section \<open>The documented fields\<close>

text \<open>What a field of a schema is, without order, state and accumulation: a path of property names
  through references (none twice on the path), array items and composed schemas.\<close>

inductive field :: "jmap \<Rightarrow> jmap \<Rightarrow> string set \<Rightarrow> nat \<Rightarrow> string list \<Rightarrow> bool" for comps where
  ref: "as_str (map_of s ''$ref'') = Some r \<Longrightarrow> r \<notin> seen \<Longrightarrow> resolveRef r comps = Some t \<Longrightarrow>
     field comps t (insert r seen) d p \<Longrightarrow> field comps s seen d p"
| items: "as_str (map_of s ''$ref'') = None \<Longrightarrow> as_obj (map_of s ''items'') = Some m \<Longrightarrow>
     field comps m seen d p \<Longrightarrow> field comps s seen d p"
| part: "as_str (map_of s ''$ref'') = None \<Longrightarrow> kw \<in> {''allOf'', ''anyOf'', ''oneOf''} \<Longrightarrow>
     as_arr (map_of s kw) = Some arr \<Longrightarrow> AObj m \<in> set arr \<Longrightarrow> field comps m seen d p \<Longrightarrow> field comps s seen d p"
| here: "as_str (map_of s ''$ref'') = None \<Longrightarrow> as_obj (map_of s ''properties'') = Some props \<Longrightarrow>
     map_of props n = Some v \<Longrightarrow> field comps s seen d [n]"
| below: "as_str (map_of s ''$ref'') = None \<Longrightarrow> as_obj (map_of s ''properties'') = Some props \<Longrightarrow>
     map_of props n = Some (AObj m) \<Longrightarrow> d < maxDepth \<Longrightarrow> field comps m seen (Suc d) p \<Longrightarrow>
     field comps s seen d (n # p)"

inductive_simps field_iff: "field comps s seen d p"

text \<open>The dotted paths a walk adds below a prefix.\<close>

definition dotted :: "jmap \<Rightarrow> jmap option \<Rightarrow> string \<Rightarrow> (string, bool) gomap \<Rightarrow> nat \<Rightarrow> string set" where
  "dotted comps schema pre seen d =
     (case schema of
        None \<Rightarrow> {}
      | Some s \<Rightarrow> if maxDepth < d then {} else foldl extend pre ` {p. field comps s (set (map_keys seen)) d p})"

definition dotted_props :: "jmap \<Rightarrow> (string \<times> jany) set \<Rightarrow> string \<Rightarrow> (string, bool) gomap \<Rightarrow> nat \<Rightarrow> string set" where
  "dotted_props comps ps pre seen d =
     (\<Union>(n, v) \<in> ps. insert (extend pre n) (dotted comps (as_obj (Some v)) (extend pre n) seen (Suc d)))"

definition dotted_subs :: "jmap \<Rightarrow> jany list \<Rightarrow> string \<Rightarrow> (string, bool) gomap \<Rightarrow> nat \<Rightarrow> string set" where
  "dotted_subs comps arr pre seen d = (\<Union>v \<in> set arr. dotted comps (as_obj (Some v)) pre seen d)"

definition list_of :: "jany list option \<Rightarrow> jany list" where
  "list_of xs = (case xs of None \<Rightarrow> [] | Some xs \<Rightarrow> xs)"

lemma dotted_cut [simp]: "dotted comps None pre seen d = {}" "maxDepth < d \<Longrightarrow> dotted comps schema pre seen d = {}"
  by (simp_all add: dotted_def split: option.split)

lemma dotted_ref:
  assumes "as_str (map_of s ''$ref'') = Some r" and "d \<le> maxDepth"
  shows "dotted comps (Some s) pre seen d =
    (if r \<in> set (map_keys seen) then {} else dotted comps (resolveRef r comps) pre (AList.update r True seen) d)"
  using assms by (auto simp: dotted_def field_iff [of comps s] map_keys_def dom_update split: option.split)

lemma dotted_mem:
  "x \<in> dotted comps (Some s) pre seen d \<longleftrightarrow>
     d \<le> maxDepth \<and> (\<exists>p. field comps s (set (map_keys seen)) d p \<and> x = foldl extend pre p)"
  by (auto simp: dotted_def)

lemma dotted_obj:
  "x \<in> dotted comps (as_obj (Some v)) pre seen d \<longleftrightarrow> (\<exists>m. v = AObj m \<and> x \<in> dotted comps (Some m) pre seen d)"
  by (cases v) simp_all

lemma dotted_subs_mem:
  "x \<in> dotted_subs comps (list_of arr) pre seen d \<longleftrightarrow>
     (\<exists>xs m. arr = Some xs \<and> AObj m \<in> set xs \<and> x \<in> dotted comps (Some m) pre seen d)"
  by (cases arr) (auto simp: dotted_subs_def list_of_def dotted_obj)

lemma dotted_props_mem:
  "x \<in> dotted_props comps {(n, v). map_of (or_nil props) n = Some v} pre seen d \<longleftrightarrow>
     (\<exists>ps n v. props = Some ps \<and> map_of ps n = Some v
        \<and> (x = extend pre n \<or> (\<exists>m. v = AObj m \<and> x \<in> dotted comps (Some m) (extend pre n) seen (Suc d))))"
  by (cases props) (auto simp: dotted_props_def or_nil_def dotted_obj)

lemma dotted_open:
  assumes ref: "as_str (map_of s ''$ref'') = None" and d: "d \<le> maxDepth"
  shows "dotted comps (Some s) pre seen d =
    dotted comps (as_obj (map_of s ''items'')) pre seen d
    \<union> dotted_subs comps (list_of (as_arr (map_of s ''allOf''))) pre seen d
    \<union> dotted_subs comps (list_of (as_arr (map_of s ''anyOf''))) pre seen d
    \<union> dotted_subs comps (list_of (as_arr (map_of s ''oneOf''))) pre seen d
    \<union> dotted_props comps {(n, v). map_of (or_nil (as_obj (map_of s ''properties''))) n = Some v} pre seen d"
  (is "?l = ?r")
proof (rule set_eqI)
  fix x
  let ?F = "\<lambda>m d. field comps m (set (map_keys seen)) d"
  have item: "x \<in> dotted comps (as_obj (map_of s ''items'')) pre seen d \<longleftrightarrow>
      (\<exists>m p. as_obj (map_of s ''items'') = Some m \<and> ?F m d p \<and> x = foldl extend pre p)"
    using d by (cases "as_obj (map_of s ''items'')") (auto simp: dotted_mem)
  have "x \<in> ?l \<longleftrightarrow> (\<exists>p. ?F s d p \<and> x = foldl extend pre p)" using d by (simp add: dotted_mem)
  also have "\<dots> \<longleftrightarrow> x \<in> ?r"
  proof
    assume "\<exists>p. ?F s d p \<and> x = foldl extend pre p"
    then obtain p where "?F s d p" "x = foldl extend pre p" by blast
    then show "x \<in> ?r"
    proof (cases rule: field.cases)
      case (below props n m p')
      then have "x \<in> dotted comps (Some m) (extend pre n) seen (Suc d)"
        using \<open>x = foldl extend pre p\<close> by (auto simp: dotted_mem)
      with below show ?thesis unfolding Un_iff dotted_props_mem by blast
    next
      case (here props n v)
      then show ?thesis using \<open>x = foldl extend pre p\<close> unfolding Un_iff dotted_props_mem by auto
    next
      case (part kw arr m)
      then have "x \<in> dotted comps (Some m) pre seen d" using \<open>x = foldl extend pre p\<close> d by (auto simp: dotted_mem)
      with part have "x \<in> dotted_subs comps (list_of (as_arr (map_of s kw))) pre seen d"
        unfolding dotted_subs_mem by blast
      with part show ?thesis by auto
    next
      case (items m)
      then show ?thesis using \<open>x = foldl extend pre p\<close> unfolding Un_iff item by blast
    qed (use ref in simp)
  next
    assume "x \<in> ?r"
    have subs: "\<exists>p. ?F s d p \<and> x = foldl extend pre p"
      if "kw \<in> {''allOf'', ''anyOf'', ''oneOf''}" "x \<in> dotted_subs comps (list_of (as_arr (map_of s kw))) pre seen d"
      for kw
      using that unfolding dotted_subs_mem dotted_mem by (blast intro: field.part [OF ref])
    have props: "\<exists>p. ?F s d p \<and> x = foldl extend pre p"
      if props: "as_obj (map_of s ''properties'') = Some props" "map_of props n = Some v"
        and x: "x = extend pre n \<or> (\<exists>m. v = AObj m \<and> x \<in> dotted comps (Some m) (extend pre n) seen (Suc d))"
      for props n v
      using x
    proof
      assume "x = extend pre n"
      then show ?thesis using field.here [OF ref props] by (intro exI [of _ "[n]"]) simp
    next
      assume "\<exists>m. v = AObj m \<and> x \<in> dotted comps (Some m) (extend pre n) seen (Suc d)"
      then obtain m p where "v = AObj m" "d < maxDepth" "?F m (Suc d) p" "x = foldl extend (extend pre n) p"
        by (auto simp: dotted_mem)
      then show ?thesis using field.below [OF ref props(1), of n m d] props(2) by (intro exI [of _ "n # p"]) simp
    qed
    from \<open>x \<in> ?r\<close> show "\<exists>p. ?F s d p \<and> x = foldl extend pre p"
    proof (elim UnE)
      assume "x \<in> dotted comps (as_obj (map_of s ''items'')) pre seen d"
      then show ?thesis unfolding item using field.items [OF ref] by blast
    next
      assume "x \<in> dotted_props comps {(n, v). map_of (or_nil (as_obj (map_of s ''properties''))) n = Some v} pre seen d"
      then show ?thesis unfolding dotted_props_mem using props by blast
    qed (rule subs; simp; fail)+
  qed
  finally show "x \<in> ?l \<longleftrightarrow> x \<in> ?r" .
qed

text \<open>The set holds each path once, and its index is the set.\<close>

definition fields_ok :: "fieldSet \<Rightarrow> bool" where
  "fields_ok fs \<longleftrightarrow> distinct (fs_list fs) \<and> (\<forall>p. map_of (fs_visited fs) p = Some True \<longleftrightarrow> p \<in> set (fs_list fs))"

definition adds :: "fieldSet \<times> nat \<Rightarrow> string set \<Rightarrow> fieldSet \<times> nat \<Rightarrow> bool" where
  "adds st A st' \<longleftrightarrow> (fields_ok (fst st) \<longrightarrow>
     fields_ok (fst st') \<and> set (fs_list (fst st')) = set (fs_list (fst st)) \<union> A)"

lemma adds_refl: "adds st {} st"
  by (simp add: adds_def)

lemma adds_trans: "adds st A st1 \<Longrightarrow> adds st1 B st2 \<Longrightarrow> adds st (A \<union> B) st2"
  by (auto simp: adds_def)

lemma adds_add: "adds (fs, i) {p} (add_field fs p, i)"
  by (auto simp: adds_def fields_ok_def add_field_def update_conv')

lemma adds_index: "adds (fst st, j) A st' = adds st A st'"
  by (simp add: adds_def)

lemma in_map_filter: "y \<in> set (List.map_filter f xs) \<longleftrightarrow> (\<exists>x \<in> set xs. f x = Some y)"
  by (induction xs) (auto simp: List.map_filter_def)

lemma set_range_entries: "is_order ord \<Longrightarrow> set (range_map (ord i) m) = {(k, v). map_of m k = Some v}"
  by (auto simp: range_map_def in_map_filter is_order_set set_map_keys)

lemma seen_all_true: "list_all snd seen \<Longrightarrow> map_of seen r = Some True \<longleftrightarrow> r \<in> set (map_keys seen)"
  by (induction seen) (auto simp: map_keys_def)

lemma copySeen_id: "list_all snd seen \<Longrightarrow> copySeen seen = seen"
  by (induction seen) (auto simp: copySeen_def map_keys_def)

lemma seen_update: "list_all snd seen \<Longrightarrow> list_all snd (AList.update r True seen)"
  by (induction seen) auto

lemma walk_adds:
  "is_order ord \<Longrightarrow> list_all snd seen \<Longrightarrow>
     adds st (dotted comps schema pre seen depth) (walk ord comps schema pre seen depth st)"
  "is_order ord \<Longrightarrow> list_all snd seen \<Longrightarrow>
     adds st (dotted_subs comps arr pre seen depth) (walk_subs ord comps arr pre seen depth st)"
  "is_order ord \<Longrightarrow> list_all snd seen \<Longrightarrow>
     adds st (dotted_props comps (set props) pre seen depth) (walk_props ord comps props pre seen depth st)"
proof (induction ord comps schema pre seen depth st and ord comps arr pre seen depth st
    and ord comps props pre seen depth st rule: walk_walk_subs_walk_props.induct)
  case (1 ord comps schema pre seen depth st)
  show ?case
  proof (cases schema)
    case None
    then show ?thesis by (simp add: walk.simps adds_refl)
  next
    case (Some s)
    show ?thesis
    proof (cases "depth > maxDepth")
      case True
      then show ?thesis by (simp add: walk.simps Some adds_refl)
    next
      case d: False
      show ?thesis
      proof (cases "as_str (map_of s ''$ref'')")
        case (Some ref)
        then show ?thesis
          using "1.IH"(6) [OF \<open>schema = Some s\<close> d Some] "1.prems" d
          by (simp add: walk.simps \<open>schema = Some s\<close> dotted_ref seen_all_true copySeen_id seen_update adds_refl)
      next
        case None
        note ih = "1.IH"(1-5) [OF \<open>schema = Some s\<close> d None]
        define st1 where "st1 = (case as_obj (map_of s ''items'') of
          None \<Rightarrow> st | Some items \<Rightarrow> walk ord comps (Some items) pre seen depth st)"
        define st2 where "st2 = (case as_arr (map_of s ''allOf'') of
          None \<Rightarrow> st1 | Some arr \<Rightarrow> walk_subs ord comps arr pre seen depth st1)"
        define st3 where "st3 = (case as_arr (map_of s ''anyOf'') of
          None \<Rightarrow> st2 | Some arr \<Rightarrow> walk_subs ord comps arr pre seen depth st2)"
        define st4 where "st4 = (case as_arr (map_of s ''oneOf'') of
          None \<Rightarrow> st3 | Some arr \<Rightarrow> walk_subs ord comps arr pre seen depth st3)"
        have subs: "adds x (dotted_subs comps (list_of arr) pre seen depth)
            (case arr of None \<Rightarrow> x | Some arr \<Rightarrow> walk_subs ord comps arr pre seen depth x)"
          if "\<And>xs. arr = Some xs \<Longrightarrow> adds x (dotted_subs comps xs pre seen depth) (walk_subs ord comps xs pre seen depth x)"
          for arr x using that by (cases arr) (simp_all add: list_of_def dotted_subs_def adds_refl)
        have s1: "adds st (dotted comps (as_obj (map_of s ''items'')) pre seen depth) st1"
          using ih(1) "1.prems" by (cases "as_obj (map_of s ''items'')") (simp_all add: st1_def adds_refl)
        have s2: "adds st1 (dotted_subs comps (list_of (as_arr (map_of s ''allOf''))) pre seen depth) st2"
          unfolding st2_def by (rule subs, rule ih(2) [OF st1_def _ "1.prems"])
        have s3: "adds st2 (dotted_subs comps (list_of (as_arr (map_of s ''anyOf''))) pre seen depth) st3"
          unfolding st3_def by (rule subs, rule ih(3) [OF st1_def st2_def _ "1.prems"])
        have s4: "adds st3 (dotted_subs comps (list_of (as_arr (map_of s ''oneOf''))) pre seen depth) st4"
          unfolding st4_def by (rule subs, rule ih(4) [OF st1_def st2_def st3_def _ "1.prems"])
        have s5: "adds st4 (dotted_props comps {(n, v). map_of (or_nil (as_obj (map_of s ''properties''))) n = Some v} pre seen depth)
            (case as_obj (map_of s ''properties'') of None \<Rightarrow> st4 | Some props \<Rightarrow>
               walk_props ord comps (range_map (ord (snd st4)) props) pre seen depth (fst st4, Suc (snd st4)))"
        proof (cases "as_obj (map_of s ''properties'')")
          case (Some props)
          from ih(5) [OF st1_def st2_def st3_def st4_def Some "1.prems"] show ?thesis
            by (simp add: Some or_nil_def set_range_entries [OF "1.prems"(1)] adds_index)
        qed (simp add: or_nil_def dotted_props_def adds_refl)
        have "walk ord comps schema pre seen depth st = (case as_obj (map_of s ''properties'') of None \<Rightarrow> st4 | Some props \<Rightarrow>
               walk_props ord comps (range_map (ord (snd st4)) props) pre seen depth (fst st4, Suc (snd st4)))"
          using d None unfolding st4_def st3_def st2_def st1_def by (simp add: walk.simps \<open>schema = Some s\<close> Let_def)
        moreover have "depth \<le> maxDepth" using d by simp
        ultimately show ?thesis
          using adds_trans [OF adds_trans [OF adds_trans [OF adds_trans [OF s1 s2] s3] s4] s5]
          by (simp only: \<open>schema = Some s\<close> dotted_open [OF None])
      qed
    qed
  qed
next
  case (2 ord comps pre seen depth st)
  then show ?case by (simp add: dotted_subs_def adds_refl)
next
  case (3 ord comps sub arr pre seen depth st)
  let ?st = "case as_obj (Some sub) of None \<Rightarrow> st | Some m \<Rightarrow> walk ord comps (Some m) pre seen depth st"
  have "adds st (dotted comps (as_obj (Some sub)) pre seen depth) ?st"
    using "3.IH"(1) "3.prems" by (cases "as_obj (Some sub)") (simp_all add: adds_refl)
  from adds_trans [OF this "3.IH"(2) [OF "3.prems"]] show ?case by (simp add: dotted_subs_def)
next
  case (4 ord comps pre seen depth st)
  then show ?case by (simp add: dotted_props_def adds_refl)
next
  case (5 ord comps name sub props pre seen depth st)
  let ?p = "extend pre name" and ?st = "(add_field (fst st) (extend pre name), snd st)"
  let ?st' = "case as_obj (Some sub) of None \<Rightarrow> ?st
      | Some m \<Rightarrow> walk ord comps (Some m) ?p (copySeen seen) (depth + 1) ?st"
  have "adds st {?p} ?st" using adds_add [of "fst st" "snd st"] by simp
  moreover have "adds ?st (dotted comps (as_obj (Some sub)) ?p seen (Suc depth)) ?st'"
    using "5.IH"(1) "5.prems"
    by (cases "as_obj (Some sub)") (simp_all add: adds_refl copySeen_id)
  ultimately have "adds st ({?p} \<union> dotted comps (as_obj (Some sub)) ?p seen (Suc depth)) ?st'"
    by (rule adds_trans)
  from adds_trans [OF this "5.IH"(2) [OF refl refl "5.prems"]] show ?case
    by (simp add: dotted_props_def Let_def)
qed

lemma field_length: "field comps s seen d p \<Longrightarrow> d \<le> maxDepth \<Longrightarrow> p \<noteq> [] \<and> length p \<le> Suc maxDepth - d"
  by (induction rule: field.induct) auto

definition documented :: "jmap \<Rightarrow> jmap \<Rightarrow> string set" where
  "documented comps schema = foldl extend [] ` {p. field comps schema {} 0 p}"

lemma schemaFields_set:
  assumes "is_order ord"
  shows "distinct (fst (schemaFields ord i schema comps))"
    and "set (fst (schemaFields ord i schema comps)) = documented comps schema"
proof -
  have "fields_ok newFieldSet" by (simp add: newFieldSet_def fields_ok_def)
  with walk_adds(1) [OF assms, of "[]" "(newFieldSet, i)" comps "Some schema" "[]" 0]
  show "distinct (fst (schemaFields ord i schema comps))"
    "set (fst (schemaFields ord i schema comps)) = documented comps schema"
    by (simp_all add: adds_def schemaFields_def fields_ok_def newFieldSet_def dotted_def documented_def
        map_keys_def case_prod_beta)
qed

text \<open>C35: The schema walk lists exactly the documented fields: whatever orders Go ranges over the
  maps in, the list holds, each once, the dotted paths of the properties reachable from the schema
  through references, array items and composed schemas, and nothing else; references that lead
  back to themselves do not keep it from returning, and no path names more than nine properties.\<close>

theorem schemaFields_exact:
  assumes "is_order ord"
  shows "set (fst (schemaFields ord i schema comps)) = foldl extend [] ` {p. field comps schema {} 0 p}
    \<and> distinct (fst (schemaFields ord i schema comps))
    \<and> (\<forall>p \<in> {p. field comps schema {} 0 p}. 1 \<le> length p \<and> length p \<le> 9)"
  using schemaFields_set [OF assms, of i schema comps] field_length [of comps schema "{}" 0]
  by (auto simp: documented_def maxDepth_def Suc_le_eq)

text \<open>A schema that refers to itself through the items of a list.\<close>

definition example_comps :: jmap where
  "example_comps =
     [(''Tree'', AObj [(''properties'', AObj [(''name'', AObj []),
        (''kids'', AObj [(''items'', AObj [(''$ref'', AStr ''#/components/schemas/Tree'')])])])])]"

definition example_schema :: jmap where
  "example_schema = [(''properties'', AObj [(''root'', AObj [(''$ref'', AStr ''#/components/schemas/Tree'')])])]"

theorem schemaFields_exact_witness:
  "{''root'', ''root.name'', ''root.kids''} = foldl extend [] ` {p. field example_comps example_schema {} 0 p}"
proof -
  have "set (fst (schemaFields id_order 0 example_schema example_comps)) = {''root'', ''root.name'', ''root.kids''}"
    by code_simp
  with schemaFields_exact [OF is_order_id, of 0 example_schema example_comps] show ?thesis by simp
qed

section \<open>The tool\<close>

definition targets :: "(string, string) gomap" where
  "targets =
     [(''/platform/3/cluster/config'', ''cluster_config.json''),
      (''/platform/3/cluster/nodes'', ''nodes.json''),
      (''/platform/8/quota/quotas'', ''quotas.json''),
      (''/platform/25/quota/quotas'', ''quotas_v25.json''),
      (''/platform/1/snapshot/snapshots-summary'', ''snapshots_summary.json''),
      (''/platform/1/dedupe/dedupe-summary'', ''dedupe_summary.json''),
      (''/platform/3/event/eventgroup-occurrences'', ''events.json''),
      (''/platform/1/statistics/current'', ''stat_current.json''),
      (''/platform/3/statistics/summary/protocol'', ''stat_protocol.json''),
      (''/platform/26/statistics/summary/protocol'', ''stat_protocol_v26.json''),
      (''/platform/3/statistics/summary/drive'', ''stat_drive.json''),
      (''/platform/3/statistics/summary/client'', ''stat_client.json''),
      (''/platform/7/sync/policies'', ''sync_policies.json''),
      (''/platform/5/license/licenses'', ''licenses.json''),
      (''/platform/1/storagepool/storagepools'', ''storagepools.json''),
      (''/platform/4/statistics/summary/workload'', ''stat_workload.json'')]"

datatype tool_error = SpecUnreadable string | SpecUndecodable | NoSchema string | NotWritten string

fun entries ::
    "order \<Rightarrow> nat \<Rightarrow> jmap \<Rightarrow> jmap \<Rightarrow> (string \<times> string) list \<Rightarrow> tool_error + (string \<times> string list) list" where
  "entries ord i doc comps [] = Inr []"
| "entries ord i doc comps ((path, fx) # ts) =
     (case responseSchema (ord i) doc path of
        None \<Rightarrow> Inl (NoSchema path)
      | Some sch \<Rightarrow>
          (let (fields, j) = schemaFields ord (Suc i) sch comps
           in res_bind (entries ord j doc comps ts) (\<lambda>es. Inr ((fx, sort fields) # es))))"

definition components :: "jmap \<Rightarrow> jmap" where
  "components doc = or_nil (dig doc [''components'', ''schemas''])"

definition extract_spec :: "order \<Rightarrow> jmap \<Rightarrow> tool_error + (string, string list) gomap" where
  "extract_spec ord doc =
     res_bind (entries ord 1 doc (components doc) (range_map (ord 0) targets))
       (\<lambda>es. Inr (foldl (\<lambda>m (fx, fields). AList.update fx fields m) [] es))"

text \<open>A map is written with its keys sorted.\<close>

definition written :: "(string, string list) gomap \<Rightarrow> (string \<times> string list) list" where
  "written m = map (\<lambda>k. (k, the (map_of m k))) (sort (map_keys m))"

section \<open>The output depends on the specification only\<close>

text \<open>The reply's schema is not a matter of the order: it is that of JSON, or there is at most one.\<close>

definition one_schema :: "jmap \<Rightarrow> string \<Rightarrow> bool" where
  "one_schema doc path \<longleftrightarrow>
     media_schema (map_of (response_content doc path) ''application/json'') \<noteq> None
     \<or> length (response_content doc path) \<le> 1"

lemma responseSchema_order:
  assumes "one_schema doc path" and "is_order ord"
  shows "responseSchema (ord i) doc path = responseSchema id doc path"
proof -
  have "range_map (ord i) m = range_map id m" if "length m \<le> 1" for m :: jmap
  proof -
    have "mset (ord i (map_keys m)) = mset (map_keys m)" using assms(2) by (simp add: is_order_def)
    moreover have "length (map_keys m) \<le> 1" using that by (simp add: map_keys_def)
    ultimately have "ord i (map_keys m) = map_keys m"
      by (cases "map_keys m") auto
    then show ?thesis by (simp add: range_map_def)
  qed
  then show ?thesis using assms(1)
    by (auto simp: responseSchema_def one_schema_def Let_def split: option.split)
qed

definition spec_fields :: "jmap \<Rightarrow> string \<Rightarrow> string list" where
  "spec_fields doc path = sorted_list_of_set (documented (components doc) (or_nil (responseSchema id doc path)))"

lemma sort_fields:
  assumes "is_order ord" and "responseSchema id doc path = Some sch"
    and "schemaFields ord i sch (components doc) = (fl, j)"
  shows "sort fl = spec_fields doc path"
proof -
  note fl = schemaFields_set [OF assms(1), of i sch "components doc", unfolded assms(3) fst_conv]
  then have "remdups fl = fl" by (simp add: distinct_remdups_id)
  then have "sorted_list_of_set (set fl) = sort fl" by (metis sorted_list_of_set_sort_remdups)
  then show ?thesis by (simp only: fl(2) spec_fields_def or_nil_def assms(2) option.case)
qed

lemma entries_result:
  assumes "is_order ord" and "list_all (\<lambda>(path, fx). one_schema doc path) ts"
  shows "case entries ord i doc (components doc) ts of
      Inl e \<Rightarrow> \<exists>(path, fx) \<in> set ts. e = NoSchema path \<and> responseSchema id doc path = None
    | Inr es \<Rightarrow> es = map (\<lambda>(path, fx). (fx, spec_fields doc path)) ts
        \<and> list_all (\<lambda>(path, fx). responseSchema id doc path \<noteq> None) ts"
  using assms(2)
proof (induction ts arbitrary: i)
  case (Cons t ts)
  obtain path fx where t: "t = (path, fx)" by (cases t)
  show ?case
  proof (cases "responseSchema id doc path")
    case None
    with Cons.prems responseSchema_order [OF _ assms(1)] show ?thesis by (simp add: t)
  next
    case (Some sch)
    obtain fl j where f: "schemaFields ord (Suc i) sch (components doc) = (fl, j)" by fastforce
    have "responseSchema (ord i) doc path = Some sch"
      using Cons.prems responseSchema_order [OF _ assms(1)] Some by (simp add: t)
    with Cons.IH [of j] Cons.prems Some f sort_fields [OF assms(1) Some f] show ?thesis
      by (cases "entries ord j doc (components doc) ts") (auto simp: t)
  qed
qed simp

lemma map_of_collect:
  "map_of (foldl (\<lambda>m (fx, fs). AList.update fx fs m) m es) k =
     (case map_of (rev es) k of Some v \<Rightarrow> Some v | None \<Rightarrow> map_of m k)"
  by (induction es arbitrary: m) (auto simp: update_conv' map_add_def split: option.split prod.split)

lemma wf_collect: "wf_map m \<Longrightarrow> wf_map (foldl (\<lambda>m (fx, fs). AList.update fx fs m) m es)"
  by (induction es arbitrary: m) auto

lemma written_entries: "wf_map m \<Longrightarrow> set (written m) = {(k, v). map_of m k = Some v}"
  by (auto simp: written_def set_map_keys image_iff)

lemma written_sorted: "wf_map m \<Longrightarrow> sorted (map fst (written m)) \<and> distinct (map fst (written m))"
  by (simp add: written_def comp_def wf_map_def)

text \<open>C38: Regenerating the fixture file is deterministic: when every consumed endpoint documents its
  reply as JSON (or as one media type), the tool fails exactly when one has no schema, naming such an
  endpoint, and otherwise writes, in the order of the fixture names, for every endpoint the sorted
  list of its documented fields, whatever orders Go ranges over its maps in.\<close>

theorem extract_deterministic:
  assumes "is_order ord" and "list_all (\<lambda>(path, fx). one_schema doc path) targets"
  shows "case extract_spec ord doc of
      Inl e \<Rightarrow> \<exists>(path, fx) \<in> set targets. e = NoSchema path \<and> responseSchema id doc path = None
    | Inr out \<Rightarrow> sorted (map fst (written out)) \<and> distinct (map fst (written out))
        \<and> set (written out) = (\<lambda>(path, fx). (fx, spec_fields doc path)) ` set targets
        \<and> (\<forall>(path, fx) \<in> set targets. responseSchema id doc path \<noteq> None)"
proof -
  let ?ts = "range_map (ord 0) targets" and ?g = "\<lambda>(path, fx). (fx, spec_fields doc path)"
  have wf: "wf_map targets" and fx: "distinct (map snd targets)" by code_simp+
  have ts: "set ?ts = set targets" by (rule set_range_map [OF assms(1) wf])
  have "distinct (map snd ?ts)"
    using mset_range_map [OF assms(1) wf, of 0] fx by (metis mset_eq_imp_distinct_iff mset_map)
  then have keys: "distinct (map fst (map ?g ?ts))" by (simp add: comp_def case_prod_beta)
  have "list_all (\<lambda>(path, fx). one_schema doc path) ?ts" using assms(2) ts by (simp add: list_all_iff)
  note r = entries_result [OF assms(1) this, of 1]
  show ?thesis
  proof (cases "entries ord 1 doc (components doc) ?ts")
    case (Inl e)
    with r show ?thesis by (simp add: extract_spec_def ts)
  next
    case (Inr es)
    let ?out = "foldl (\<lambda>m (fx, fields). AList.update fx fields m) [] es"
    have es: "es = map ?g ?ts" "list_all (\<lambda>(path, fx). responseSchema id doc path \<noteq> None) ?ts"
      using r Inr by simp_all
    have "map_of ?out k = Some v \<longleftrightarrow> (k, v) \<in> set es" for k v
    proof -
      have "distinct (map fst (rev es))" using keys es(1) by (simp add: rev_map [symmetric])
      from map_of_eq_Some_iff [OF this, of k v] show ?thesis
        by (auto simp: map_of_collect split: option.split)
    qed
    then have "set (written ?out) = ?g ` set targets"
      using written_entries [OF wf_collect [OF wf_map_Nil], of es] es(1) ts by auto
    with written_sorted [OF wf_collect [OF wf_map_Nil], of es] es(2) ts Inr show ?thesis
      by (auto simp: extract_spec_def list_all_iff)
  qed
qed

text \<open>Without JSON among several media types the schema is the one the runtime happens to visit
  first.\<close>

definition two_media_doc :: jmap where
  "two_media_doc =
     [(''paths'', AObj [(''/p'', AObj [(''get'', AObj [(''responses'', AObj [(''200'', AObj [(''content'', AObj
        [(''text/xml'', AObj [(''schema'', AObj [(''type'', AStr ''xml'')])]),
         (''text/csv'', AObj [(''schema'', AObj [(''type'', AStr ''csv'')])])])])])])])])]"

lemma schema_depends_on_order: "responseSchema rev two_media_doc ''/p'' \<noteq> responseSchema id two_media_doc ''/p''"
  by code_simp

text \<open>A specification in which every consumed endpoint documents one field.\<close>

definition example_doc :: jmap where
  "example_doc =
     [(''paths'', AObj (map (\<lambda>(path, fx). (path, AObj [(''get'', AObj [(''responses'', AObj [(''200'', AObj
        [(''content'', AObj [(''application/json'', AObj [(''schema'', AObj [(''properties'',
           AObj [(fx, AObj [])])])])])])])])])) targets))]"

theorem extract_deterministic_witness:
  "list_all (\<lambda>(path, fx). one_schema example_doc path) targets
   \<and> (\<exists>out. extract_spec id_order example_doc = Inr out \<and> sorted (map fst (written out))
        \<and> (''nodes.json'', spec_fields example_doc ''/platform/3/cluster/nodes'') \<in> set (written out))"
proof -
  have one: "list_all (\<lambda>(path, fx). one_schema example_doc path) targets" by code_simp
  have some: "list_all (\<lambda>(path, fx). responseSchema id example_doc path \<noteq> None) targets" by code_simp
  have "(''/platform/3/cluster/nodes'', ''nodes.json'') \<in> set targets" by (simp add: targets_def)
  moreover note r = extract_deterministic [OF is_order_id one]
  ultimately show ?thesis
    using one some by (cases "extract_spec id_order example_doc") (force simp: list_all_iff)+
qed

end
