(* ===== verification/SchemaFile.thy ===== *)
theory SchemaFile
  imports ExtractSchemas GoJsonText
begin

text \<open>
  \<open>tools/extract-schemas/main.go\<close>, the files: the specification it reads, and the text of the fixture
  file it writes, which the schema guard of the tests reads as a map of string lists. Reading a file
  and whether the output can be written are parameters.
\<close>

section \<open>The written file\<close>

text \<open>A list of fields that is nil, because no field was added, is written as null.\<close>

definition json_fields :: "string list \<Rightarrow> json" where
  "json_fields fl = (if fl = [] then JNull else JArr (map (\<lambda>s. JStr (escape s)) fl))"

definition written_text :: "(string, string list) gomap \<Rightarrow> string" where
  "written_text m =
     marshal_indent 0 (JObj (map (\<lambda>(k, fl). (escape k, json_fields fl)) (written m))) @ [CHR 0x0A]"

definition defaultSpec :: string where
  "defaultSpec = ''docs/swagger/19079-9.15.0-0.json''"

definition spec_path :: "string list \<Rightarrow> string" where
  "spec_path args = (if 1 < length args then args ! 1 else defaultSpec)"

definition outPath :: string where
  "outPath = ''internal/powerscale/testdata/onefs_schemas.json''"

definition extract_main ::
    "order \<Rightarrow> (string \<Rightarrow> string option) \<Rightarrow> (string \<Rightarrow> bool) \<Rightarrow> string list
     \<Rightarrow> tool_error + string" where
  "extract_main ord read_file can_write args =
     (let specPath = spec_path args
      in case read_file specPath of
           None \<Rightarrow> Inl (SpecUnreadable specPath)
         | Some raw \<Rightarrow>
             (case Unmarshal (\<lambda>j old. dec_doc j) [] raw of
                None \<Rightarrow> Inl SpecUndecodable
              | Some doc \<Rightarrow>
                  res_bind (extract_spec ord doc)
                    (\<lambda>out. if can_write outPath then Inr (written_text out) else Inl (NotWritten outPath))))"

section \<open>It reads back\<close>

text \<open>Decoding into a map from strings.\<close>

fun dec_map_members :: "'a decoder \<Rightarrow> 'a \<Rightarrow> (string \<times> json) list \<Rightarrow> (string, 'a) gomap \<Rightarrow> (string, 'a) gomap option" where
  "dec_map_members d zero [] m = Some m"
| "dec_map_members d zero ((k, j) # ms) m =
     (case d j zero of None \<Rightarrow> None | Some v \<Rightarrow> dec_map_members d zero ms (AList.update (unquote k) v m))"

fun dec_map :: "'a decoder \<Rightarrow> 'a \<Rightarrow> (string, 'a) gomap decoder" where
  "dec_map d zero JNull old = Some []"
| "dec_map d zero (JObj ms) old = dec_map_members d zero ms old"
| "dec_map d zero _ old = None"

definition read_fixture :: "string \<Rightarrow> (string, string list) gomap option" where
  "read_fixture = Unmarshal (dec_map (dec_slice dec_string []) []) []"

fun utf8_any :: "jany \<Rightarrow> bool" where
  "utf8_any (AStr s) = utf8 s"
| "utf8_any (AArr xs) = list_all utf8_any xs"
| "utf8_any (AObj m) = list_all (\<lambda>(k, v). utf8 k \<and> utf8_any v) m"
| "utf8_any _ = True"

lemma utf8_update: "utf8_any (AObj m) \<Longrightarrow> utf8 k \<Longrightarrow> utf8_any v \<Longrightarrow> utf8_any (AObj (AList.update k v m))"
  by (induction m) auto

lemma utf8_any_of:
  "literals j \<Longrightarrow> any_of j = Some v \<Longrightarrow> utf8_any v"
  "list_all literals js \<Longrightarrow> any_list js = Some vs \<Longrightarrow> list_all utf8_any vs"
  "list_all (\<lambda>(t, j). literal t \<and> literals j) ms \<Longrightarrow> any_members m ms = Some m' \<Longrightarrow> utf8_any (AObj m) \<Longrightarrow>
     utf8_any (AObj m')"
proof (induction j and js and m ms arbitrary: v and vs and m' rule: any_of_any_list_any_members.induct)
  case (10 m k j ms)
  then show ?case by (auto split: option.splits simp del: utf8_any.simps(3) intro: utf8_update utf8_unquote)
qed (auto split: option.splits intro: utf8_unquote)

lemma utf8_doc: "Unmarshal (\<lambda>j old. dec_doc j) [] raw = Some doc \<Longrightarrow> utf8_any (AObj doc)"
proof -
  assume "Unmarshal (\<lambda>j old. dec_doc j) [] raw = Some doc"
  then obtain j where j: "json_read raw = Some j" "dec_doc j = Some doc"
    by (auto simp: Unmarshal_def split: option.splits)
  then have "literals j" using json_val_literals(1) by (auto simp: json_read_iff)
  then show ?thesis using j(2) utf8_any_of(3) [of _ "[]" doc] by (cases j) auto
qed

lemma utf8_lookup: "utf8_any (AObj m) \<Longrightarrow> map_of m k = Some v \<Longrightarrow> utf8 k \<and> utf8_any v"
  by (auto dest!: map_of_SomeD simp: list_all_iff)

lemma utf8_as_obj: "utf8_any (AObj m) \<Longrightarrow> as_obj (map_of m k) = Some n \<Longrightarrow> utf8_any (AObj n)"
  unfolding as_obj_Some by (blast dest: utf8_lookup)

lemma utf8_dig: "utf8_any (AObj m) \<Longrightarrow> dig m ks = Some n \<Longrightarrow> utf8_any (AObj n)"
  by (induction m ks rule: dig.induct)
    (auto split: option.splits simp del: utf8_any.simps(3) dest: utf8_as_obj)

lemma utf8_or_nil: "(\<And>n. m = Some n \<Longrightarrow> utf8_any (AObj n)) \<Longrightarrow> utf8_any (AObj (or_nil m))"
  by (cases m) (simp_all add: or_nil_def del: utf8_any.simps(3), simp)

lemma utf8_media: "utf8_any v \<Longrightarrow> media_schema (Some v) = Some s \<Longrightarrow> utf8_any (AObj s)"
  by (cases v) (auto simp: media_schema_def simp del: utf8_any.simps(3) dest: utf8_as_obj)

lemma utf8_schema:
  assumes "utf8_any (AObj doc)" and "is_order ord" and "responseSchema (ord i) doc path = Some s"
  shows "utf8_any (AObj s)"
proof -
  let ?c = "response_content doc path"
  have c: "utf8_any (AObj ?c)"
    unfolding response_content_def by (rule utf8_or_nil) (rule utf8_dig [OF assms(1)])
  obtain k v where "map_of ?c k = Some v" and s: "media_schema (Some v) = Some s"
  proof (cases "media_schema (map_of ?c ''application/json'')")
    case (Some s')
    then have "s' = s" using assms(3) by (simp add: responseSchema_def)
    with Some have some: "media_schema (map_of ?c ''application/json'') = Some s" by simp
    then obtain v where "map_of ?c ''application/json'' = Some v"
      by (cases "map_of ?c ''application/json''") (simp_all add: media_schema_def)
    with some that show ?thesis by metis
  next
    case None
    then have "first_schema (range_map (ord i) ?c) = Some s" using assms(3) by (simp add: responseSchema_def)
    then have "s \<in> set (List.map_filter (\<lambda>(k, v). media_schema (Some v)) (range_map (ord i) ?c))"
      by (auto simp: first_schema_def split: list.splits)
    then obtain k v where "(k, v) \<in> set (range_map (ord i) ?c)" "media_schema (Some v) = Some s"
      unfolding in_map_filter by auto
    with that show ?thesis by (simp add: set_range_entries [OF assms(2)])
  qed
  then have "utf8_any v" using utf8_lookup [OF c] by blast
  from this s show ?thesis by (rule utf8_media)
qed

lemma utf8_field:
  assumes "utf8_any (AObj comps)"
  shows "field comps s seen d p \<Longrightarrow> utf8_any (AObj s) \<Longrightarrow> list_all utf8 p"
proof (induction rule: field.induct)
  case (ref s r seen t d p)
  have "utf8_any (AObj t)" using ref.hyps(3) utf8_as_obj [OF assms] by (simp add: resolveRef_def)
  then show ?case by (rule ref.IH)
next
  case (items s m seen d p)
  from utf8_as_obj [OF items.prems items.hyps(2)] show ?case by (rule items.IH)
next
  case (part s kw arr m seen d p)
  have "utf8_any (AArr arr)"
    using utf8_lookup [OF part.prems, of kw "AArr arr"] part.hyps(3) by (simp add: as_arr_Some)
  then have "utf8_any (AObj m)" using part.hyps(4) by (simp add: list_all_iff del: utf8_any.simps(3))
  then show ?case by (rule part.IH)
next
  case (here s props n v seen d)
  from utf8_lookup [OF utf8_as_obj [OF here.prems here.hyps(2)] here.hyps(3)] show ?case by simp
next
  case (below s props n m d seen p)
  from utf8_lookup [OF utf8_as_obj [OF below.prems below.hyps(2)] below.hyps(3)] below.IH show ?case by simp
qed

lemma utf8_extend: "utf8 pre \<Longrightarrow> utf8 n \<Longrightarrow> utf8 (extend pre n)"
  using utf8_append [of pre "CHR ''.'' # n"] utf8.ascii [of "CHR ''.''" n] by (simp add: extend_def)

lemma utf8_dotted: "list_all utf8 p \<Longrightarrow> utf8 pre \<Longrightarrow> utf8 (foldl extend pre p)"
  by (induction p arbitrary: pre) (simp_all add: utf8_extend)

definition utf8_entries :: "(string \<times> string list) list \<Rightarrow> bool" where
  "utf8_entries es \<longleftrightarrow> list_all (\<lambda>(k, fl). utf8 k \<and> list_all utf8 fl) es"

lemma utf8_schemaFields:
  assumes "utf8_any (AObj comps)" and "utf8_any (AObj s)" and "is_order ord"
    and "schemaFields ord i s comps = (fl, j)"
  shows "list_all utf8 fl"
  using schemaFields_set(2) [OF assms(3), of i s comps] utf8_field [OF assms(1) _ assms(2)]
  by (auto simp: assms(4) documented_def list_all_iff intro!: utf8_dotted utf8.nil)

lemma utf8_extracted:
  assumes "utf8_any (AObj doc)" and "utf8_any (AObj comps)" and "is_order ord"
  shows "list_all (\<lambda>(path, fx). utf8 fx) ts \<Longrightarrow> entries ord i doc comps ts = Inr es \<Longrightarrow> utf8_entries es"
proof (induction ts arbitrary: i es)
  case (Cons t ts)
  obtain path fx where t: "t = (path, fx)" by (cases t)
  then obtain s where s: "responseSchema (ord i) doc path = Some s" using Cons.prems(2) by (auto split: option.splits)
  obtain fl j where f: "schemaFields ord (Suc i) s comps = (fl, j)" by fastforce
  then obtain es' where es': "entries ord j doc comps ts = Inr es'" "es = (fx, sort fl) # es'"
    using Cons.prems(2) t s by (auto simp: res_iff)
  have "list_all utf8 fl" using utf8_schema [OF assms(1,3) s] utf8_schemaFields [OF assms(2) _ assms(3) f] by blast
  with Cons.IH [OF _ es'(1)] Cons.prems(1) t es'(2) show ?case by (simp add: utf8_entries_def list_all_iff)
qed (simp add: utf8_entries_def)

lemma collected_entries:
  assumes "utf8_entries es" and "utf8_entries m"
  shows "utf8_entries (foldl (\<lambda>m (fx, fl). AList.update fx fl m) m es)"
  using assms
proof (induction es arbitrary: m)
  case (Cons e es)
  have "utf8_entries (AList.update k fl m)" if "utf8_entries m" "utf8 k" "list_all utf8 fl" for k fl and m :: "(string \<times> string list) list"
    using that by (induction m) (auto simp: utf8_entries_def)
  with Cons show ?case by (cases e) (auto simp: utf8_entries_def)
qed simp

lemma written_utf8: "utf8_entries m \<Longrightarrow> utf8_entries (written m)"
  unfolding utf8_entries_def written_def list_all_iff
  by (fastforce simp: set_map_keys dest: map_of_SomeD weak_map_of_SomeI)

lemma fixture_names: "list_all (\<lambda>(path, fx). list_all (\<lambda>c. byte c < 128) fx) targets"
  by code_simp

lemma utf8_plain: "list_all (\<lambda>c. byte c < 128) s \<Longrightarrow> utf8 s"
  by (induction s) (auto intro: utf8.intros)

lemma extracted_utf8:
  assumes "utf8_any (AObj doc)" and "is_order ord" and "extract_spec ord doc = Inr out"
  shows "utf8_entries (written out)"
proof -
  have comps: "utf8_any (AObj (components doc))"
    unfolding components_def by (rule utf8_or_nil) (rule utf8_dig [OF assms(1)])
  have "set (range_map (ord 0) targets) = set targets"
    by (rule set_range_map [OF assms(2)]) code_simp
  then have names: "list_all (\<lambda>(path, fx). utf8 fx) (range_map (ord 0) targets)"
    using fixture_names utf8_plain by (auto simp: list_all_iff)
  obtain es where es: "entries ord 1 doc (components doc) (range_map (ord 0) targets) = Inr es"
    and out: "out = foldl (\<lambda>m (fx, fl). AList.update fx fl m) [] es"
    using assms(3) by (auto simp: extract_spec_def res_iff)
  from utf8_extracted [OF assms(1) comps assms(2) names es] show ?thesis
    unfolding out by (intro written_utf8 collected_entries) (simp_all add: utf8_entries_def)
qed

lemma good_fields: "good_json (Suc 0) (json_fields fl)"
  by (simp add: json_fields_def list_all_iff literal_escape)

lemma dec_json_fields: "list_all utf8 fl \<Longrightarrow> dec_slice dec_string [] (json_fields fl) [] = Some fl"
  by (auto simp: json_fields_def traverse_Some unquote_escape to_valid_utf8 list_all_iff)

lemma dec_written:
  assumes "utf8_entries es" and "distinct (map fst (m @ es))"
  shows "dec_map_members (dec_slice dec_string []) [] (map (\<lambda>(k, fl). (escape k, json_fields fl)) es) m = Some (m @ es)"
  using assms
proof (induction es arbitrary: m)
  case (Cons e es)
  obtain k fl where e: "e = (k, fl)" by (cases e)
  have "k \<notin> fst ` set m" using Cons.prems(2) e by simp
  then have "AList.update k fl m = m @ [(k, fl)]" by (induction m) auto
  moreover have "unquote (escape k) = k" "dec_slice dec_string [] (json_fields fl) [] = Some fl"
    using Cons.prems(1) e by (simp_all add: utf8_entries_def unquote_escape to_valid_utf8 dec_json_fields)
  moreover have "utf8_entries es" using Cons.prems(1) by (simp add: utf8_entries_def)
  ultimately show ?case using Cons.IH [of "m @ [(k, fl)]"] Cons.prems(2) e by simp
qed simp

lemma read_written_text:
  assumes "utf8_entries (written out)" and "distinct (map fst (written out))"
  shows "read_fixture (written_text out) = Some (written out)"
proof -
  let ?j = "JObj (map (\<lambda>(k, fl). (escape k, json_fields fl)) (written out))"
  have "good_json 0 ?j" by (auto simp: list_all_iff literal_escape good_fields)
  then have "json_read (written_text out) = Some ?j" unfolding written_text_def by (rule marshal_indent_round)
  then show ?thesis using dec_written [of "written out" "[]"] assms by (simp add: read_fixture_def Unmarshal_def)
qed

text \<open>C36: What the tool writes is what the schema guard reads: whenever the tool succeeds, the file it
  writes decodes, as a map of string lists, to exactly the sorted entries it extracted from the
  specification, whatever characters the property names contain.\<close>

theorem fixture_reads_back:
  assumes "is_order ord" and "extract_main ord read_file can_write args = Inr text"
  shows "\<exists>raw doc out. read_file (spec_path args) = Some raw \<and> Unmarshal (\<lambda>j old. dec_doc j) [] raw = Some doc
    \<and> extract_spec ord doc = Inr out \<and> can_write outPath \<and> read_fixture text = Some (written out)"
proof -
  obtain raw doc out where r: "read_file (spec_path args) = Some raw" "Unmarshal (\<lambda>j old. dec_doc j) [] raw = Some doc"
    "extract_spec ord doc = Inr out" "can_write outPath" and tx: "text = written_text out"
    using assms(2) by (auto simp: extract_main_def Let_def res_iff split: option.splits if_splits)
  have "wf_map out" using r(3) by (auto simp: extract_spec_def res_iff intro: wf_collect)
  then have "distinct (map fst (written out))" using written_sorted by blast
  with read_written_text extracted_utf8 [OF utf8_doc [OF r(2)] assms(1) r(3)] r tx show ?thesis by blast
qed

text \<open>The text of the example specification.\<close>

definition example_spec :: json where
  "example_spec =
     JObj [(''paths'', JObj (map (\<lambda>(path, fx). (path, JObj [(''get'', JObj [(''responses'', JObj [(''200'', JObj
        [(''content'', JObj [(''application/json'', JObj [(''schema'', JObj [(''properties'',
           JObj [(fx, JObj [])])])])])])])])])) targets))]"

lemma literal_plain: "list_all (\<lambda>c. 32 \<le> byte c \<and> c \<noteq> CHR 0x22 \<and> c \<noteq> CHR 0x5C) t \<Longrightarrow> literal t"
  by (induction t) (auto intro: literal.intros)

lemma example_spec_good: "good_json 0 example_spec"
proof -
  have "list_all (\<lambda>(path, fx). list_all (\<lambda>c. 32 \<le> byte c \<and> c \<noteq> CHR 0x22 \<and> c \<noteq> CHR 0x5C) path
      \<and> list_all (\<lambda>c. 32 \<le> byte c \<and> c \<noteq> CHR 0x22 \<and> c \<noteq> CHR 0x5C) fx) targets" by code_simp
  then have "list_all (\<lambda>(path, fx). literal path \<and> literal fx) targets"
    by (auto simp: list_all_iff [of _ targets] intro!: literal_plain)
  moreover have "literal ''paths'' \<and> literal ''get'' \<and> literal ''responses'' \<and> literal ''200'' \<and> literal ''content''
      \<and> literal ''application/json'' \<and> literal ''schema'' \<and> literal ''properties''"
    by (intro conjI literal_plain; code_simp)
  ultimately show ?thesis by (auto simp: example_spec_def list_all_iff)
qed

theorem fixture_reads_back_witness:
  "\<exists>text out. extract_main id_order (\<lambda>p. Some (marshal_indent 0 example_spec @ [CHR 0x0A])) (\<lambda>p. True) [] = Inr text
     \<and> extract_spec id_order example_doc = Inr out \<and> read_fixture text = Some (written out)"
proof -
  let ?raw = "marshal_indent 0 example_spec @ [CHR 0x0A]" and ?read = "Unmarshal (\<lambda>j old. dec_doc j) []"
  have "dec_doc example_spec = Some example_doc" by code_simp
  then have doc: "?read ?raw = Some example_doc"
    by (simp add: Unmarshal_def marshal_indent_round [OF example_spec_good])
  have "case extract_spec id_order example_doc of Inl e \<Rightarrow> False | Inr out \<Rightarrow> True" by code_simp
  then obtain out where "extract_spec id_order example_doc = Inr out" by (cases "extract_spec id_order example_doc") auto
  with doc have main: "extract_main id_order (\<lambda>p. Some ?raw) (\<lambda>p. True) [] = Inr (written_text out)"
    by (simp add: extract_main_def)
  from fixture_reads_back [OF is_order_id main] doc main show ?thesis by auto
qed

end
