(* ===== verification/Spec2Isabelle.thy ===== *)
theory Spec2Isabelle
  imports Prelude Agreement OnceRun StatKeys SchemaFile
begin

text \<open>
  A verification development for the PowerScale exporter: a Go program that scrapes the OneFS API of
  Dell PowerScale clusters, derives metrics, publishes them as one snapshot, and exports the snapshot on
  a Prometheus page and over OTLP.

  \<^bold>\<open>The parts and how they interact.\<close> The command reads a YAML configuration, expands environment
  references and password files in it and validates it. For every configured cluster the server makes a
  client (an authenticated session, or a lazy client that retries to make one). A collection cycle scrapes
  all clusters at once: each client fetches the inventory and the statistics, parsers turn the replies into
  Go structs, the derivations turn these into samples, and the results become one immutable snapshot with
  an index by metric name. The exporters read the latest snapshot. A changed configuration file or a
  SIGHUP reloads the configuration; when the clusters differ the collection is stopped and started anew.

  \<^bold>\<open>Theories and code.\<close>
  \<^item> \<open>Prelude\<close>: results as sums, Go maps as association lists with the order of a \<open>range\<close> loop as an
    argument, counting maps, deduplication. Hint collections \<open>res_iff\<close> and \<open>label_simps\<close>.
  \<^item> \<open>GoStrings\<close>, \<open>GoFloat\<close>, \<open>GoJson\<close>, \<open>GoTime\<close>, \<open>GoPath\<close>: what the program uses of Go's \<open>strings\<close>,
    \<open>strconv\<close>, float64 arithmetic (exact rationals with correct rounding), \<open>encoding/json\<close>, \<open>time\<close> and
    \<open>path/filepath\<close>. Strings are byte strings. \<open>GoJsonText\<close>: JSON as text, that is a grammar which the reader
    implements, and the writer, with the laws that relate them. \<open>GoFormat\<close>: how \<open>%v\<close> prints a float64, the
    shortest decimal that reads back. \<open>GoQuote\<close>: \<open>%q\<close> of a string.
  \<^item> \<open>Onefs\<close>: \<open>internal/models/onefs.go\<close>, every parser of a OneFS reply with its raw structs.
  \<^item> \<open>Metrics\<close>: \<open>internal/powerscale/metrics.go\<close>, \<open>statkeys.go\<close>, \<open>statisticsKeys.json\<close>: labels, samples,
    the table of statistic keys; \<open>StatKeys\<close>: the embedded bytes of the table and their decoding.
  \<^item> \<open>Derivations\<close>: \<open>derivations.go\<close>, from parsed replies to samples; the metric schema.
  \<^item> \<open>Snapshot\<close>: \<open>snapshot.go\<close>; \<open>Exporters\<close>: \<open>prometheus.go\<close>, \<open>otlp.go\<close>.
  \<^item> \<open>Config\<close>: \<open>internal/models/config.go\<close>; \<open>Env\<close>: \<open>internal/utils/env.go\<close>, \<open>file.go\<close> and
    \<open>internal/models/safe_config.go\<close>.
  \<^item> \<open>Client\<close>: \<open>client.go\<close>; \<open>Collector\<close>: \<open>interface.go\<close>, \<open>lazy.go\<close>, \<open>collector.go\<close>.
  \<^item> \<open>Server\<close>: the server of \<open>main.go\<close> as a state machine; \<open>Support\<close>: \<open>dotenv.go\<close>, \<open>logging.go\<close>,
    \<open>watcher.go\<close>, \<open>telemetry/manager.go\<close>, \<open>tracing.go\<close>; \<open>Routing\<close>: the HTTP handlers \<open>Start\<close>
    registers and the requests they answer; \<open>Dump\<close>: \<open>dumpSamples\<close>; \<open>Lifecycle\<close>: the metrics page and the
    properties that span the life of the server; \<open>Command\<close>: the process around the server (start, shutdown,
    the command with its flags, the panics that end it and the exit status) and how runs end.
  \<^item> Properties that need the composition of several parts: \<open>Attribution\<close>, whose series the page shows in every
    reachable state; \<open>Agreement\<close>, what the page and an OTLP push have in common; \<open>Doubles\<close> and \<open>Typing\<close>, the
    type of every value from the parsers to the page; \<open>OnceRun\<close>, runs of a single cycle. \<open>ExampleLive\<close> is a
    cluster that answers, on which runs are evaluated.
  \<^item> \<open>ExtractSchemas\<close>, \<open>SchemaFile\<close>: the development tool \<open>tools/extract-schemas/main.go\<close>, its walk of the
    specification and the file it writes.

  \<^bold>\<open>State.\<close> A Go struct is a record with a field per Go field; a method that mutates its receiver returns the
  new record; \<open>(value, error)\<close> is a sum with a constructor per error message. The network, the trace and
  the dumped files of a cluster are its \<open>World\<close>, threaded through every call of its client. The server's
  record holds the configuration, the store, every collection loop ever started with its phase and
  whether it is cancelled, and the OTLP exporter.

  \<^bold>\<open>Concurrency.\<close> The goroutines of a cycle advance one API call at a time in any order (\<open>cycle_step\<close>);
  a loop, a reload and a scrape interleave in any order (\<open>server_step\<close>). A reload is two steps, since loops
  move between stopping the old collection and starting the new one. Reloads exclude each other (the
  reload mutex); the other mutexes protect operations that are one step of the model. \<open>Shutdown\<close> stops the
  collection in one step, and a reload under way may go on until the process ends (\<open>RunE\<close>).

  \<^bold>\<open>Panics.\<close> A loop whose period is not positive panics in its first call (\<open>Panicked\<close>), and the process with it:
  the server makes no step from then on (\<open>run_step\<close>) and the run ends with \<open>TickerPanic\<close>, unless the process
  ends before the goroutine of the loop has run (\<open>AtOnce\<close>). The statements about \<open>server_step\<close> and \<open>reachable\<close>
  also cover the states in which the other goroutines would go on. \<open>PatternPanic\<close> is the multiplexer's,
  \<open>ClosedChannelPanic\<close> the send of a late HTTP error.

  \<^bold>\<open>Interfaces.\<close> The locale \<open>snapshot_view\<close> (\<open>Snapshot\<close>) is what both exporters need of a snapshot,
  interpreted by the code's index. \<open>client_contract\<close> and \<open>lazy_client\<close> (\<open>Collector\<close>) are what the
  collector needs of a client, interpreted by \<open>ClusterClient\<close>, \<open>LazyClient\<close> and their mixture; \<open>typed_client\<close> and \<open>typed_lazy\<close> (\<open>Typing\<close>)
  extend them with what a client returns.

  \<^bold>\<open>What the lemmas show.\<close>
  \<^item> The page never carries a duplicate series in any reachable state, and loses none; every cluster has one
    \<open>powerscale_up\<close>; a push carries exactly the samples of registered names, and agrees with the page on
    the series and, where none is observed twice, on the observations. Every value is a double.
  \<^item> In every reachable state the live loop collects the configured clusters, every series of the page names a
    cluster of the snapshot and only clusters that are up have data; a stale snapshot heals with the next
    cycle of the live loop.
  \<^item> Every sample follows the schema; the statistics samples, drive counts, event counts, quota thresholds and
    scalings are exact; a broken sensors block, an unknown key or a failed best-effort request costs only
    its own samples.
  \<^item> A cycle is deterministic whatever the schedule, always ends, and one cluster never affects another;
    at most one loop is live; a stopped collection comes to rest and a reload can always complete.
  \<^item> Validation accepts exactly the valid configurations; expansion is substitution; a failed reload changes
    nothing; startup and reload agree unless a secret contains a dollar sign.
  \<^item> Debugging aids change no result and write only safe file names; the samples a single cycle prints determine
    what was collected.
  \<^item> Every command line has a run, and every run ends with a status that tells how it went: the errors, the
    panics and the orderly ends are told apart. Every request is answered by the handler its path selects.
  \<^item> The schema tool lists exactly the documented fields, independently of map order, and the file it
    writes reads back. The embedded table decodes to the table the derivations use.
  \<^item> Divergences: an old cycle can overwrite the snapshot of a reload, secrets are resolved twice at startup,
    a failed HTTP server exits with status 0 or, when it fails late, by a send on a closed channel, a period
    that is not positive and a metrics path the multiplexer panics on pass validation, an empty password file is accepted, a null reading counts as 0, a
    metric that appears after the first cycle has no OTLP instrument.

  \<^bold>\<open>Bounds.\<close> The JSON reader has fuel \<open>2 * length + 2\<close>, which is enough (\<open>fuel_suffices\<close>: with any
  more it returns the same), and Go's nesting limit of 10000. All other loops are structural or have a measure: the
  schema walk decreases the depth left, then the references not yet followed, then the size of the schema.
  Integers decoded from JSON are checked against 64 bits.

  \<^bold>\<open>Parameters.\<close> Not under \<open>src/\<close> and therefore arguments of the definitions: the gopowerscale SDK
  (\<open>Outside\<close>), yaml.v2 (\<open>decode\<close>), godotenv's \<open>Load\<close> (\<open>dotenv\<close>), client_golang's descriptor checks and registry, the
  OpenTelemetry SDK, fsnotify's events, the environment and the file system; cobra's reading of the command
  line (\<open>command_line\<close>), which runes are printable, and metrics paths with the pattern syntax of \<open>ServeMux\<close>
  (wildcards, methods, escapes).

  \<^bold>\<open>Not modelled.\<close> Log lines other than those of the logging package, the sockets and the rendering of HTTP
  replies (the JSON text of the health report, the exposition format), trace spans, the deadlines of a
  shutdown.
  A JSON key that occurs twice with array values is decoded into fresh elements, where Go would reuse the
  elements of the first occurrence. Each cluster has its own network state.
\<close>

end
